(* ===== verification/Prelude.thy ===== *)
theory Prelude
  imports Complex_Main "HOL-Library.AList" "HOL-Library.List_Lexorder" "HOL-Library.Char_ord" "HOL-Library.Multiset"
begin

text \<open>
  What the components share: the representation of Go values that several of them use
  (association lists for Go maps, decimal text for integers) and the generic lemmas about them.

  \<^item> A Go string is a byte string: \<^typ>\<open>string\<close>, a list of 8-bit characters. The order
    of \<open>HOL-Library.List_Lexorder\<close> over \<open>HOL-Library.Char_ord\<close> is Go's \<open><\<close> on
    strings (bytewise, lexicographic).
  \<^item> A Go map is an association list with distinct keys; the list order is an order in which
    \<open>range\<close> may visit the map. Lookup is \<^const>\<open>map_of\<close>, assignment
    \<^const>\<open>AList.update\<close>, \<open>delete\<close> is \<^const>\<open>AList.delete\<close>.
  \<^item> An \<open>(T, error)\<close> result is a sum, \<^const>\<open>Inl\<close> for a non-nil error.
\<close>

type_synonym ('k, 'v) gomap = "('k \<times> 'v) list"

section \<open>Association lists as Go maps\<close>

lemma map_of_update [simp]: "map_of (AList.update k v m) = (map_of m)(k \<mapsto> v)"
  by (rule update_conv')

lemma map_of_delete [simp]: "map_of (AList.delete k m) = (map_of m)(k := None)"
  by (rule delete_conv')

lemma distinct_keys_update [simp]:
  "distinct (map fst m) \<Longrightarrow> distinct (map fst (AList.update k v m))"
  by (rule distinct_update)

lemma distinct_keys_delete [simp]:
  "distinct (map fst m) \<Longrightarrow> distinct (map fst (AList.delete k m))"
  by (rule distinct_delete)

lemma map_of_eq_None_iff_key: "map_of m k = None \<longleftrightarrow> k \<notin> fst ` set m"
  by (auto simp: map_of_eq_None_iff)

lemma map_of_map_values:
  "map_of (map (\<lambda>(k, v). (k, f k v)) m) k = map_option (f k) (map_of m k)"
  by (induction m) auto

lemma map_fst_map_values: "map fst (map (\<lambda>(k, v). (k, f k v)) m) = map fst m"
  by (induction m) auto

lemma map_of_cong_set:
  assumes "distinct (map fst m)" and "distinct (map fst n)" and "set m = set n"
  shows "map_of m = map_of n"
  using assms by (metis map_of_inject_set)

lemma filter_key_unique:
  "distinct (map f xs) \<Longrightarrow> x \<in> set xs \<Longrightarrow> filter (\<lambda>y. f y = f x) xs = [x]"
proof (induction xs)
  case (Cons a xs)
  show ?case
  proof (cases "x = a")
    case True
    with Cons.prems(1) have "\<forall>y \<in> set xs. f y \<noteq> f x" by (auto simp: rev_image_eqI)
    with True show ?thesis by (simp add: filter_empty_conv)
  next
    case False
    with Cons.prems have "f a \<noteq> f x" by (auto simp: rev_image_eqI)
    with False Cons show ?thesis by simp
  qed
qed simp

text \<open>
  An order in which Go may visit a map built by the code: any rearrangement of its entries.
\<close>

definition visit_order :: "('a list \<Rightarrow> 'a list) \<Rightarrow> bool" where
  "visit_order iter \<longleftrightarrow> (\<forall>m. mset (iter m) = mset m)"

lemma visit_order_mset: "visit_order iter \<Longrightarrow> mset (iter m) = mset m"
  by (simp add: visit_order_def)

lemma visit_order_set: "visit_order iter \<Longrightarrow> set (iter m) = set m"
  by (metis set_mset_mset visit_order_mset)

lemma visit_order_id [simp]: "visit_order (\<lambda>m. m)"
  by (simp add: visit_order_def)

lemma visit_order_rev [simp]: "visit_order rev"
  by (simp add: visit_order_def)

lemma visit_order_map_fst:
  "visit_order iter \<Longrightarrow> distinct (map f m) \<Longrightarrow> distinct (map f (iter m))"
  by (metis mset_eq_imp_distinct_iff mset_map visit_order_mset)

section \<open>Decimal text\<close>

text \<open>The text \<open>fmt.Sprintf("%d", n)\<close> gives a non-negative integer.\<close>

definition digit_char :: "nat \<Rightarrow> char" where
  "digit_char d = ''0123456789'' ! d"

fun show_nat :: "nat \<Rightarrow> string" where
  "show_nat n = (if n < 10 then [digit_char n] else show_nat (n div 10) @ [digit_char (n mod 10)])"

declare show_nat.simps [simp del]

definition show_int :: "int \<Rightarrow> string" where
  "show_int i = (if i < 0 then CHR ''-'' # show_nat (nat (- i)) else show_nat (nat i))"

definition is_digit :: "char \<Rightarrow> bool" where
  "is_digit c \<longleftrightarrow> 48 \<le> (of_char c :: nat) \<and> (of_char c :: nat) \<le> 57"

definition digit_val :: "char \<Rightarrow> nat" where
  "digit_val c = of_char c - 48"

definition digits_val :: "string \<Rightarrow> nat" where
  "digits_val cs = foldl (\<lambda>v c. 10 * v + digit_val c) 0 cs"

lemma less_10_cases:
  assumes "(d::nat) < 10"
  obtains "d = 0" | "d = 1" | "d = 2" | "d = 3" | "d = 4"
    | "d = 5" | "d = 6" | "d = 7" | "d = 8" | "d = 9"
  using assms by fastforce

lemma is_digit_digit_char [simp]: "d < 10 \<Longrightarrow> is_digit (digit_char d)"
  by (erule less_10_cases) (simp_all add: digit_char_def is_digit_def)

lemma digit_val_digit_char [simp]: "d < 10 \<Longrightarrow> digit_val (digit_char d) = d"
  by (erule less_10_cases) (simp_all add: digit_char_def digit_val_def)

lemma digits_val_Nil [simp]: "digits_val [] = 0"
  by (simp add: digits_val_def)

lemma digits_val_snoc [simp]: "digits_val (cs @ [c]) = 10 * digits_val cs + digit_val c"
  by (simp add: digits_val_def)

lemma digits_val_single [simp]: "digits_val [c] = digit_val c"
  by (simp add: digits_val_def)

lemma digits_val_show_nat [simp]: "digits_val (show_nat n) = n"
proof (induction n rule: show_nat.induct)
  case (1 n)
  then show ?case by (subst show_nat.simps) auto
qed

lemma show_nat_digits: "c \<in> set (show_nat n) \<Longrightarrow> is_digit c"
proof (induction n rule: show_nat.induct)
  case (1 n)
  then show ?case by (subst (asm) (2) show_nat.simps) (auto split: if_splits)
qed

lemma show_nat_nonempty [simp]: "show_nat n \<noteq> []"
  by (subst show_nat.simps) simp

lemma show_nat_inj [simp]: "show_nat m = show_nat n \<longleftrightarrow> m = n"
  by (metis digits_val_show_nat)

lemma show_nat_no_digit: "\<not> is_digit c \<Longrightarrow> c \<notin> set (show_nat n)"
  using show_nat_digits by blast

text \<open>
  Two texts that agree up to the first occurrence of a separator absent from both heads have
  equal heads and equal tails: the one splitting argument behind every composite key.
\<close>

lemma append_sep_eq_iff:
  assumes "s \<notin> set xs" and "s \<notin> set ys"
  shows "xs @ s # us = ys @ s # vs \<longleftrightarrow> xs = ys \<and> us = vs"
  using assms
proof (induction xs arbitrary: ys)
  case Nil
  then show ?case by (cases ys) auto
next
  case (Cons x xs)
  then show ?case by (cases ys) auto
qed

lemma append_sep_eq_iff_right:
  assumes "s \<notin> set us" and "s \<notin> set vs"
  shows "xs @ s # us = ys @ s # vs \<longleftrightarrow> xs = ys \<and> us = vs"
proof -
  have "xs @ s # us = ys @ s # vs \<longleftrightarrow> rev us @ s # rev xs = rev vs @ s # rev ys"
    by (metis append.assoc append_Cons append_Nil rev.simps(2) rev_append rev_is_rev_conv)
  also have "\<dots> \<longleftrightarrow> rev us = rev vs \<and> rev xs = rev ys"
    using assms by (intro append_sep_eq_iff) auto
  finally show ?thesis by auto
qed

end
