(* ===== verification/Base64.thy ===== *)
theory Base64
  imports Prelude
begin

text \<open>
  \<open>base64.URLEncoding\<close>, which turns the random bytes of session tokens, JWT secrets and agent
  ids into text: three bytes become four letters, the last group is padded. A byte slice is a
  \<^typ>\<open>string\<close>.
\<close>

definition b64_alphabet :: string where
  "b64_alphabet = ''ABCDEFGHIJKLMNOPQRSTUVWXYZabcdefghijklmnopqrstuvwxyz0123456789-_''"

definition b64_char :: "nat \<Rightarrow> char" where
  "b64_char n = b64_alphabet ! (n mod 64)"

definition sextets :: "nat \<Rightarrow> nat list" where
  "sextets v = [v div 262144, v div 4096 mod 64, v div 64 mod 64, v mod 64]"

fun base64url :: "string \<Rightarrow> string" where
  "base64url [] = []"
| "base64url [a] = map b64_char (take 2 (sextets (of_char a * 65536))) @ ''==''"
| "base64url [a, b] = map b64_char (take 3 (sextets (of_char a * 65536 + of_char b * 256))) @ ''=''"
| "base64url (a # b # c # bs) =
     map b64_char (sextets (of_char a * 65536 + of_char b * 256 + of_char c)) @ base64url bs"

section \<open>The encoding can be undone\<close>

definition b64_val :: "char \<Rightarrow> nat" where
  "b64_val c = length (takeWhile (\<lambda>x. x \<noteq> c) b64_alphabet)"

definition group_bytes :: "nat list \<Rightarrow> string" where
  "group_bytes qs =
     (let v = foldl (\<lambda>v q. 64 * v + q) 0 qs in map char_of [v div 65536, v div 256 mod 256, v mod 256])"

fun base64url_decode :: "string \<Rightarrow> string" where
  "base64url_decode (p # q # r # s # cs) =
     (if s = CHR ''='' then
        (if r = CHR ''='' then take 1 (group_bytes [b64_val p, b64_val q, 0, 0])
         else take 2 (group_bytes [b64_val p, b64_val q, b64_val r, 0]))
      else group_bytes [b64_val p, b64_val q, b64_val r, b64_val s] @ base64url_decode cs)"
| "base64url_decode _ = []"

lemma b64_all: "\<forall>n \<in> set [0..<64]. b64_val (b64_char n) = n \<and> b64_char n \<noteq> CHR ''='' \<and> b64_char n \<in> set b64_alphabet"
  by code_simp

lemma b64_char_less [simp]:
  assumes "n < 64"
  shows "b64_val (b64_char n) = n" "b64_char n \<noteq> CHR ''=''" "b64_char n \<in> set b64_alphabet"
  using b64_all assms by auto

lemma b64_char_in [simp]: "b64_char n \<in> set b64_alphabet"
proof -
  have "b64_char n = b64_char (n mod 64)" by (simp add: b64_char_def)
  then show ?thesis by (metis b64_char_less(3) mod_less_divisor zero_less_numeral)
qed

lemma byte_less [simp]: "(of_char c :: nat) < 256"
  using nat_of_char_less_256 [of c] by simp

lemma sextets_less: "v < 16777216 \<Longrightarrow> q \<in> set (sextets v) \<Longrightarrow> q < 64"
  by (auto simp: sextets_def less_mult_imp_div_less)

lemma sextets_sum: "foldl (\<lambda>v q. 64 * v + q) 0 (sextets v) = v"
proof -
  have "64 * (v div 262144) + v div 4096 mod 64 = v div 4096"
    using mult_div_mod_eq [of 64 "v div 4096"] by (simp add: div_mult2_eq [symmetric])
  moreover have "64 * (v div 4096) + v div 64 mod 64 = v div 64"
    using mult_div_mod_eq [of 64 "v div 64"] by (simp add: div_mult2_eq [symmetric])
  moreover have "64 * (v div 64) + v mod 64 = v" by simp
  ultimately show ?thesis by (simp add: sextets_def)
qed

lemma div_mod_digit: "(c :: nat) < k \<Longrightarrow> (x * k + c) div k = x \<and> (x * k + c) mod k = c"
  by simp

lemma group_bytes_sextets:
  assumes "a < 256" and "b < 256" and "c < 256"
  shows "group_bytes (sextets (a * 65536 + b * 256 + c)) = map char_of [a, b, c]"
proof -
  let ?v = "a * 65536 + b * 256 + c"
  have v: "(a * 256 + b) * 256 + c = ?v" by simp
  have low: "?v div 256 = a * 256 + b" "?v mod 256 = c"
    using div_mod_digit [OF assms(3), of "a * 256 + b"] unfolding v by blast+
  have "?v div 65536 = ?v div 256 div 256" by (simp add: div_mult2_eq [symmetric])
  with low div_mod_digit [OF assms(2), of a] have "?v div 65536 = a" "?v div 256 mod 256 = b"
    by metis+
  with low(2) show ?thesis by (simp only: group_bytes_def sextets_sum Let_def)
qed

lemma char_group: "group_bytes (sextets (of_char a * 65536 + of_char b * 256 + of_char c)) = [a, b, c]"
  by (simp add: group_bytes_sextets)

lemma byte_group_less: "of_char a * 65536 + of_char b * 256 + of_char c < (16777216 :: nat)"
  using byte_less [of a] byte_less [of b] byte_less [of c] by linarith

lemma sextets_pad:
  "sextets (64 * v) = [64 * v div 262144, 64 * v div 4096 mod 64, v mod 64, 0]"
  by (simp add: sextets_def)

lemma sextets_one: "sextets (a * 65536) = [a * 65536 div 262144, a * 65536 div 4096 mod 64, 0, 0]"
proof -
  have "64 * (a * 1024) = a * 65536" "a * 1024 mod 64 = (64 * (a * 16)) mod 64" by simp_all
  with sextets_pad [of "a * 1024"] show ?thesis by (metis mod_mult_self1_is_0)
qed

lemma sextets_two:
  "sextets (a * 65536 + b * 256) =
     [(a * 65536 + b * 256) div 262144, (a * 65536 + b * 256) div 4096 mod 64, (a * 65536 + b * 256) div 64 mod 64, 0]"
proof -
  have "64 * (a * 1024 + b * 4) = a * 65536 + b * 256" by simp
  with sextets_pad [of "a * 1024 + b * 4"] show ?thesis
    by (metis nonzero_mult_div_cancel_left zero_neq_numeral)
qed

lemma decode_group:
  assumes "p < 64" and "q < 64"
  shows "base64url_decode (map b64_char [p, q] @ ''=='') = take 1 (group_bytes [p, q, 0, 0])"
    and "r < 64 \<Longrightarrow> base64url_decode (map b64_char [p, q, r] @ ''='') = take 2 (group_bytes [p, q, r, 0])"
    and "r < 64 \<Longrightarrow> s < 64 \<Longrightarrow>
      base64url_decode (map b64_char [p, q, r, s] @ cs) = group_bytes [p, q, r, s] @ base64url_decode cs"
  using assms by simp_all

theorem base64url_roundtrip: "base64url_decode (base64url bs) = bs"
proof (induction bs rule: base64url.induct)
  case (2 a)
  obtain p q where s: "sextets (of_char a * 65536) = [p, q, 0, 0]" using sextets_one by blast
  have "p < 64" "q < 64"
    using sextets_less [of "of_char a * 65536"] byte_less [of a] unfolding s by auto
  moreover have "group_bytes [p, q, 0, 0] = [a, CHR 0x00, CHR 0x00]"
    using char_group [of a "CHR 0x00" "CHR 0x00"] s by simp
  ultimately have "base64url_decode (map b64_char [p, q] @ ''=='') = [a]"
    using decode_group(1) [of p q] by simp
  then show ?case unfolding base64url.simps s by simp
next
  case (3 a b)
  obtain p q r where s: "sextets (of_char a * 65536 + of_char b * 256) = [p, q, r, 0]"
    using sextets_two by blast
  have "p < 64" "q < 64" "r < 64"
    using sextets_less [OF byte_group_less [of a b "CHR 0x00"]] s by simp_all
  moreover have "group_bytes [p, q, r, 0] = [a, b, CHR 0x00]"
    using char_group [of a b "CHR 0x00"] s by simp
  ultimately have "base64url_decode (map b64_char [p, q, r] @ ''='') = [a, b]"
    using decode_group(2) [of p q r] by (simp add: numeral_2_eq_2)
  then show ?case unfolding base64url.simps s by simp
next
  case (4 a b c bs)
  obtain p q r t where s: "sextets (of_char a * 65536 + of_char b * 256 + of_char c) = [p, q, r, t]"
    by (simp add: sextets_def)
  have "p < 64" "q < 64" "r < 64" "t < 64"
    using sextets_less [OF byte_group_less [of a b c]] unfolding s by auto
  moreover have "group_bytes [p, q, r, t] = [a, b, c]"
    using char_group [of a b c] s by simp
  ultimately have "base64url_decode (map b64_char [p, q, r, t] @ base64url bs) = [a, b, c] @ bs"
    using decode_group(3) 4 by metis
  then show ?case unfolding base64url.simps s by simp
qed simp

lemma base64url_inj: "base64url bs = base64url cs \<longleftrightarrow> bs = cs"
  by (metis base64url_roundtrip)

lemma base64url_chars: "set (base64url bs) \<subseteq> set b64_alphabet \<union> {CHR ''=''}"
  by (induction bs rule: base64url.induct) (auto simp: sextets_def)

lemma base64url_length: "length (base64url bs) = 4 * ((length bs + 2) div 3)"
proof (induction bs rule: base64url.induct)
  case (4 a b c bs)
  have "length (a # b # c # bs) + 2 = (length bs + 2) + 3" by simp
  then have "(length (a # b # c # bs) + 2) div 3 = Suc ((length bs + 2) div 3)" by (metis div_add_self2 Suc_eq_plus1 zero_neq_numeral)
  then show ?case unfolding base64url.simps length_append 4 by (simp add: sextets_def)
qed (simp_all add: sextets_def)

end
