(* ===== verification/Json.thy ===== *)
theory Json
  imports Prelude
begin

text \<open>
  What the repository uses of \<open>encoding/json\<close>. A document is a \<open>json\<close>; a
  \<open>json.RawMessage\<close> or any other byte slice that is only ever decoded is a \<open>raw\<close>:
  \<open>Some j\<close> for bytes that are the text of the document \<open>j\<close>, \<open>None\<close> for bytes the
  decoder rejects as a syntax error (the empty slice included). A \<open>float64\<close> read from a
  document is finite, so it is a rational.

  The decoders below give what \<open>json.Unmarshal\<close> leaves in its target, starting from the
  value the target already holds; \<open>None\<close> is a non-nil error. After a type error
  \<open>encoding/json\<close> goes on and reports it at the end; the callers of these decoders then drop
  the target, so the rest of the decoding is not followed. The callers that use the target in
  spite of the error decode with functions of their own (\<open>InternetBridge\<close>, \<open>Remote\<close>,
  \<open>Prototype\<close>).
\<close>

datatype json =
    JNull
  | JBool bool
  | JNum rat
  | JStr string
  | JArr "json list"
  | JObj "(string \<times> json) list"

type_synonym raw = "json option"

text \<open>
  \<open>map[string]interface{}\<close>: \<open>None\<close> is the nil map. An object text may repeat a key; the
  last occurrence wins.
\<close>

type_synonym jmap = "(string, json) gomap option"

definition obj_map :: "(string \<times> json) list \<Rightarrow> (string, json) gomap" where
  "obj_map kvs = fold (\<lambda>(k, v) m. AList.update k v m) kvs []"

definition mget :: "jmap \<Rightarrow> string \<Rightarrow> json option" where
  "mget m k = (case m of None \<Rightarrow> None | Some kvs \<Rightarrow> map_of kvs k)"

definition mentries :: "jmap \<Rightarrow> (string, json) gomap" where
  "mentries m = (case m of None \<Rightarrow> [] | Some kvs \<Rightarrow> kvs)"

fun unmarshal_map :: "raw \<Rightarrow> jmap option" where
  "unmarshal_map None = None"
| "unmarshal_map (Some JNull) = Some None"
| "unmarshal_map (Some (JObj kvs)) = Some (Some (obj_map kvs))"
| "unmarshal_map (Some _) = None"

text \<open>\<open>json.Marshal\<close> of a map, and of a \<open>json.RawMessage\<close> (nil encodes as null).\<close>

definition marshal_map :: "jmap \<Rightarrow> json" where
  "marshal_map m = (case m of None \<Rightarrow> JNull | Some kvs \<Rightarrow> JObj kvs)"

definition marshal_raw :: "raw \<Rightarrow> json" where
  "marshal_raw r = (case r of None \<Rightarrow> JNull | Some j \<Rightarrow> j)"

text \<open>Decoding into a field of type \<open>string\<close>, \<open>float64\<close>, \<open>json.RawMessage\<close>.\<close>

fun dec_string :: "string \<Rightarrow> json \<Rightarrow> string option" where
  "dec_string old JNull = Some old"
| "dec_string old (JStr s) = Some s"
| "dec_string old _ = None"

fun dec_float :: "rat \<Rightarrow> json \<Rightarrow> rat option" where
  "dec_float old JNull = Some old"
| "dec_float old (JNum x) = Some x"
| "dec_float old _ = None"

text \<open>\<open>json.Unmarshal\<close> into a fresh \<open>string\<close> variable.\<close>

definition unmarshal_string :: "raw \<Rightarrow> string option" where
  "unmarshal_string r = (case r of None \<Rightarrow> None | Some j \<Rightarrow> dec_string '''' j)"

text \<open>
  Struct fields are matched by name up to case folding: the fold maps every rune to the least
  rune of its case orbit, so the ASCII letters go to upper case, and the Kelvin sign
  (U+212A, bytes E2 84 AA) and the long s (U+017F, bytes C5 BF) go to K and S. No other rune
  folds to an ASCII one.
\<close>

definition ascii_upper :: "char \<Rightarrow> char" where
  "ascii_upper c = (if 97 \<le> (of_char c :: nat) \<and> (of_char c :: nat) \<le> 122
                    then char_of ((of_char c :: nat) - 32) else c)"

fun foldName :: "string \<Rightarrow> string" where
  "foldName [] = []"
| "foldName (c # cs) =
     (if c = CHR 0xE2 \<and> take 2 cs = [CHR 0x84, CHR 0xAA] then CHR ''K'' # foldName (drop 2 cs)
      else if c = CHR 0xC5 \<and> take 1 cs = [CHR 0xBF] then CHR ''S'' # foldName (drop 1 cs)
      else ascii_upper c # foldName cs)"

definition field_is :: "string \<Rightarrow> string \<Rightarrow> bool" where
  "field_is key name \<longleftrightarrow> foldName key = foldName name"

text \<open>\<open>int64(x)\<close> and \<open>int(x)\<close> of a \<open>float64\<close>: towards zero; out of range it is the least value (amd64).\<close>

definition to_int64 :: "rat \<Rightarrow> int" where
  "to_int64 x =
     (let i = (if 0 \<le> x then \<lfloor>x\<rfloor> else \<lceil>x\<rceil>) in if - (2 ^ 63) \<le> i \<and> i < 2 ^ 63 then i else - (2 ^ 63))"

lemma to_int64_of_int: "- (2 ^ 63) \<le> i \<Longrightarrow> i < 2 ^ 63 \<Longrightarrow> to_int64 (of_int i) = i"
  by (simp add: to_int64_def)

section \<open>Laws\<close>

lemma obj_map_fold:
  "map_of (fold (\<lambda>(k, v) m. AList.update k v m) kvs m) = map_of m ++ map_of (rev kvs)"
proof (induction kvs arbitrary: m)
  case Nil
  then show ?case by simp
next
  case (Cons x kvs)
  obtain k v where "x = (k, v)" by (cases x)
  with Cons show ?case by (simp add: map_add_def fun_eq_iff split: option.splits)
qed

lemma map_of_obj_map: "map_of (obj_map kvs) = map_of (rev kvs)"
  by (simp add: obj_map_def obj_map_fold)

lemma distinct_obj_map [simp]: "distinct (map fst (obj_map kvs))"
proof -
  have "distinct (map fst m) \<Longrightarrow> distinct (map fst (fold (\<lambda>(k, v) m. AList.update k v m) kvs m))" for m
    by (induction kvs arbitrary: m) (auto split: prod.splits)
  then show ?thesis by (simp add: obj_map_def)
qed

lemma update_append_fresh:
  "k \<notin> fst ` set m \<Longrightarrow> AList.update k v m = m @ [(k, v)]"
  by (induction m) auto

lemma obj_map_distinct_id: "distinct (map fst kvs) \<Longrightarrow> obj_map kvs = kvs"
proof -
  have "distinct (map fst (m @ kvs)) \<Longrightarrow> fold (\<lambda>(k, v) m. AList.update k v m) kvs m = m @ kvs" for m
  proof (induction kvs arbitrary: m)
    case Nil
    then show ?case by simp
  next
    case (Cons x kvs)
    then show ?case by (cases x) (auto simp: update_append_fresh)
  qed
  from this [of "[]"] show "distinct (map fst kvs) \<Longrightarrow> obj_map kvs = kvs"
    by (simp add: obj_map_def)
qed

lemma map_of_obj_map_distinct: "distinct (map fst kvs) \<Longrightarrow> map_of (obj_map kvs) = map_of kvs"
  by (simp add: obj_map_distinct_id)

definition jmap_ok :: "jmap \<Rightarrow> bool" where
  "jmap_ok m \<longleftrightarrow> (case m of None \<Rightarrow> True | Some kvs \<Rightarrow> distinct (map fst kvs))"

lemma unmarshal_map_ok: "unmarshal_map r = Some m \<Longrightarrow> jmap_ok m"
  by (induction r rule: unmarshal_map.induct) (auto simp: jmap_ok_def)

lemma unmarshal_marshal_map [simp]: "jmap_ok m \<Longrightarrow> unmarshal_map (Some (marshal_map m)) = Some m"
  by (cases m) (auto simp: marshal_map_def jmap_ok_def obj_map_distinct_id)

lemma mget_None [simp]: "mget None k = None"
  by (simp add: mget_def)

lemma mget_Some [simp]: "mget (Some kvs) k = map_of kvs k"
  by (simp add: mget_def)

lemma field_is_refl [simp]: "field_is k k"
  by (simp add: field_is_def)

end
