(* ===== verification/Models.thy ===== *)
theory Models
  imports Json
begin

text \<open>
  The data of \<open>internal/models/models.go\<close>: devices, rules, schedules, and the condition and
  action documents stored in a rule, with the decoding \<open>json.Unmarshal\<close> performs into them
  (by the struct tags of that file). A \<open>Condition\<close> is recursive, so its scalar fields are a
  record and the struct is a node with those fields and its \<open>Children\<close>.
\<close>

section \<open>Structs\<close>

record device =
  dev_ID :: string
  dev_Name :: string
  dev_Type :: string
  dev_State :: raw
  dev_MQTTTopic :: string
  dev_Accepted :: bool
  dev_OwnerID :: "string option"

record cond_fields =
  cType :: string
  cDeviceID :: string
  cKey :: string
  cOp :: string
  cValue :: raw
  cMinChange :: rat
  cOperator :: string

datatype condition = Condition (Fields: cond_fields) (Children: "condition list")

record action =
  aDeviceID :: string
  aAction :: string
  aParams :: raw

record rule =
  rID :: string
  rName :: string
  rConditions :: raw
  rActions :: raw
  rEnabled :: bool
  rOwnerID :: string

record schedule =
  sID :: string
  sRuleID :: string
  sCronExpression :: string
  sEnabled :: bool

section \<open>Decoding\<close>

text \<open>
  A struct target: null leaves it alone, an object sets the fields it names, in order,
  anything else is a type error. \<open>step v k j\<close> decodes the value \<open>j\<close> of the key \<open>k\<close>
  into \<open>v\<close>; a key that names no field is skipped.
\<close>

fun dec_members :: "('a \<Rightarrow> string \<Rightarrow> json \<Rightarrow> 'a option) \<Rightarrow> 'a \<Rightarrow> (string \<times> json) list \<Rightarrow> 'a option" where
  "dec_members step v [] = Some v"
| "dec_members step v ((k, j) # kvs) =
     (case step v k j of None \<Rightarrow> None | Some v' \<Rightarrow> dec_members step v' kvs)"

fun dec_struct :: "('a \<Rightarrow> string \<Rightarrow> json \<Rightarrow> 'a option) \<Rightarrow> 'a \<Rightarrow> json \<Rightarrow> 'a option" where
  "dec_struct step v JNull = Some v"
| "dec_struct step v (JObj kvs) = dec_members step v kvs"
| "dec_struct step v _ = None"

definition zero_fields :: cond_fields where
  "zero_fields = \<lparr>cType = '''', cDeviceID = '''', cKey = '''', cOp = '''', cValue = None,
     cMinChange = 0, cOperator = ''''\<rparr>"

definition zero_condition :: condition where
  "zero_condition = Condition zero_fields []"

definition dec_cond_field :: "cond_fields \<Rightarrow> string \<Rightarrow> json \<Rightarrow> cond_fields option" where
  "dec_cond_field f k j =
     (if field_is k ''type'' then map_option (\<lambda>s. f\<lparr>cType := s\<rparr>) (dec_string (cType f) j)
      else if field_is k ''device_id'' then map_option (\<lambda>s. f\<lparr>cDeviceID := s\<rparr>) (dec_string (cDeviceID f) j)
      else if field_is k ''key'' then map_option (\<lambda>s. f\<lparr>cKey := s\<rparr>) (dec_string (cKey f) j)
      else if field_is k ''op'' then map_option (\<lambda>s. f\<lparr>cOp := s\<rparr>) (dec_string (cOp f) j)
      else if field_is k ''value'' then Some (f\<lparr>cValue := Some j\<rparr>)
      else if field_is k ''min_change'' then map_option (\<lambda>x. f\<lparr>cMinChange := x\<rparr>) (dec_float (cMinChange f) j)
      else if field_is k ''operator'' then map_option (\<lambda>s. f\<lparr>cOperator := s\<rparr>) (dec_string (cOperator f) j)
      else Some f)"

text \<open>
  The children are decoded into the elements the slice already has (a repeated key), and
  into zero values beyond them.
\<close>

fun dec_condition :: "condition \<Rightarrow> json \<Rightarrow> condition option"
  and dec_cond_members :: "condition \<Rightarrow> (string \<times> json) list \<Rightarrow> condition option"
  and dec_children :: "condition list \<Rightarrow> json list \<Rightarrow> condition list option"
where
  "dec_condition c JNull = Some c"
| "dec_condition c (JObj kvs) = dec_cond_members c kvs"
| "dec_condition c _ = None"
| "dec_cond_members c [] = Some c"
| "dec_cond_members c ((k, j) # kvs) =
     (if field_is k ''children'' then
        (case j of
           JNull \<Rightarrow> dec_cond_members (Condition (Fields c) []) kvs
         | JArr js \<Rightarrow>
             (case dec_children (Children c) js of
                None \<Rightarrow> None
              | Some cs \<Rightarrow> dec_cond_members (Condition (Fields c) cs) kvs)
         | _ \<Rightarrow> None)
      else
        (case dec_cond_field (Fields c) k j of
           None \<Rightarrow> None
         | Some f \<Rightarrow> dec_cond_members (Condition f (Children c)) kvs))"
| "dec_children olds [] = Some []"
| "dec_children olds (j # js) =
     (case dec_condition (case olds of [] \<Rightarrow> zero_condition | c # _ \<Rightarrow> c) j of
        None \<Rightarrow> None
      | Some c \<Rightarrow> map_option ((#) c) (dec_children (drop 1 olds) js))"

definition unmarshal_condition :: "raw \<Rightarrow> condition option" where
  "unmarshal_condition r = (case r of None \<Rightarrow> None | Some j \<Rightarrow> dec_condition zero_condition j)"

definition zero_action :: action where
  "zero_action = \<lparr>aDeviceID = '''', aAction = '''', aParams = None\<rparr>"

definition dec_action_field :: "action \<Rightarrow> string \<Rightarrow> json \<Rightarrow> action option" where
  "dec_action_field a k j =
     (if field_is k ''device_id'' then map_option (\<lambda>s. a\<lparr>aDeviceID := s\<rparr>) (dec_string (aDeviceID a) j)
      else if field_is k ''action'' then map_option (\<lambda>s. a\<lparr>aAction := s\<rparr>) (dec_string (aAction a) j)
      else if field_is k ''params'' then Some (a\<lparr>aParams := Some j\<rparr>)
      else Some a)"

fun unmarshal_actions :: "raw \<Rightarrow> action list option" where
  "unmarshal_actions None = None"
| "unmarshal_actions (Some JNull) = Some []"
| "unmarshal_actions (Some (JArr js)) = those (map (dec_struct dec_action_field zero_action) js)"
| "unmarshal_actions (Some _) = None"

section \<open>Documents the decoder reads back\<close>

text \<open>
  The document a client writes for a condition or an action. Decoding it gives the value
  back, for every tree.
\<close>

fun enc_condition :: "condition \<Rightarrow> json" where
  "enc_condition (Condition f cs) =
     JObj ([(''type'', JStr (cType f)), (''device_id'', JStr (cDeviceID f)), (''key'', JStr (cKey f)),
            (''op'', JStr (cOp f))]
           @ (case cValue f of None \<Rightarrow> [] | Some j \<Rightarrow> [(''value'', j)])
           @ [(''min_change'', JNum (cMinChange f)), (''operator'', JStr (cOperator f)),
              (''children'', JArr (map enc_condition cs))])"

lemma dec_children_encoded:
  assumes "\<And>c. c \<in> set cs \<Longrightarrow> dec_condition zero_condition (enc_condition c) = Some c"
  shows "dec_children [] (map enc_condition cs) = Some cs"
  using assms by (induction cs) auto

lemma dec_enc_condition: "dec_condition zero_condition (enc_condition c) = Some c"
proof (induction c)
  case (Condition f cs)
  then have "dec_children [] (map enc_condition cs) = Some cs"
    by (intro dec_children_encoded) simp
  then show ?case
    by (cases f; cases "cValue f")
      (simp_all add: zero_condition_def zero_fields_def dec_cond_field_def field_is_def ascii_upper_def)
qed

lemma unmarshal_enc_condition [simp]: "unmarshal_condition (Some (enc_condition c)) = Some c"
  by (simp add: unmarshal_condition_def dec_enc_condition)

definition enc_action :: "action \<Rightarrow> json" where
  "enc_action a =
     JObj ([(''device_id'', JStr (aDeviceID a)), (''action'', JStr (aAction a))]
           @ (case aParams a of None \<Rightarrow> [] | Some j \<Rightarrow> [(''params'', j)]))"

lemma dec_enc_action: "dec_struct dec_action_field zero_action (enc_action a) = Some a"
  by (cases a; cases "aParams a")
    (simp_all add: enc_action_def zero_action_def dec_action_field_def field_is_def ascii_upper_def)

lemma unmarshal_enc_actions [simp]: "unmarshal_actions (Some (JArr (map enc_action as))) = Some as"
proof -
  have "those (map (dec_struct dec_action_field zero_action) (map enc_action as)) = Some as"
    by (induction as) (simp_all add: dec_enc_action)
  then show ?thesis by simp
qed

text \<open>All structs of a tree, the root first.\<close>

fun nodes :: "condition \<Rightarrow> cond_fields list" where
  "nodes (Condition f cs) = f # concat (map nodes cs)"

text \<open>
  a condition tree or an action list of any shape survives storage: decoding the document a
  client writes for it, under the field names of the struct tags, gives it back unchanged, with
  every nested child and every raw value.
\<close>

theorem documents_roundtrip:
  "unmarshal_condition (Some (enc_condition c)) = Some c
   \<and> unmarshal_actions (Some (JArr (map enc_action as))) = Some as"
  by (simp only: unmarshal_enc_condition unmarshal_enc_actions simp_thms)

end
