(* ===== verification/Db.thy ===== *)
theory Db
  imports Models
begin

text \<open>
  \<open>internal/db/queries.go\<close> over the tables of \<open>schema.sql\<close>. A table is the list of its
  rows; integer ids are kept as the decimal text \<open>pgx\<close> scans into the Go string fields.

  What the repository does not determine is part of the state: \<open>db_out n\<close> says how the
  \<open>n\<close>-th statement goes (done, failed before it ran, or a row stream that breaks off after
  some rows), and \<open>db_int\<close> is Postgres' reading of a text parameter compared with an integer
  column (its canonical decimal text, \<open>None\<close> for malformed input, which the server answers
  with an error). A failed statement changes nothing: a
  commit whose answer is lost on the way is not modelled.
\<close>

datatype dberr = NoRows | PgError | ScanError

datatype outcome = Done | Fail | Cut nat

record rule_row =
  rrID :: string
  rrName :: string
  rrConditions :: json
  rrActions :: json
  rrEnabled :: "bool option"
  rrOwnerID :: "string option"

record user_row =
  urID :: string
  urUsername :: string
  urPassword :: string
  urEmail :: string

record history_row =
  hrID :: "string option"
  hrDeviceID :: "string option"
  hrState :: raw
  hrRuleID :: "string option"

record db =
  t_rules :: "rule_row list"
  t_schedules :: "schedule list"
  t_devices :: "device list"
  t_users :: "user_row list"
  t_history :: "history_row list"
  rules_seq :: nat
  schedules_seq :: nat
  users_seq :: nat
  db_calls :: nat
  db_out :: "nat \<Rightarrow> outcome"
  db_int :: "string \<Rightarrow> string option"

section \<open>Statements\<close>

definition tick :: "db \<Rightarrow> db" where
  "tick d = d\<lparr>db_calls := Suc (db_calls d)\<rparr>"

definition outcome_of :: "db \<Rightarrow> outcome" where
  "outcome_of d = db_out d (db_calls d)"

text \<open>
  \<open>pool.Query\<close> returns an error only when the statement could not be sent. A later error (a
  malformed parameter, a broken stream) ends \<open>rows.Next()\<close>, and no query of the repository
  reads \<open>rows.Err()\<close>: the rows received so far are the result.
\<close>

definition query :: "(db \<Rightarrow> 'row list option) \<Rightarrow> db \<Rightarrow> (dberr + 'row list) \<times> db" where
  "query stmt d =
     (let rows = (case stmt d of None \<Rightarrow> [] | Some rs \<Rightarrow> rs) in
      case outcome_of d of
        Done \<Rightarrow> (Inr rows, tick d)
      | Fail \<Rightarrow> (Inl PgError, tick d)
      | Cut n \<Rightarrow> (Inr (take n rows), tick d))"

text \<open>\<open>pool.QueryRow(...).Scan\<close>: the first row, or an error.\<close>

definition query_row :: "(db \<Rightarrow> 'row list option) \<Rightarrow> db \<Rightarrow> (dberr + 'row) \<times> db" where
  "query_row stmt d =
     (case outcome_of d of
        Done \<Rightarrow>
          (case stmt d of
             None \<Rightarrow> (Inl PgError, tick d)
           | Some [] \<Rightarrow> (Inl NoRows, tick d)
           | Some (r # _) \<Rightarrow> (Inr r, tick d))
      | _ \<Rightarrow> (Inl PgError, tick d))"

text \<open>\<open>pool.Exec\<close>, or \<open>QueryRow\<close> of a statement that writes.\<close>

definition exec :: "(db \<Rightarrow> (dberr + 'a) \<times> db) \<Rightarrow> db \<Rightarrow> (dberr + 'a) \<times> db" where
  "exec stmt d = (case outcome_of d of Done \<Rightarrow> stmt (tick d) | _ \<Rightarrow> (Inl PgError, tick d))"

text \<open>A text parameter against an integer column.\<close>

definition where_int :: "string \<Rightarrow> (string \<Rightarrow> db \<Rightarrow> 'a) \<Rightarrow> db \<Rightarrow> 'a option" where
  "where_int x stmt d = (case db_int d x of None \<Rightarrow> None | Some i \<Rightarrow> Some (stmt i d))"

definition exec_int :: "string \<Rightarrow> (string \<Rightarrow> db \<Rightarrow> (dberr + 'a) \<times> db) \<Rightarrow> db \<Rightarrow> (dberr + 'a) \<times> db" where
  "exec_int x stmt d = (case db_int d x of None \<Rightarrow> (Inl PgError, d) | Some i \<Rightarrow> stmt i d)"

definition sum_bind :: "'e + 'a \<Rightarrow> ('a \<Rightarrow> 'e + 'b) \<Rightarrow> 'e + 'b" where
  "sum_bind x f = (case x of Inl e \<Rightarrow> Inl e | Inr a \<Rightarrow> f a)"

section \<open>Rules\<close>

text \<open>\<open>Scan\<close> into a \<open>models.Rule\<close> without its owner; NULL does not scan into a \<open>bool\<close>.\<close>

definition scan_rule :: "rule_row \<Rightarrow> dberr + rule" where
  "scan_rule r =
     (case rrEnabled r of
        None \<Rightarrow> Inl ScanError
      | Some e \<Rightarrow> Inr \<lparr>rID = rrID r, rName = rrName r, rConditions = Some (rrConditions r),
                       rActions = Some (rrActions r), rEnabled = e, rOwnerID = ''''\<rparr>)"

fun scan_all :: "('row \<Rightarrow> dberr + 'a) \<Rightarrow> 'row list \<Rightarrow> dberr + 'a list" where
  "scan_all scan [] = Inr []"
| "scan_all scan (r # rs) =
     (case scan r of
        Inl e \<Rightarrow> Inl e
      | Inr x \<Rightarrow> (case scan_all scan rs of Inl e \<Rightarrow> Inl e | Inr xs \<Rightarrow> Inr (x # xs)))"

definition GetRuleByID :: "string \<Rightarrow> db \<Rightarrow> (dberr + rule) \<times> db" where
  "GetRuleByID i d =
     (case query_row (where_int i (\<lambda>i d. filter (\<lambda>r. rrID r = i) (t_rules d))) d of
        (res, d') \<Rightarrow> (sum_bind res scan_rule, d'))"

definition GetAllRules :: "db \<Rightarrow> (dberr + rule list) \<times> db" where
  "GetAllRules d =
     (case query (\<lambda>d. Some (t_rules d)) d of (res, d') \<Rightarrow> (sum_bind res (scan_all scan_rule), d'))"

section \<open>Devices\<close>

definition GetDeviceByID :: "string \<Rightarrow> db \<Rightarrow> (dberr + device) \<times> db" where
  "GetDeviceByID i d = query_row (\<lambda>d. Some (filter (\<lambda>x. dev_ID x = i) (t_devices d))) d"

definition GetPendingDevices :: "db \<Rightarrow> (dberr + device list) \<times> db" where
  "GetPendingDevices d = query (\<lambda>d. Some (filter (\<lambda>x. \<not> dev_Accepted x) (t_devices d))) d"

definition map_rows :: "('row \<Rightarrow> bool) \<Rightarrow> ('row \<Rightarrow> 'row) \<Rightarrow> 'row list \<Rightarrow> 'row list" where
  "map_rows p f rows = map (\<lambda>r. if p r then f r else r) rows"

definition UpdateDeviceState :: "string \<Rightarrow> json \<Rightarrow> db \<Rightarrow> (dberr + unit) \<times> db" where
  "UpdateDeviceState i state =
     exec (\<lambda>d. (Inr (), d\<lparr>t_devices :=
       map_rows (\<lambda>x. dev_ID x = i) (\<lambda>x. x\<lparr>dev_State := Some state\<rparr>) (t_devices d)\<rparr>))"

definition InsertDevice :: "string \<Rightarrow> string \<Rightarrow> string \<Rightarrow> string \<Rightarrow> json \<Rightarrow> db \<Rightarrow> (dberr + unit) \<times> db" where
  "InsertDevice i name deviceType mqttTopic state =
     exec (\<lambda>d.
       if i \<in> dev_ID ` set (t_devices d) then (Inl PgError, d)
       else (Inr (), d\<lparr>t_devices := t_devices d @
              [\<lparr>dev_ID = i, dev_Name = name, dev_Type = deviceType, dev_State = Some state,
                dev_MQTTTopic = mqttTopic, dev_Accepted = False, dev_OwnerID = None\<rparr>]\<rparr>))"

definition AcceptDevice :: "string \<Rightarrow> string \<Rightarrow> db \<Rightarrow> (dberr + unit) \<times> db" where
  "AcceptDevice i ownerID =
     (if ownerID \<noteq> '''' then
        exec (exec_int ownerID (\<lambda>owner d.
          if (\<exists>x \<in> set (t_devices d). dev_ID x = i) \<and> owner \<notin> urID ` set (t_users d) then (Inl PgError, d)
          else (Inr (), d\<lparr>t_devices := map_rows (\<lambda>x. dev_ID x = i)
                 (\<lambda>x. x\<lparr>dev_Accepted := True, dev_OwnerID := Some owner\<rparr>) (t_devices d)\<rparr>)))
      else
        exec (\<lambda>d. (Inr (), d\<lparr>t_devices :=
          map_rows (\<lambda>x. dev_ID x = i) (\<lambda>x. x\<lparr>dev_Accepted := True\<rparr>) (t_devices d)\<rparr>)))"

definition DeleteDevice :: "string \<Rightarrow> db \<Rightarrow> (dberr + unit) \<times> db" where
  "DeleteDevice i =
     exec (\<lambda>d.
       if Some i \<in> hrDeviceID ` set (t_history d) \<and> i \<in> dev_ID ` set (t_devices d) then (Inl PgError, d)
       else (Inr (), d\<lparr>t_devices := filter (\<lambda>x. dev_ID x \<noteq> i) (t_devices d)\<rparr>))"

section \<open>The history\<close>

text \<open>
  \<open>LogAction\<close> writes the device id into the integer column \<open>id\<close> and no \<open>device_id\<close>, which
  the schema declares NOT NULL.
\<close>

definition insert_history :: "history_row \<Rightarrow> db \<Rightarrow> (dberr + unit) \<times> db" where
  "insert_history h d =
     (if hrID h = None \<or> hrDeviceID h = None \<or> hrRuleID h = None then (Inl PgError, d)
      else if hrID h \<in> hrID ` set (t_history d) \<or> the (hrDeviceID h) \<notin> dev_ID ` set (t_devices d)
        \<or> the (hrRuleID h) \<notin> rrID ` set (t_rules d) then (Inl PgError, d)
      else (Inr (), d\<lparr>t_history := t_history d @ [h]\<rparr>))"

definition LogAction :: "string \<Rightarrow> string \<Rightarrow> json \<Rightarrow> db \<Rightarrow> (dberr + unit) \<times> db" where
  "LogAction ruleID deviceID state =
     exec (exec_int ruleID (\<lambda>rule. exec_int deviceID (\<lambda>i.
       insert_history \<lparr>hrID = Some i, hrDeviceID = None, hrState = Some state, hrRuleID = Some rule\<rparr>)))"

section \<open>Schedules\<close>

definition GetAllSchedules :: "db \<Rightarrow> (dberr + schedule list) \<times> db" where
  "GetAllSchedules d = query (\<lambda>d. Some (t_schedules d)) d"

definition GetSchedulesByRuleID :: "string \<Rightarrow> db \<Rightarrow> (dberr + schedule list) \<times> db" where
  "GetSchedulesByRuleID ruleID d =
     query (where_int ruleID (\<lambda>i d. filter (\<lambda>s. sRuleID s = i) (t_schedules d))) d"

definition GetScheduleByID :: "string \<Rightarrow> db \<Rightarrow> (dberr + schedule) \<times> db" where
  "GetScheduleByID i d =
     query_row (where_int i (\<lambda>i d. filter (\<lambda>s. sID s = i) (t_schedules d))) d"

definition GetScheduleByRuleAndCron :: "string \<Rightarrow> string \<Rightarrow> db \<Rightarrow> (dberr + schedule) \<times> db" where
  "GetScheduleByRuleAndCron ruleID cronExpression d =
     query_row (where_int ruleID (\<lambda>i d.
       filter (\<lambda>s. sRuleID s = i \<and> sCronExpression s = cronExpression) (t_schedules d))) d"

text \<open>
  The id comes from the identity sequence of an \<open>integer\<close> column, so it ends at \<open>2^31 - 1\<close>.
  The sequence moves even when the foreign key then refuses the row.
\<close>

definition CreateSchedule :: "string \<Rightarrow> string \<Rightarrow> bool \<Rightarrow> db \<Rightarrow> (dberr + string) \<times> db" where
  "CreateSchedule ruleID cronExpression enabled =
     exec (exec_int ruleID (\<lambda>rule d.
       if schedules_seq d > 2147483647 then (Inl PgError, d)
       else
         let i = show_nat (schedules_seq d);
             d' = d\<lparr>schedules_seq := Suc (schedules_seq d)\<rparr>
         in if rule \<notin> rrID ` set (t_rules d) \<or> i \<in> sID ` set (t_schedules d) then (Inl PgError, d')
            else (Inr i, d'\<lparr>t_schedules := t_schedules d @
                   [\<lparr>sID = i, sRuleID = rule, sCronExpression = cronExpression, sEnabled = enabled\<rparr>]\<rparr>)))"

definition UpdateSchedule :: "string \<Rightarrow> string \<Rightarrow> bool \<Rightarrow> db \<Rightarrow> (dberr + unit) \<times> db" where
  "UpdateSchedule i cronExpression enabled =
     exec (exec_int i (\<lambda>i d. (Inr (), d\<lparr>t_schedules :=
       map_rows (\<lambda>s. sID s = i)
         (\<lambda>s. s\<lparr>sCronExpression := cronExpression, sEnabled := enabled\<rparr>) (t_schedules d)\<rparr>)))"

definition DeleteSchedule :: "string \<Rightarrow> db \<Rightarrow> (dberr + unit) \<times> db" where
  "DeleteSchedule i =
     exec (exec_int i (\<lambda>i d. (Inr (), d\<lparr>t_schedules := filter (\<lambda>s. sID s \<noteq> i) (t_schedules d)\<rparr>)))"

definition DeleteSchedulesByRuleID :: "string \<Rightarrow> db \<Rightarrow> (dberr + unit) \<times> db" where
  "DeleteSchedulesByRuleID ruleID =
     exec (exec_int ruleID (\<lambda>i d.
       (Inr (), d\<lparr>t_schedules := filter (\<lambda>s. sRuleID s \<noteq> i) (t_schedules d)\<rparr>)))"

section \<open>Laws\<close>

text \<open>
  A read changes nothing but the statement counter. When every statement succeeds, a read
  gives what the tables hold.
\<close>

definition db_up :: "db \<Rightarrow> bool" where
  "db_up d \<longleftrightarrow> (\<forall>n. db_out d n = Done)"

lemma tick_fields [simp]:
  "t_rules (tick d) = t_rules d" "t_schedules (tick d) = t_schedules d" "t_devices (tick d) = t_devices d"
  "t_users (tick d) = t_users d" "t_history (tick d) = t_history d" "db_out (tick d) = db_out d"
  "db_int (tick d) = db_int d" "rules_seq (tick d) = rules_seq d" "schedules_seq (tick d) = schedules_seq d"
  "users_seq (tick d) = users_seq d" "db_calls (tick d) = Suc (db_calls d)"
  by (simp_all add: tick_def)

lemma db_up_tick [simp]: "db_up (tick d) = db_up d"
  by (simp add: db_up_def)

lemma snd_query [simp]: "snd (query stmt d) = tick d"
  by (simp add: query_def Let_def split: outcome.split)

lemma snd_query_row [simp]: "snd (query_row stmt d) = tick d"
  by (simp add: query_row_def split: outcome.split option.split list.split)

lemma query_up: "db_up d \<Longrightarrow> query stmt d = (Inr (case stmt d of None \<Rightarrow> [] | Some rs \<Rightarrow> rs), tick d)"
  by (simp add: query_def outcome_of_def db_up_def Let_def)

lemma query_row_up:
  "db_up d \<Longrightarrow> query_row stmt d =
     ((case stmt d of None \<Rightarrow> Inl PgError | Some [] \<Rightarrow> Inl NoRows | Some (r # _) \<Rightarrow> Inr r), tick d)"
  by (simp add: query_row_def outcome_of_def db_up_def split: option.split list.split)

lemma exec_up: "db_up d \<Longrightarrow> exec stmt d = stmt (tick d)"
  by (simp add: exec_def outcome_of_def db_up_def)

lemma read_only [simp]:
  "snd (GetRuleByID i d) = tick d" "snd (GetAllRules d) = tick d" "snd (GetDeviceByID i d) = tick d"
  "snd (GetPendingDevices d) = tick d" "snd (GetAllSchedules d) = tick d"
  "snd (GetSchedulesByRuleID i d) = tick d" "snd (GetScheduleByID i d) = tick d"
  "snd (GetScheduleByRuleAndCron i c d) = tick d"
  by (simp_all add: GetRuleByID_def GetAllRules_def GetDeviceByID_def GetPendingDevices_def GetAllSchedules_def
      GetSchedulesByRuleID_def GetScheduleByID_def GetScheduleByRuleAndCron_def case_prod_unfold)

lemma where_int_eq: "db_int d x = Some i \<Longrightarrow> where_int x stmt d = Some (stmt i d)"
  by (simp add: where_int_def)

lemma exec_int_eq: "db_int d x = Some i \<Longrightarrow> exec_int x stmt d = stmt i d"
  by (simp add: exec_int_def)

text \<open>The rule a row scans into.\<close>

definition rule_of :: "rule_row \<Rightarrow> rule" where
  "rule_of r = \<lparr>rID = rrID r, rName = rrName r, rConditions = Some (rrConditions r),
     rActions = Some (rrActions r), rEnabled = the (rrEnabled r), rOwnerID = ''''\<rparr>"

lemma scan_rule_Inr: "scan_rule r = Inr x \<longleftrightarrow> rrEnabled r \<noteq> None \<and> x = rule_of r"
  by (auto simp: scan_rule_def rule_of_def split: option.split)

lemma scan_all_Inr:
  "scan_all scan_rule rs = Inr xs \<longleftrightarrow> (\<forall>r \<in> set rs. rrEnabled r \<noteq> None) \<and> xs = map rule_of rs"
proof (induction rs arbitrary: xs)
  case (Cons r rs)
  show ?case
  proof (cases "rrEnabled r")
    case None
    then show ?thesis by (simp add: scan_rule_def)
  next
    case (Some y)
    then have "scan_rule r = Inr (rule_of r)" by (simp add: scan_rule_Inr)
    with Some Cons.IH show ?thesis by (cases "scan_all scan_rule rs") auto
  qed
qed auto

section \<open>Well-formed tables\<close>

text \<open>
  The keys and the foreign key of the schema, and the texts \<open>pgx\<close> gives for ids: a stored id
  and a number of the identity range are read back as themselves.
\<close>

definition db_ok :: "db \<Rightarrow> bool" where
  "db_ok d \<longleftrightarrow>
     distinct (map rrID (t_rules d)) \<and> distinct (map sID (t_schedules d)) \<and> distinct (map dev_ID (t_devices d))
     \<and> sRuleID ` set (t_schedules d) \<subseteq> rrID ` set (t_rules d)
     \<and> (\<forall>i \<in> rrID ` set (t_rules d) \<union> sID ` set (t_schedules d). db_int d i = Some i)
     \<and> (\<forall>n \<le> 2147483647. db_int d (show_nat n) = Some (show_nat n))"

text \<open>A reading of integer parameters with these properties.\<close>

definition pg_int :: "string \<Rightarrow> string option" where
  "pg_int s = (if s \<noteq> '''' \<and> list_all is_digit s then Some (show_nat (digits_val s)) else None)"

lemma pg_int_show_nat [simp]: "pg_int (show_nat n) = Some (show_nat n)"
  using show_nat_digits [of _ n] by (auto simp: pg_int_def list_all_iff)

definition schedules_only :: "db \<Rightarrow> db \<Rightarrow> bool" where
  "schedules_only d d' \<longleftrightarrow>
     t_rules d' = t_rules d \<and> t_devices d' = t_devices d \<and> t_users d' = t_users d \<and>
     t_history d' = t_history d \<and> db_out d' = db_out d \<and> db_int d' = db_int d \<and>
     rules_seq d' = rules_seq d \<and> users_seq d' = users_seq d"

lemma outcome_not_up: "outcome_of d \<noteq> Done \<Longrightarrow> \<not> db_up d"
  by (auto simp: outcome_of_def db_up_def)

lemma schedules_only_refl [simp]: "schedules_only d d"
  by (simp add: schedules_only_def)

lemma schedules_only_tick [simp]: "schedules_only d (tick d)"
  by (simp add: schedules_only_def)

lemma schedules_only_trans: "schedules_only d d' \<Longrightarrow> schedules_only d' d'' \<Longrightarrow> schedules_only d d''"
  by (simp add: schedules_only_def)

lemma schedules_only_up: "schedules_only d d' \<Longrightarrow> db_up d' = db_up d"
  by (simp add: schedules_only_def db_up_def)

lemma db_ok_tick [simp]: "db_ok (tick d) = db_ok d"
  by (simp add: db_ok_def)

lemma db_ok_same_schedules:
  "schedules_only d d' \<Longrightarrow> t_schedules d' = t_schedules d \<Longrightarrow> db_ok d' = db_ok d"
  by (simp add: db_ok_def schedules_only_def)

lemma map_rows_map: "(\<And>x. g (f x) = g x) \<Longrightarrow> map g (map_rows p f rows) = map g rows"
  by (simp add: map_rows_def)

lemma CreateSchedule_cases:
  obtains (failed) x d' where "CreateSchedule r c e d = (Inl x, d')" and "schedules_only d d'"
      and "t_schedules d' = t_schedules d"
    | (created) n rule d' where "CreateSchedule r c e d = (Inr (show_nat n), d')" and "schedules_only d d'"
      and "n \<le> 2147483647" and "db_int d r = Some rule" and "rule \<in> rrID ` set (t_rules d)"
      and "show_nat n \<notin> sID ` set (t_schedules d)"
      and "t_schedules d' = t_schedules d
             @ [\<lparr>sID = show_nat n, sRuleID = rule, sCronExpression = c, sEnabled = e\<rparr>]"
proof (cases "\<exists>rule. outcome_of d = Done \<and> db_int d r = Some rule \<and> schedules_seq d \<le> 2147483647
    \<and> rule \<in> rrID ` set (t_rules d) \<and> show_nat (schedules_seq d) \<notin> sID ` set (t_schedules d)")
  case True
  then obtain rule where *: "outcome_of d = Done" "db_int d r = Some rule" "schedules_seq d \<le> 2147483647"
    "rule \<in> rrID ` set (t_rules d)" "show_nat (schedules_seq d) \<notin> sID ` set (t_schedules d)" by blast
  then show thesis
    by (intro created [of "schedules_seq d" "snd (CreateSchedule r c e d)" rule])
      (simp_all add: CreateSchedule_def exec_def exec_int_def Let_def schedules_only_def)
next
  case False
  then show thesis
    by (intro failed [of "case fst (CreateSchedule r c e d) of Inl x \<Rightarrow> x | _ \<Rightarrow> PgError" "snd (CreateSchedule r c e d)"])
      (auto simp: CreateSchedule_def exec_def exec_int_def Let_def schedules_only_def
        split: outcome.split option.split)
qed

lemma UpdateSchedule_cases:
  assumes "db_int d i = Some i"
  obtains (failed) x where "UpdateSchedule i c e d = (Inl x, tick d)" and "\<not> db_up d"
    | (updated) d' where "UpdateSchedule i c e d = (Inr (), d')" and "schedules_only d d'"
      and "t_schedules d' = map_rows (\<lambda>s. sID s = i) (\<lambda>s. s\<lparr>sCronExpression := c, sEnabled := e\<rparr>) (t_schedules d)"
proof (cases "outcome_of d = Done")
  case True
  with assms show thesis
    by (intro updated [of "snd (UpdateSchedule i c e d)"])
      (simp_all add: UpdateSchedule_def exec_def exec_int_def schedules_only_def)
next
  case False
  then show thesis
    by (intro failed [of PgError] outcome_not_up) (auto simp: UpdateSchedule_def exec_def split: outcome.split)
qed

lemma DeleteSchedule_cases:
  assumes "db_int d i = Some i"
  obtains (failed) "snd (DeleteSchedule i d) = tick d" and "\<not> db_up d"
    | (deleted) d' where "snd (DeleteSchedule i d) = d'" and "schedules_only d d'"
      and "t_schedules d' = filter (\<lambda>s. sID s \<noteq> i) (t_schedules d)"
proof (cases "outcome_of d = Done")
  case True
  with assms show thesis
    by (intro deleted [of "snd (DeleteSchedule i d)"])
      (simp_all add: DeleteSchedule_def exec_def exec_int_def schedules_only_def)
next
  case False
  then show thesis
    by (intro failed outcome_not_up) (auto simp: DeleteSchedule_def exec_def split: outcome.split)
qed

lemma db_ok_append:
  assumes "db_ok d" and "schedules_only d d'" and "n \<le> 2147483647" and "rule \<in> rrID ` set (t_rules d)"
    and "show_nat n \<notin> sID ` set (t_schedules d)"
    and "t_schedules d' = t_schedules d @ [\<lparr>sID = show_nat n, sRuleID = rule, sCronExpression = c, sEnabled = e\<rparr>]"
  shows "db_ok d'"
  using assms by (auto simp: db_ok_def schedules_only_def)

lemma db_ok_map_rows:
  assumes "db_ok d" and "schedules_only d d'" and "t_schedules d' = map_rows p f (t_schedules d)"
    and f: "\<And>s. sID (f s) = sID s" "\<And>s. sRuleID (f s) = sRuleID s"
  shows "db_ok d'"
proof -
  have "map sID (t_schedules d') = map sID (t_schedules d)" "map sRuleID (t_schedules d') = map sRuleID (t_schedules d)"
    using assms(3) f by (simp_all add: map_rows_map)
  then have "sID ` set (t_schedules d') = sID ` set (t_schedules d)"
    and "sRuleID ` set (t_schedules d') = sRuleID ` set (t_schedules d)"
    and "distinct (map sID (t_schedules d')) = distinct (map sID (t_schedules d))"
    by (metis list.set_map)+
  with assms(1,2) show ?thesis by (simp add: db_ok_def schedules_only_def)
qed

lemma db_ok_filter:
  assumes "db_ok d" and "schedules_only d d'" and "t_schedules d' = filter p (t_schedules d)"
  shows "db_ok d'"
  using assms by (auto simp: db_ok_def schedules_only_def distinct_map_filter)

text \<open>What the reads of a rule's schedules return.\<close>

lemma GetSchedulesByRuleID_sub:
  "fst (GetSchedulesByRuleID i d) = Inr schs \<Longrightarrow>
     set schs \<subseteq> {s \<in> set (t_schedules d). db_int d i = Some (sRuleID s)}"
  by (auto simp: GetSchedulesByRuleID_def query_def where_int_def Let_def
      split: outcome.splits option.splits dest!: in_set_takeD)

lemma GetSchedulesByRuleID_up:
  "db_up d \<Longrightarrow> db_int d i = Some i \<Longrightarrow>
     GetSchedulesByRuleID i d = (Inr (filter (\<lambda>s. sRuleID s = i) (t_schedules d)), tick d)"
  by (simp add: GetSchedulesByRuleID_def query_up where_int_def)

lemma GetAllSchedules_sub:
  "fst (GetAllSchedules d) = Inr schs \<Longrightarrow> \<exists>n. schs = take n (t_schedules d)"
  by (auto simp: GetAllSchedules_def query_def Let_def split: outcome.splits intro: exI [of _ "length (t_schedules d)"])

lemma GetAllSchedules_up: "db_up d \<Longrightarrow> GetAllSchedules d = (Inr (t_schedules d), tick d)"
  by (simp add: GetAllSchedules_def query_up)

lemma query_row_Inr:
  "fst (query_row stmt d) = Inr r \<Longrightarrow> \<exists>rs. stmt d = Some rs \<and> r \<in> set rs"
  by (auto simp: query_row_def split: outcome.splits option.splits list.splits)

lemma GetScheduleByRuleAndCron_Inr:
  assumes "fst (GetScheduleByRuleAndCron i c d) = Inr s"
  shows "s \<in> set (t_schedules d) \<and> db_int d i = Some (sRuleID s) \<and> sCronExpression s = c"
  using query_row_Inr [OF assms [unfolded GetScheduleByRuleAndCron_def]]
  by (auto simp: where_int_def split: option.splits)

lemma GetScheduleByRuleAndCron_Inl_up:
  "db_up d \<Longrightarrow> db_int d i = Some i \<Longrightarrow> fst (GetScheduleByRuleAndCron i c d) = Inl x \<Longrightarrow>
     s \<in> set (t_schedules d) \<Longrightarrow> sRuleID s = i \<Longrightarrow> sCronExpression s \<noteq> c"
  by (auto simp: GetScheduleByRuleAndCron_def query_row_up where_int_def filter_empty_conv
      split: list.splits)

lemma GetRuleByID_up:
  assumes "db_up d" and "db_ok d" and "x \<in> set (t_rules d)"
  shows "GetRuleByID (rrID x) d = (scan_rule x, tick d)"
proof -
  from assms(2,3) have "db_int d (rrID x) = Some (rrID x)" by (auto simp: db_ok_def)
  moreover have "filter (\<lambda>r. rrID r = rrID x) (t_rules d) = [x]"
    using assms(2,3) by (simp add: db_ok_def filter_key_unique)
  ultimately show ?thesis
    using assms(1) by (simp add: GetRuleByID_def query_row_up where_int_def sum_bind_def)
qed

section \<open>Properties\<close>

lemma db_ok_devices:
  assumes "db_ok d" and "distinct (map dev_ID devs)"
  shows "db_ok (d\<lparr>t_devices := devs\<rparr>)"
  using assms by (simp add: db_ok_def)

lemma db_ok_exec:
  assumes "db_ok d" and "\<And>d. db_ok d \<Longrightarrow> db_ok (snd (stmt d))"
  shows "db_ok (snd (exec stmt d))"
  using assms by (simp add: exec_def split: outcome.split)

lemma db_ok_exec_int:
  assumes "db_ok d" and "\<And>i. db_ok (snd (stmt i d))"
  shows "db_ok (snd (exec_int x stmt d))"
  using assms by (simp add: exec_int_def split: option.split)

lemma distinct_ids: "db_ok d \<Longrightarrow> distinct (map dev_ID (t_devices d))"
  by (simp add: db_ok_def)

text \<open>The queries of this file that write keep the tables well formed, whatever becomes of the statement.\<close>

theorem writes_keep_db_ok:
  assumes "db_ok d"
  shows "db_ok (snd (CreateSchedule r c e d)) \<and> db_ok (snd (UpdateSchedule i c e d))
    \<and> db_ok (snd (DeleteSchedule i d)) \<and> db_ok (snd (DeleteSchedulesByRuleID r d))
    \<and> db_ok (snd (UpdateDeviceState v j d)) \<and> db_ok (snd (InsertDevice v n t q j d))
    \<and> db_ok (snd (AcceptDevice v u d)) \<and> db_ok (snd (DeleteDevice v d)) \<and> db_ok (snd (LogAction r v j d))"
proof (intro conjI)
  show "db_ok (snd (CreateSchedule r c e d))"
  proof (cases rule: CreateSchedule_cases [of r c e d])
    case (failed x d')
    with assms show ?thesis by (simp add: db_ok_same_schedules)
  next
    case (created n rule d')
    with db_ok_append [OF assms] show ?thesis by simp
  qed
  show "db_ok (snd (UpdateSchedule i c e d))"
    unfolding UpdateSchedule_def
    by (intro db_ok_exec db_ok_exec_int assms, assumption)
      (auto intro: db_ok_map_rows [where f = "\<lambda>s. s\<lparr>sCronExpression := c, sEnabled := e\<rparr>"] simp: schedules_only_def)
  show "db_ok (snd (DeleteSchedule i d))" and "db_ok (snd (DeleteSchedulesByRuleID r d))"
    unfolding DeleteSchedule_def DeleteSchedulesByRuleID_def
    by (intro db_ok_exec db_ok_exec_int assms, assumption, auto intro: db_ok_filter simp: schedules_only_def)+
  show "db_ok (snd (UpdateDeviceState v j d))"
    unfolding UpdateDeviceState_def
    by (intro db_ok_exec assms) (simp add: db_ok_devices map_rows_map distinct_ids)
  show "db_ok (snd (InsertDevice v n t q j d))"
    unfolding InsertDevice_def
    by (intro db_ok_exec assms) (auto intro!: db_ok_devices simp: distinct_ids)
  show "db_ok (snd (AcceptDevice v u d))"
    unfolding AcceptDevice_def
    by (auto intro!: db_ok_exec db_ok_exec_int assms db_ok_devices simp: map_rows_map distinct_ids)
  show "db_ok (snd (DeleteDevice v d))"
    unfolding DeleteDevice_def
    by (intro db_ok_exec assms) (auto intro!: db_ok_devices simp: distinct_ids distinct_map_filter)
  show "db_ok (snd (LogAction r v j d))"
    unfolding LogAction_def
    by (intro db_ok_exec db_ok_exec_int assms, assumption, assumption) (auto simp: insert_history_def db_ok_def)
qed

definition demo_db :: "rule_row list \<Rightarrow> schedule list \<Rightarrow> device list \<Rightarrow> db" where
  "demo_db rules schedules devices =
     \<lparr>t_rules = rules, t_schedules = schedules, t_devices = devices, t_users = [], t_history = [],
      rules_seq = 100, schedules_seq = 100, users_seq = 1, db_calls = 0, db_out = (\<lambda>_. Done), db_int = pg_int\<rparr>"

definition demo_rule_row :: "string \<Rightarrow> json \<Rightarrow> json \<Rightarrow> rule_row" where
  "demo_rule_row i conditions actions =
     \<lparr>rrID = i, rrName = ''rule '' @ i, rrConditions = conditions, rrActions = actions,
      rrEnabled = Some True, rrOwnerID = Some ''1''\<rparr>"

lemma demo_db_up [simp]: "db_up (demo_db rules schedules devices)"
  by (simp add: db_up_def demo_db_def)

lemma writes_keep_db_ok_witness:
  "db_ok (snd (CreateSchedule ''7'' ''30 18 * * *'' True (demo_db [demo_rule_row ''7'' JNull JNull] [] [])))"
proof -
  have "db_int (demo_db [demo_rule_row ''7'' JNull JNull] [] []) ''7'' = Some ''7''"
    using pg_int_show_nat [of 7] by (simp add: demo_db_def show_nat.simps digit_char_def)
  then have "db_ok (demo_db [demo_rule_row ''7'' JNull JNull] [] [])"
    by (simp add: db_ok_def demo_db_def demo_rule_row_def)
  from writes_keep_db_ok [OF this] show ?thesis by blast
qed

text \<open>
  \<open>LogAction\<close> never records anything: its statement leaves out the NOT NULL device column
  (and puts the device id in the row id), so it returns an error in every state and the history
  stays as it was.
\<close>

theorem LogAction_never_logs:
  "\<exists>x d'. LogAction ruleID deviceID state d = (Inl x, d') \<and> t_history d' = t_history d"
  by (simp add: LogAction_def exec_def exec_int_def insert_history_def split: outcome.split option.split)

end
