(* ===== verification/Redis.thy ===== *)
theory Redis
  imports Prelude Json
begin

text \<open>
  The interface to the Redis server. The server and its client library are not part of the
  repository: its commands are a record of functions over an abstract server state \<open>'r\<close> that
  every operation using Redis takes as an argument, and the locale \<open>redis_server\<close> states the
  documented behaviour of a reachable server, through what a key holds and for how long.
  \<open>mem_redis\<close> is a server that keeps its keys in memory; it satisfies the locale, and the
  witnesses run on it.

  A Redis string is \<open>VText\<close> (written from a Go string or integer) or \<open>VDoc\<close> (the text
  \<open>json.Marshal\<close> produced for a document, never empty). A key may expire: its value comes with
  the seconds it has left, \<open>None\<close> for a key without expiration.
\<close>

datatype rstr = VText string | VDoc json

datatype rerr = RNil | RWrongType | RUnavailable

datatype rval = RStr rstr | RSet "string set"

type_synonym rview = "string \<Rightarrow> (rval \<times> nat option) option"

record 'r redis_api =
  rc_get :: "'r \<Rightarrow> string \<Rightarrow> rerr + rstr"
  rc_set :: "string \<Rightarrow> rstr \<Rightarrow> nat option \<Rightarrow> 'r \<Rightarrow> rerr option \<times> 'r"
  rc_del :: "string \<Rightarrow> 'r \<Rightarrow> rerr option \<times> 'r"
  rc_keys :: "'r \<Rightarrow> string \<Rightarrow> rerr + string list"
  rc_sadd :: "string \<Rightarrow> string \<Rightarrow> 'r \<Rightarrow> rerr option \<times> 'r"
  rc_srem :: "string \<Rightarrow> string \<Rightarrow> 'r \<Rightarrow> rerr option \<times> 'r"
  rc_smembers :: "'r \<Rightarrow> string \<Rightarrow> rerr + string list"
  rc_ttl :: "'r \<Rightarrow> string \<Rightarrow> rerr + nat option"
  rc_expire :: "string \<Rightarrow> nat \<Rightarrow> 'r \<Rightarrow> rerr option \<times> 'r"
  rc_elapse :: "nat \<Rightarrow> 'r \<Rightarrow> 'r"

text \<open>
  \<open>rc_elapse n\<close> is the server after \<open>n\<close> seconds without a command. The client's durations
  here are whole seconds. The pattern of \<open>KEYS\<close> matters only in the form the repository
  uses: text, one star, text.
\<close>

definition age :: "nat \<Rightarrow> (rval \<times> nat option) option \<Rightarrow> (rval \<times> nat option) option" where
  "age n x =
     (case x of
        None \<Rightarrow> None
      | Some (v, None) \<Rightarrow> Some (v, None)
      | Some (v, Some ttl) \<Rightarrow> if n < ttl then Some (v, Some (ttl - n)) else None)"

definition glob_plain :: "string \<Rightarrow> bool" where
  "glob_plain s \<longleftrightarrow> set s \<inter> {CHR ''*'', CHR ''?'', CHR ''['', CHR 0x5C} = {}"

definition key_members :: "rview \<Rightarrow> string \<Rightarrow> string set" where
  "key_members w k = (case w k of Some (RSet S, _) \<Rightarrow> S | _ \<Rightarrow> {})"

definition key_string :: "rview \<Rightarrow> string \<Rightarrow> rstr option" where
  "key_string w k = (case w k of Some (RStr v, _) \<Rightarrow> Some v | _ \<Rightarrow> None)"

definition holds_string :: "rview \<Rightarrow> string \<Rightarrow> bool" where
  "holds_string w k \<longleftrightarrow> key_string w k \<noteq> None"

definition put_members :: "string \<Rightarrow> string set \<Rightarrow> nat option \<Rightarrow> rview \<Rightarrow> rview" where
  "put_members k S ttl w = w(k := if S = {} then None else Some (RSet S, ttl))"

definition key_ttl :: "rview \<Rightarrow> string \<Rightarrow> nat option" where
  "key_ttl w k = (case w k of Some (_, ttl) \<Rightarrow> ttl | None \<Rightarrow> None)"

locale redis_server =
  fixes R :: "'r redis_api" and view :: "'r \<Rightarrow> rview"
  assumes get_string: "view r k = Some (RStr v, ttl) \<Longrightarrow> rc_get R r k = Inr v"
    and get_missing: "view r k = None \<Longrightarrow> rc_get R r k = Inl RNil"
    and get_set: "view r k = Some (RSet S, ttl) \<Longrightarrow> rc_get R r k = Inl RWrongType"
    and set_reply: "fst (rc_set R k v ttl r) = None"
    and set_view: "view (snd (rc_set R k v ttl r)) = (view r)(k \<mapsto> (RStr v, ttl))"
    and del_reply: "fst (rc_del R k r) = None"
    and del_view: "view (snd (rc_del R k r)) = (view r)(k := None)"
    and keys_star: "glob_plain pre \<Longrightarrow> glob_plain suf \<Longrightarrow>
      \<exists>ks. rc_keys R r (pre @ ''*'' @ suf) = Inr ks
         \<and> set ks = {k. view r k \<noteq> None \<and> (\<exists>m. k = pre @ m @ suf)}"
    and sadd_string: "holds_string (view r) k \<Longrightarrow> view (snd (rc_sadd R k m r)) = view r"
    and sadd_view: "\<not> holds_string (view r) k \<Longrightarrow>
      view (snd (rc_sadd R k m r))
      = put_members k (insert m (key_members (view r) k)) (key_ttl (view r) k) (view r)"
    and srem_string: "holds_string (view r) k \<Longrightarrow> view (snd (rc_srem R k m r)) = view r"
    and srem_view: "\<not> holds_string (view r) k \<Longrightarrow>
      view (snd (rc_srem R k m r))
      = put_members k (key_members (view r) k - {m}) (key_ttl (view r) k) (view r)"
    and smembers_set: "\<not> holds_string (view r) k \<Longrightarrow>
      \<exists>ms. rc_smembers R r k = Inr ms \<and> distinct ms \<and> set ms = key_members (view r) k"
    and smembers_string: "holds_string (view r) k \<Longrightarrow> rc_smembers R r k = Inl RWrongType"
    and ttl_view: "view r k = Some (x, ttl) \<Longrightarrow> rc_ttl R r k = Inr ttl"
    and expire_reply: "fst (rc_expire R k n r) = None"
    and expire_view: "0 < n \<Longrightarrow>
      view (snd (rc_expire R k n r)) = (view r)(k := map_option (\<lambda>(y, _). (y, Some n)) (view r k))"
    and elapse_view: "view (rc_elapse R n r) k = age n (view r k)"

section \<open>Derived laws\<close>

lemma key_members_put [simp]: "key_members (put_members k S ttl w) k = S"
  by (simp add: key_members_def put_members_def)

lemma key_members_put_other [simp]: "k' \<noteq> k \<Longrightarrow> key_members (put_members k S ttl w) k' = key_members w k'"
  by (simp add: key_members_def put_members_def)

lemma holds_string_put [simp]: "holds_string (put_members k S ttl w) k' \<longleftrightarrow> k' \<noteq> k \<and> holds_string w k'"
  by (simp add: holds_string_def key_string_def put_members_def)

lemma key_string_put: "key_string (put_members k S ttl w) k' = (if k' = k then None else key_string w k')"
  by (simp add: key_string_def put_members_def)

text \<open>What one GET tells the code, that drops the error: the empty string, or the value.\<close>

definition text_or_empty :: "rerr + rstr \<Rightarrow> rstr" where
  "text_or_empty x = (case x of Inl _ \<Rightarrow> VText '''' | Inr v \<Rightarrow> v)"

context redis_server begin

lemma get_text: "text_or_empty (rc_get R r k) = (case key_string (view r) k of None \<Rightarrow> VText '''' | Some v \<Rightarrow> v)"
proof (cases "view r k")
  case None
  then show ?thesis by (simp add: get_missing key_string_def text_or_empty_def)
next
  case (Some x)
  obtain v ttl where x: "x = (v, ttl)" by (cases x)
  show ?thesis
    by (cases v) (use Some x in \<open>simp_all add: get_string get_set key_string_def text_or_empty_def\<close>)
qed

lemma get_text_cong:
  "key_string (view r) k = key_string (view r') k \<Longrightarrow>
     text_or_empty (rc_get R r k) = text_or_empty (rc_get R r' k)"
  by (simp add: get_text)

lemma set_key_string: "key_string (view (snd (rc_set R k v ttl r))) k' = (if k' = k then Some v else key_string (view r) k')"
  by (simp add: set_view key_string_def)

end

section \<open>A server in memory\<close>

type_synonym mem = "(string, (rstr + string list) \<times> nat option) gomap"

definition mem_val :: "rstr + string list \<Rightarrow> rval" where
  "mem_val x = (case x of Inl v \<Rightarrow> RStr v | Inr ms \<Rightarrow> RSet (set ms))"

definition mem_view :: "mem \<Rightarrow> rview" where
  "mem_view r k = map_option (\<lambda>(x, ttl). (mem_val x, ttl)) (map_of r k)"

definition mem_get :: "mem \<Rightarrow> string \<Rightarrow> rerr + rstr" where
  "mem_get r k =
     (case map_of r k of
        None \<Rightarrow> Inl RNil
      | Some (Inl v, _) \<Rightarrow> Inr v
      | Some (Inr _, _) \<Rightarrow> Inl RWrongType)"

definition mem_set :: "string \<Rightarrow> rstr \<Rightarrow> nat option \<Rightarrow> mem \<Rightarrow> rerr option \<times> mem" where
  "mem_set k v ttl r = (None, AList.update k (Inl v, ttl) r)"

definition mem_del :: "string \<Rightarrow> mem \<Rightarrow> rerr option \<times> mem" where
  "mem_del k r = (None, AList.delete k r)"

fun glob :: "string \<Rightarrow> string \<Rightarrow> bool" where
  "glob [] s = (s = [])"
| "glob (p # ps) [] = (p = CHR ''*'' \<and> glob ps [])"
| "glob (p # ps) (c # cs) =
     (if p = CHR ''*'' then glob ps (c # cs) \<or> glob (p # ps) cs else p = c \<and> glob ps cs)"

definition mem_keys :: "mem \<Rightarrow> string \<Rightarrow> rerr + string list" where
  "mem_keys r pat = Inr (filter (glob pat) (map fst r))"

definition mem_put :: "string \<Rightarrow> string list \<Rightarrow> nat option \<Rightarrow> mem \<Rightarrow> mem" where
  "mem_put k ms ttl r = (if ms = [] then AList.delete k r else AList.update k (Inr ms, ttl) r)"

definition mem_sadd :: "string \<Rightarrow> string \<Rightarrow> mem \<Rightarrow> rerr option \<times> mem" where
  "mem_sadd k m r =
     (case map_of r k of
        None \<Rightarrow> (None, mem_put k [m] None r)
      | Some (Inr ms, ttl) \<Rightarrow> (None, mem_put k (List.insert m ms) ttl r)
      | Some (Inl _, _) \<Rightarrow> (Some RWrongType, r))"

definition mem_srem :: "string \<Rightarrow> string \<Rightarrow> mem \<Rightarrow> rerr option \<times> mem" where
  "mem_srem k m r =
     (case map_of r k of
        None \<Rightarrow> (None, r)
      | Some (Inr ms, ttl) \<Rightarrow> (None, mem_put k (removeAll m ms) ttl r)
      | Some (Inl _, _) \<Rightarrow> (Some RWrongType, r))"

definition mem_smembers :: "mem \<Rightarrow> string \<Rightarrow> rerr + string list" where
  "mem_smembers r k =
     (case map_of r k of
        None \<Rightarrow> Inr []
      | Some (Inr ms, _) \<Rightarrow> Inr (remdups ms)
      | Some (Inl _, _) \<Rightarrow> Inl RWrongType)"

definition mem_ttl :: "mem \<Rightarrow> string \<Rightarrow> rerr + nat option" where
  "mem_ttl r k = (case map_of r k of None \<Rightarrow> Inl RNil | Some (_, ttl) \<Rightarrow> Inr ttl)"

definition mem_expire :: "string \<Rightarrow> nat \<Rightarrow> mem \<Rightarrow> rerr option \<times> mem" where
  "mem_expire k n r =
     (case map_of r k of None \<Rightarrow> (None, r) | Some (x, _) \<Rightarrow> (None, AList.update k (x, Some n) r))"

fun mem_elapse :: "nat \<Rightarrow> mem \<Rightarrow> mem" where
  "mem_elapse n [] = []"
| "mem_elapse n ((k, x, None) # r) = (k, x, None) # AList.delete k (mem_elapse n r)"
| "mem_elapse n ((k, x, Some ttl) # r) =
     (if n < ttl then [(k, x, Some (ttl - n))] else []) @ AList.delete k (mem_elapse n r)"

definition mem_redis :: "mem redis_api" where
  "mem_redis = \<lparr>rc_get = mem_get, rc_set = mem_set, rc_del = mem_del, rc_keys = mem_keys,
     rc_sadd = mem_sadd, rc_srem = mem_srem, rc_smembers = mem_smembers, rc_ttl = mem_ttl,
     rc_expire = mem_expire, rc_elapse = mem_elapse\<rparr>"

lemmas mem_ops = mem_get_def mem_set_def mem_del_def mem_keys_def mem_sadd_def mem_srem_def
  mem_smembers_def mem_ttl_def mem_expire_def mem_put_def

lemma glob_no_star: "glob_plain ps \<Longrightarrow> glob ps s \<longleftrightarrow> s = ps"
  by (induction ps s rule: glob.induct) (auto simp: glob_plain_def)

lemma glob_star_suffix: "glob_plain suf \<Longrightarrow> glob (CHR ''*'' # suf) s \<longleftrightarrow> (\<exists>m. s = m @ suf)"
proof (induction s)
  case Nil
  then show ?case by (auto simp: glob_no_star)
next
  case (Cons c s)
  then show ?case by (auto simp: glob_no_star Cons_eq_append_conv)
qed

lemma glob_star: "glob_plain pre \<Longrightarrow> glob_plain suf \<Longrightarrow>
    glob (pre @ CHR ''*'' # suf) s \<longleftrightarrow> (\<exists>m. s = pre @ m @ suf)"
proof (induction pre arbitrary: s)
  case Nil
  then show ?case by (simp add: glob_star_suffix)
next
  case (Cons p pre)
  then show ?case by (cases s) (auto simp: glob_plain_def)
qed

lemma mem_view_put: "mem_view (mem_put k ms ttl r) = put_members k (set ms) ttl (mem_view r)"
  by (auto simp: mem_put_def mem_view_def put_members_def mem_val_def fun_eq_iff)

lemma mem_view_elapse: "mem_view (mem_elapse n r) k = age n (mem_view r k)"
  by (induction n r rule: mem_elapse.induct) (auto simp: mem_view_def age_def)

lemma mem_view_cases:
  obtains (missing) "map_of r k = None" "mem_view r k = None"
    | (str) v ttl where "map_of r k = Some (Inl v, ttl)" "mem_view r k = Some (RStr v, ttl)"
    | (set) ms ttl where "map_of r k = Some (Inr ms, ttl)" "mem_view r k = Some (RSet (set ms), ttl)"
proof (cases "map_of r k")
  case None
  then show thesis by (intro missing) (simp_all add: mem_view_def)
next
  case (Some y)
  obtain x ttl where "y = (x, ttl)" by (cases y)
  with Some show thesis
    by (cases x) (auto simp: mem_view_def mem_val_def intro: str set)
qed

interpretation mem: redis_server mem_redis mem_view
proof (unfold_locales, goal_cases)
  case (1 r k v ttl)
  then show ?case by (cases rule: mem_view_cases [of r k]) (simp_all add: mem_redis_def mem_ops)
next
  case (2 r k)
  then show ?case by (cases rule: mem_view_cases [of r k]) (simp_all add: mem_redis_def mem_ops)
next
  case (3 r k S ttl)
  then show ?case by (cases rule: mem_view_cases [of r k]) (simp_all add: mem_redis_def mem_ops)
next
  case (4 k v ttl r)
  then show ?case by (simp add: mem_redis_def mem_ops)
next
  case (5 k v ttl r)
  then show ?case by (auto simp: mem_redis_def mem_ops mem_view_def mem_val_def fun_eq_iff)
next
  case (6 k r)
  then show ?case by (simp add: mem_redis_def mem_ops)
next
  case (7 k r)
  then show ?case by (auto simp: mem_redis_def mem_ops mem_view_def fun_eq_iff)
next
  case (8 pre suf r)
  then show ?case
    by (auto simp: mem_redis_def mem_keys_def glob_star mem_view_def map_of_eq_None_iff_key)
next
  case (9 r k m)
  then show ?case
    by (cases rule: mem_view_cases [of r k])
      (simp_all add: mem_redis_def mem_sadd_def holds_string_def key_string_def)
next
  case (10 r k m)
  then show ?case
    by (cases rule: mem_view_cases [of r k])
      (simp_all add: mem_redis_def mem_sadd_def mem_view_put holds_string_def key_string_def
        key_members_def key_ttl_def)
next
  case (11 r k m)
  then show ?case
    by (cases rule: mem_view_cases [of r k])
      (simp_all add: mem_redis_def mem_srem_def holds_string_def key_string_def)
next
  case (12 r k m)
  then show ?case
    by (cases rule: mem_view_cases [of r k])
      (simp_all add: mem_redis_def mem_srem_def mem_view_put holds_string_def key_string_def
        key_members_def key_ttl_def put_members_def fun_upd_idem)
next
  case (13 r k)
  then show ?case
    by (cases rule: mem_view_cases [of r k])
      (simp_all add: mem_redis_def mem_smembers_def holds_string_def key_string_def key_members_def)
next
  case (14 r k)
  then show ?case
    by (cases rule: mem_view_cases [of r k])
      (simp_all add: mem_redis_def mem_smembers_def holds_string_def key_string_def)
next
  case (15 r k x ttl)
  then show ?case
    by (cases rule: mem_view_cases [of r k]) (simp_all add: mem_redis_def mem_ttl_def)
next
  case (16 k n r)
  then show ?case
    by (simp add: mem_redis_def mem_expire_def split: option.split prod.split)
next
  case (17 n k r)
  then show ?case
    by (cases rule: mem_view_cases [of r k])
      (auto simp: mem_redis_def mem_expire_def mem_view_def mem_val_def fun_eq_iff)
next
  case (18 n r k)
  then show ?case by (simp add: mem_redis_def mem_view_elapse)
qed

end
