(* ===== verification/Utils.thy ===== *)
theory Utils
  imports Models
begin

text \<open>
  \<open>internal/utils/helpers.go\<close>: the device id in a topic, and \<open>Compare\<close>, the comparison
  behind every leaf condition, with what it uses of \<open>strings.Split\<close> and of
  \<open>time.Parse\<close> for the layout \<open>15:04\<close>.
\<close>

section \<open>Topics\<close>

fun split_on :: "char \<Rightarrow> string \<Rightarrow> string list" where
  "split_on sep [] = [[]]"
| "split_on sep (c # cs) =
     (if c = sep then [] # split_on sep cs
      else (case split_on sep cs of [] \<Rightarrow> [[c]] | seg # segs \<Rightarrow> (c # seg) # segs))"

definition ParseDeviceID :: "string \<Rightarrow> string" where
  "ParseDeviceID topic =
     (let parts = split_on (CHR ''/'') topic in if length parts > 1 then parts ! 1 else '''')"

lemma split_on_nonempty [simp]: "split_on sep cs \<noteq> []"
  by (cases cs) (auto split: list.splits)

lemma split_on_no_sep: "sep \<notin> set cs \<Longrightarrow> split_on sep cs = [cs]"
  by (induction cs) auto

lemma split_on_append:
  "sep \<notin> set cs \<Longrightarrow> split_on sep (cs @ sep # ds) = cs # split_on sep ds"
  by (induction cs) auto

lemma ParseDeviceID_segment:
  assumes "CHR ''/'' \<notin> set pre" and "CHR ''/'' \<notin> set d"
  shows "ParseDeviceID (pre @ CHR ''/'' # d @ CHR ''/'' # rest) = d"
    and "ParseDeviceID (pre @ CHR ''/'' # d) = d"
  using assms by (simp_all add: ParseDeviceID_def split_on_append split_on_no_sep)

lemma ParseDeviceID_no_slash: "CHR ''/'' \<notin> set t \<Longrightarrow> ParseDeviceID t = ''''"
  by (simp add: ParseDeviceID_def split_on_no_sep)

lemma ParseDeviceID_has_no_slash: "CHR ''/'' \<notin> set (ParseDeviceID t)"
proof -
  have "\<forall>seg \<in> set (split_on sep cs). sep \<notin> set seg" for sep cs
  proof (induction cs)
    case (Cons c cs)
    then show ?case by (cases "split_on sep cs") auto
  qed simp
  then show ?thesis by (auto simp: ParseDeviceID_def Let_def intro: nth_mem)
qed

section \<open>Times of day\<close>

text \<open>Of a \<open>time.Time\<close> the repository reads only \<open>Hour()\<close> and \<open>Minute()\<close>.\<close>

record gotime =
  Hour :: nat
  Minute :: nat

definition minute_of_day :: "nat \<Rightarrow> nat \<Rightarrow> nat" where
  "minute_of_day h m = 60 * h + m"

definition gotime_ok :: "gotime \<Rightarrow> bool" where
  "gotime_ok t \<longleftrightarrow> Hour t < 24 \<and> Minute t < 60"

text \<open>\<open>getnum\<close> of package \<open>time\<close>: one or two digits, two when \<open>fixed\<close>.\<close>

definition getnum :: "string \<Rightarrow> bool \<Rightarrow> (nat \<times> string) option" where
  "getnum s fixed =
     (case s of
        [] \<Rightarrow> None
      | c # cs \<Rightarrow>
          if \<not> is_digit c then None
          else (case cs of
                  [] \<Rightarrow> if fixed then None else Some (digit_val c, [])
                | d # ds \<Rightarrow>
                    if is_digit d then Some (10 * digit_val c + digit_val d, ds)
                    else if fixed then None else Some (digit_val c, cs)))"

text \<open>\<open>time.Parse("15:04", s)\<close>: the hour is \<open>15\<close> (not fixed), the minute \<open>04\<close> (fixed).\<close>

definition parse_15_04 :: "string \<Rightarrow> (nat \<times> nat) option" where
  "parse_15_04 s =
     (case getnum s False of
        None \<Rightarrow> None
      | Some (h, s1) \<Rightarrow>
          if 24 \<le> h then None
          else (case s1 of
                  [] \<Rightarrow> None
                | c # s2 \<Rightarrow>
                    if c \<noteq> CHR '':'' then None
                    else (case getnum s2 True of
                            None \<Rightarrow> None
                          | Some (m, s3) \<Rightarrow>
                              if 60 \<le> m then None
                              else if s3 \<noteq> [] then None
                              else Some (h, m))))"

lemma parse_15_04_range: "parse_15_04 s = Some (h, m) \<Longrightarrow> h < 24 \<and> m < 60"
  by (auto simp: parse_15_04_def split: option.splits list.splits if_splits prod.splits)

text \<open>The texts the layout accepts, written out.\<close>

lemma parse_15_04_Some:
  assumes "parse_15_04 s = Some (h, m)"
  obtains (two) a b c d where "s = [a, b, CHR '':'', c, d]"
      and "is_digit a" "is_digit b" "is_digit c" "is_digit d"
      and "h = 10 * digit_val a + digit_val b" and "m = 10 * digit_val c + digit_val d"
    | (one) b c d where "s = [b, CHR '':'', c, d]"
      and "is_digit b" "is_digit c" "is_digit d"
      and "h = digit_val b" and "m = 10 * digit_val c + digit_val d"
  using assms
  by (auto simp: parse_15_04_def getnum_def split: option.splits list.splits if_splits prod.splits)

section \<open>Compare\<close>

text \<open>
  The values \<open>Compare\<close> receives as \<open>interface{}\<close>: a decoded document value (nil is
  \<open>JNull\<close>, \<open>float64\<close> is \<open>JNum\<close>, and so on), or a \<open>time.Time\<close>. The expected side is
  always decoded from a rule.
\<close>

datatype iface = JV json | TimeV gotime

fun Compare :: "iface \<Rightarrow> string \<Rightarrow> json \<Rightarrow> bool" where
  "Compare (JV (JNum a)) op (JNum e) =
     (if op = ''>'' then a > e
      else if op = ''<'' then a < e
      else if op = ''=='' then a = e
      else if op = ''!='' then a \<noteq> e
      else False)"
| "Compare (JV (JStr a)) op (JStr e) =
     (if op = ''=='' then a = e
      else if op = ''!='' then a \<noteq> e
      else False)"
| "Compare (JV (JBool a)) op (JBool e) =
     (if op = ''=='' then a = e
      else if op = ''!='' then a \<noteq> e
      else False)"
| "Compare (TimeV t) op (JStr e) =
     (case parse_15_04 e of
        None \<Rightarrow> False
      | Some (h, m) \<Rightarrow>
          let actual = minute_of_day (Hour t) (Minute t); expected = minute_of_day h m in
          if op = ''>'' then actual > expected
          else if op = ''<'' then actual < expected
          else if op = ''=='' then actual = expected
          else if op = ''!='' then actual \<noteq> expected
          else False)"
| "Compare _ _ _ = False"

text \<open>
  A reference: \<open>position a e\<close> places the actual value against the expected one, when the two
  can be compared at all; ordered types have a real ordering, the others only equality.
\<close>

datatype placing = Less | Equal | Greater | Different

definition place :: "'a::linorder \<Rightarrow> 'a \<Rightarrow> placing" where
  "place a e = (if a < e then Less else if a = e then Equal else Greater)"

fun position :: "iface \<Rightarrow> json \<Rightarrow> placing option" where
  "position (JV (JNum a)) (JNum e) = Some (place a e)"
| "position (JV (JStr a)) (JStr e) = Some (if a = e then Equal else Different)"
| "position (JV (JBool a)) (JBool e) = Some (if a = e then Equal else Different)"
| "position (TimeV t) (JStr e) =
     map_option (\<lambda>(h, m). place (minute_of_day (Hour t) (Minute t)) (minute_of_day h m)) (parse_15_04 e)"
| "position _ _ = None"

definition op_accepts :: "string \<Rightarrow> placing \<Rightarrow> bool" where
  "op_accepts op p \<longleftrightarrow>
     (op = ''>'' \<and> p = Greater) \<or> (op = ''<'' \<and> p = Less) \<or>
     (op = ''=='' \<and> p = Equal) \<or> (op = ''!='' \<and> p \<noteq> Equal)"

lemma Compare_position:
  "Compare a op e \<longleftrightarrow> (case position a e of None \<Rightarrow> False | Some p \<Rightarrow> op_accepts op p)"
  by (induction a op e rule: Compare.induct)
    (auto simp: op_accepts_def place_def Let_def split: option.splits)

lemma minute_of_day_inj:
  "m < 60 \<Longrightarrow> m' < 60 \<Longrightarrow> minute_of_day h m = minute_of_day h' m' \<longleftrightarrow> h = h' \<and> m = m'"
proof -
  assume m: "m < 60" "m' < 60"
  have "minute_of_day h m div 60 = h" "minute_of_day h m mod 60 = m"
    "minute_of_day h' m' div 60 = h'" "minute_of_day h' m' mod 60 = m'"
    using m by (simp_all add: minute_of_day_def)
  then show ?thesis by metis
qed

section \<open>Other helpers\<close>

definition Abs :: "rat \<Rightarrow> rat" where
  "Abs x = \<bar>x\<bar>"

text \<open>\<open>IsSignificantChange\<close> is a placeholder in the code.\<close>

definition IsSignificantChange :: "string \<Rightarrow> jmap \<Rightarrow> jmap \<Rightarrow> bool" where
  "IsSignificantChange deviceID newState lastState = True"

section \<open>Properties\<close>

text \<open>
  C39: against a clock time \<open>t\<close>, the comparison with a text the layout accepts is the order of
  the day's minutes: \<open>==\<close> holds exactly in the named minute, \<open><\<close> and \<open>>\<close> strictly before and
  after it, exactly one of the three holds, and \<open>!=\<close> is the negation of \<open>==\<close>.
\<close>

theorem Compare_clock:
  assumes "gotime_ok t" and "parse_15_04 s = Some (h, m)"
  shows "Compare (TimeV t) ''=='' (JStr s) = (Hour t = h \<and> Minute t = m)
    \<and> Compare (TimeV t) ''<'' (JStr s) = (60 * Hour t + Minute t < 60 * h + m)
    \<and> Compare (TimeV t) ''>'' (JStr s)
         = (\<not> Compare (TimeV t) ''<'' (JStr s) \<and> \<not> Compare (TimeV t) ''=='' (JStr s))
    \<and> Compare (TimeV t) ''!='' (JStr s) = (\<not> Compare (TimeV t) ''=='' (JStr s))"
  using assms parse_15_04_range [OF assms(2)] minute_of_day_inj [of "Minute t" m "Hour t" h]
  by (auto simp: gotime_ok_def minute_of_day_def)

lemma Compare_clock_witness:
  "Compare (TimeV \<lparr>Hour = 18, Minute = 5\<rparr>) ''=='' (JStr ''18:05'')
   \<and> Compare (TimeV \<lparr>Hour = 7, Minute = 59\<rparr>) ''<'' (JStr ''8:00'')"
proof -
  have p: "parse_15_04 ''18:05'' = Some (18, 5)" "parse_15_04 ''8:00'' = Some (8, 0)"
    by (simp_all add: parse_15_04_def getnum_def is_digit_def digit_val_def)
  show ?thesis
    using Compare_clock [of "\<lparr>Hour = 18, Minute = 5\<rparr>", OF _ p(1)]
      Compare_clock [of "\<lparr>Hour = 7, Minute = 59\<rparr>", OF _ p(2)]
    by (simp add: gotime_ok_def)
qed

text \<open>
  \<open>Compare\<close> accepts exactly when the two values have the same kind (numbers, strings,
  Booleans, or a clock time and a time text), the operator exists for that kind, and the
  actual value stands to the expected one as the operator says. So \<open>!=\<close> is false, like
  \<open>==\<close>, on values of different kinds and on a missing value.
\<close>

theorem Compare_kinds:
  "Compare a op e \<longleftrightarrow> (\<exists>p. position a e = Some p \<and> op_accepts op p)"
  by (simp add: Compare_position split: option.split)

end
