(* ===== verification/Auth.thy ===== *)
theory Auth
  imports Base64 Db Redis Utils
begin

text \<open>
  \<open>auth/auth.go\<close>: user accounts, and the two kinds of login token, signed (JWT) and kept in
  Redis (session). Password hashing (\<open>x/crypto/bcrypt\<close>) and the token library
  (\<open>golang-jwt\<close>) are not part of the repository: they are a record of functions, and the
  locale \<open>auth_library\<close> states what is documented of them, with a hash that tells two
  passwords apart exactly when \<open>same\<close> does, and that confuses no two passwords of at most 72 bytes
  without a NUL (bcrypt reads 72 bytes, and a NUL ends the text), and a signature that nobody
  makes without the key. What a call draws from its surroundings (the clock in seconds, the
  salt, the random bytes) is an argument.
\<close>

record auth_lib =
  bc_hash :: "nat \<Rightarrow> string \<Rightarrow> string option"
  bc_check :: "string \<Rightarrow> string \<Rightarrow> bool"
  jwt_sign :: "string \<Rightarrow> json \<Rightarrow> string option"
  jwt_parse :: "string \<Rightarrow> (string \<times> json) option"
  jwt_verify :: "string \<Rightarrow> string \<Rightarrow> bool"
  jwt_valid :: "nat \<Rightarrow> json \<Rightarrow> bool"

record draws =
  dr_salt :: nat
  dr_bytes :: "nat \<Rightarrow> string option"
  dr_now :: nat

datatype auth_err = AuthErr string | AuthDb dberr | AuthHash | AuthRand | AuthJwt | AuthRedis rerr

definition jwt_claims :: "int \<Rightarrow> nat \<Rightarrow> nat \<Rightarrow> json" where
  "jwt_claims userID expires issued =
     JObj [(''exp'', JNum (of_nat expires)), (''iat'', JNum (of_nat issued)), (''user_id'', JNum (of_int userID))]"

locale auth_library =
  fixes K :: auth_lib and same :: "string \<Rightarrow> string \<Rightarrow> bool"
  assumes hash_check: "bc_hash K salt p = Some h \<Longrightarrow> bc_check K h q \<longleftrightarrow> same p q"
    and same_refl: "same p p"
    and same_plain: "same p q \<Longrightarrow> length p \<le> 72 \<Longrightarrow> length q \<le> 72 \<Longrightarrow> CHR 0x00 \<notin> set (p @ q) \<Longrightarrow> p = q"
    and signs: "0 \<le> u \<Longrightarrow> \<exists>t. jwt_sign K key (jwt_claims u e i) = Some t"
    and parse_signed: "jwt_sign K key c = Some t \<Longrightarrow> jwt_parse K t = Some (''HS256'', c)"
    and verify_signed: "jwt_verify K key t \<longleftrightarrow> (\<exists>c. jwt_sign K key c = Some t)"
    and valid_until: "jwt_valid K now (jwt_claims u e i) \<longleftrightarrow> now < e"

section \<open>Accounts\<close>

definition generateSecureToken :: "draws \<Rightarrow> nat \<Rightarrow> string option" where
  "generateSecureToken dr len = map_option base64url (dr_bytes dr len)"

definition username_taken :: "string \<Rightarrow> db \<Rightarrow> (dberr + bool) \<times> db" where
  "username_taken username = query_row (\<lambda>d. Some [username \<in> urUsername ` set (t_users d)])"

definition insert_user :: "string \<Rightarrow> string \<Rightarrow> string \<Rightarrow> db \<Rightarrow> (dberr + int) \<times> db" where
  "insert_user username password email =
     exec (\<lambda>d.
       if users_seq d > 2147483647 then (Inl PgError, d)
       else
         let i = show_nat (users_seq d); d' = d\<lparr>users_seq := Suc (users_seq d)\<rparr>
         in if i \<in> urID ` set (t_users d) then (Inl PgError, d')
            else (Inr (int (users_seq d)), d'\<lparr>t_users := t_users d @
                   [\<lparr>urID = i, urUsername = username, urPassword = password, urEmail = email\<rparr>]\<rparr>))"

definition createUser ::
  "auth_lib \<Rightarrow> draws \<Rightarrow> string \<Rightarrow> string \<Rightarrow> string \<Rightarrow> db \<Rightarrow> (auth_err + int) \<times> db" where
  "createUser K dr username password email d =
     (case username_taken username d of
        (Inl e, d1) \<Rightarrow> (Inl (AuthDb e), d1)
      | (Inr taken, d1) \<Rightarrow>
          if taken then (Inl (AuthErr ''username already exists''), d1)
          else (case bc_hash K (dr_salt dr) password of
                  None \<Rightarrow> (Inl AuthHash, d1)
                | Some hashedPassword \<Rightarrow>
                    (case insert_user username hashedPassword email d1 of
                       (Inl e, d2) \<Rightarrow> (Inl (AuthDb e), d2)
                     | (Inr userID, d2) \<Rightarrow> (Inr userID, d2))))"

text \<open>The integer an id column scans into.\<close>

definition user_int :: "user_row \<Rightarrow> int" where
  "user_int u = int (digits_val (urID u))"

definition authenticateUser :: "auth_lib \<Rightarrow> string \<Rightarrow> string \<Rightarrow> db \<Rightarrow> (auth_err + int) \<times> db" where
  "authenticateUser K username password d =
     (case query_row (\<lambda>d. Some (filter (\<lambda>u. urUsername u = username) (t_users d))) d of
        (Inl _, d1) \<Rightarrow> (Inl (AuthErr ''invalid credentials''), d1)
      | (Inr u, d1) \<Rightarrow>
          if \<not> bc_check K (urPassword u) password then (Inl (AuthErr ''invalid credentials''), d1)
          else (Inr (user_int u), d1))"

section \<open>Signed tokens\<close>

definition generateJWT :: "auth_lib \<Rightarrow> string \<Rightarrow> nat \<Rightarrow> int \<Rightarrow> auth_err + string" where
  "generateJWT K JWTSecret now userID =
     (case jwt_sign K JWTSecret (jwt_claims userID (now + 24 * 3600) now) of
        None \<Rightarrow> Inl AuthJwt
      | Some token \<Rightarrow> Inr token)"

definition RegisterWithJWT ::
  "auth_lib \<Rightarrow> string \<Rightarrow> draws \<Rightarrow> string \<Rightarrow> string \<Rightarrow> string \<Rightarrow> db \<Rightarrow> (auth_err + string) \<times> db" where
  "RegisterWithJWT K JWTSecret dr username password email d =
     (case createUser K dr username password email d of
        (Inl e, d1) \<Rightarrow> (Inl e, d1)
      | (Inr userID, d1) \<Rightarrow> (generateJWT K JWTSecret (dr_now dr) userID, d1))"

definition LoginWithJWT ::
  "auth_lib \<Rightarrow> string \<Rightarrow> draws \<Rightarrow> string \<Rightarrow> string \<Rightarrow> db \<Rightarrow> (auth_err + string) \<times> db" where
  "LoginWithJWT K JWTSecret dr username password d =
     (case authenticateUser K username password d of
        (Inl e, d1) \<Rightarrow> (Inl e, d1)
      | (Inr userID, d1) \<Rightarrow> (generateJWT K JWTSecret (dr_now dr) userID, d1))"

text \<open>
  \<open>jwt.Parse\<close> with the key function of the code, which hands out the secret only for the HMAC
  algorithms. A parsed token that gets this far is valid, so the last error of the function is
  never returned.
\<close>

definition ValidateTokenJWT :: "auth_lib \<Rightarrow> string \<Rightarrow> nat \<Rightarrow> string \<Rightarrow> auth_err + string" where
  "ValidateTokenJWT K JWTSecret now token =
     (case jwt_parse K token of
        None \<Rightarrow> Inl AuthJwt
      | Some (algo, claims) \<Rightarrow>
          if algo \<notin> {''HS256'', ''HS384'', ''HS512''} then Inl AuthJwt
          else if \<not> jwt_verify K JWTSecret token then Inl AuthJwt
          else if \<not> jwt_valid K now claims then Inl AuthJwt
          else (case unmarshal_map (Some claims) of
                  None \<Rightarrow> Inl AuthJwt
                | Some m \<Rightarrow>
                    (case mget m ''user_id'' of
                       Some (JNum userIDFloat) \<Rightarrow> Inr (show_int (to_int64 userIDFloat))
                     | _ \<Rightarrow> Inl (AuthErr ''invalid user_id in token''))))"

definition LogoutJWT :: "string \<Rightarrow> unit" where
  "LogoutJWT token = ()"

section \<open>Sessions\<close>

definition session_key :: "string \<Rightarrow> string" where
  "session_key token = ''session:'' @ token"

definition open_session ::
  "'r redis_api \<Rightarrow> draws \<Rightarrow> int \<Rightarrow> 'r \<Rightarrow> (auth_err + int \<times> string) \<times> 'r" where
  "open_session R dr userID r =
     (case generateSecureToken dr 32 of
        None \<Rightarrow> (Inl AuthRand, r)
      | Some token \<Rightarrow>
          (case rc_set R (session_key token) (VText (show_int userID)) (Some (24 * 3600)) r of
             (Some e, r') \<Rightarrow> (Inl (AuthRedis e), r')
           | (None, r') \<Rightarrow> (Inr (userID, token), r')))"

definition RegisterWithSession ::
  "auth_lib \<Rightarrow> 'r redis_api \<Rightarrow> draws \<Rightarrow> string \<Rightarrow> string \<Rightarrow> string \<Rightarrow> 'r \<Rightarrow> db
     \<Rightarrow> (auth_err + int \<times> string) \<times> 'r \<times> db" where
  "RegisterWithSession K R dr username password email r d =
     (case createUser K dr username password email d of
        (Inl e, d1) \<Rightarrow> (Inl e, r, d1)
      | (Inr userID, d1) \<Rightarrow> (case open_session R dr userID r of (res, r') \<Rightarrow> (res, r', d1)))"

definition LoginWithSession ::
  "auth_lib \<Rightarrow> 'r redis_api \<Rightarrow> draws \<Rightarrow> string \<Rightarrow> string \<Rightarrow> 'r \<Rightarrow> db
     \<Rightarrow> (auth_err + int \<times> string) \<times> 'r \<times> db" where
  "LoginWithSession K R dr username password r d =
     (case authenticateUser K username password d of
        (Inl e, d1) \<Rightarrow> (Inl e, r, d1)
      | (Inr userID, d1) \<Rightarrow> (case open_session R dr userID r of (res, r') \<Rightarrow> (res, r', d1)))"

text \<open>
  A key without expiration has the duration -1, a missing one the zero duration the client
  returns beside its error: both are below twenty hours.
\<close>

definition extend_session ::
  "'r redis_api \<Rightarrow> string \<Rightarrow> rstr \<Rightarrow> int \<Rightarrow> 'r \<Rightarrow> (auth_err + rstr) \<times> 'r" where
  "extend_session R key userID ttl r =
     (if ttl < 20 * 3600 then
        (case rc_expire R key (24 * 3600) r of
           (Some e, r') \<Rightarrow> (Inl (AuthRedis e), r')
         | (None, r') \<Rightarrow> (Inr userID, r'))
      else (Inr userID, r))"

definition ValidateTokenSession :: "'r redis_api \<Rightarrow> string \<Rightarrow> 'r \<Rightarrow> (auth_err + rstr) \<times> 'r" where
  "ValidateTokenSession R token r =
     (let key = session_key token in
      case rc_get R r key of
        Inl e \<Rightarrow> (if e = RNil then (Inl (AuthErr ''invalid token''), r) else (Inl (AuthRedis e), r))
      | Inr userID \<Rightarrow>
          (case rc_ttl R r key of
             Inl e \<Rightarrow> if e \<noteq> RNil then (Inl (AuthRedis e), r) else extend_session R key userID 0 r
           | Inr None \<Rightarrow> extend_session R key userID (- 1) r
           | Inr (Some n) \<Rightarrow> extend_session R key userID (int n) r))"

definition LogoutSession :: "'r redis_api \<Rightarrow> string \<Rightarrow> 'r \<Rightarrow> rerr option \<times> 'r" where
  "LogoutSession R token r = rc_del R (session_key token) r"

section \<open>Changing an account\<close>

definition select_user :: "int \<Rightarrow> db \<Rightarrow> (dberr + user_row) \<times> db" where
  "select_user userID = query_row (\<lambda>d. Some (filter (\<lambda>u. urID u = show_int userID) (t_users d)))"

definition update_user :: "int \<Rightarrow> (user_row \<Rightarrow> user_row) \<Rightarrow> db \<Rightarrow> (dberr + unit) \<times> db" where
  "update_user userID f =
     exec (\<lambda>d. (Inr (), d\<lparr>t_users := map_rows (\<lambda>u. urID u = show_int userID) f (t_users d)\<rparr>))"

definition ChangePassword ::
  "auth_lib \<Rightarrow> draws \<Rightarrow> int \<Rightarrow> string \<Rightarrow> string \<Rightarrow> db \<Rightarrow> (auth_err + unit) \<times> db" where
  "ChangePassword K dr userID oldPassword newPassword d =
     (case select_user userID d of
        (Inl _, d1) \<Rightarrow> (Inl (AuthErr ''user not found''), d1)
      | (Inr u, d1) \<Rightarrow>
          if \<not> bc_check K (urPassword u) oldPassword then (Inl (AuthErr ''invalid old password''), d1)
          else (case bc_hash K (dr_salt dr) newPassword of
                  None \<Rightarrow> (Inl AuthHash, d1)
                | Some hashedPassword \<Rightarrow>
                    (case update_user userID (\<lambda>u. u\<lparr>urPassword := hashedPassword\<rparr>) d1 of
                       (Inl e, d2) \<Rightarrow> (Inl (AuthDb e), d2)
                     | (Inr _, d2) \<Rightarrow> (Inr (), d2))))"

definition ChangeEmail ::
  "auth_lib \<Rightarrow> int \<Rightarrow> string \<Rightarrow> string \<Rightarrow> db \<Rightarrow> (auth_err + unit) \<times> db" where
  "ChangeEmail K userID password newEmail d =
     (case select_user userID d of
        (Inl _, d1) \<Rightarrow> (Inl (AuthErr ''user not found''), d1)
      | (Inr u, d1) \<Rightarrow>
          if \<not> bc_check K (urPassword u) password then (Inl (AuthErr ''invalid password''), d1)
          else (case update_user userID (\<lambda>u. u\<lparr>urEmail := newEmail\<rparr>) d1 of
                  (Inl e, d2) \<Rightarrow> (Inl (AuthDb e), d2)
                | (Inr _, d2) \<Rightarrow> (Inr (), d2)))"

section \<open>Accounts in the table\<close>

text \<open>
  The primary key with the ids the sequence has handed out, and one account per name. The
  schema has the first, the second is what \<open>createUser\<close> is meant to keep.
\<close>

definition users_ok :: "db \<Rightarrow> bool" where
  "users_ok d \<longleftrightarrow> distinct (map urID (t_users d))
     \<and> (\<forall>u \<in> set (t_users d). \<exists>n. urID u = show_nat n \<and> n < users_seq d)"

definition names_ok :: "db \<Rightarrow> bool" where
  "names_ok d \<longleftrightarrow> distinct (map urUsername (t_users d))"

lemma users_ok_tick [simp]: "users_ok (tick d) = users_ok d" "names_ok (tick d) = names_ok d"
  by (simp_all add: users_ok_def names_ok_def)

lemma users_ok_insert:
  assumes "users_ok d" and "urID u = show_nat (users_seq d)"
  shows "users_ok (d\<lparr>users_seq := Suc (users_seq d), t_users := t_users d @ [u]\<rparr>)"
    and "urID u \<notin> urID ` set (t_users d)"
proof -
  show fresh: "urID u \<notin> urID ` set (t_users d)"
    using assms by (auto simp: users_ok_def)
  have "\<exists>n. urID x = show_nat n \<and> n < Suc (users_seq d)" if "x \<in> set (t_users d)" for x
    using assms(1) that less_SucI by (auto simp: users_ok_def)
  with assms fresh show "users_ok (d\<lparr>users_seq := Suc (users_seq d), t_users := t_users d @ [u]\<rparr>)"
    by (auto simp: users_ok_def)
qed

lemma show_int_nat [simp]: "show_int (int n) = show_nat n"
  by (simp add: show_int_def)

lemma user_int_id: "users_ok d \<Longrightarrow> u \<in> set (t_users d) \<Longrightarrow> show_int (user_int u) = urID u"
  by (auto simp: users_ok_def user_int_def)

lemma createUser_up:
  assumes "db_up d" and "users_ok d" and "username \<notin> urUsername ` set (t_users d)"
    and "users_seq d \<le> 2147483647" and "bc_hash K (dr_salt dr) password = Some h"
  obtains d' where "createUser K dr username password email d = (Inr (int (users_seq d)), d')"
    and "db_up d'" and "users_ok d'"
    and "t_users d' = t_users d
           @ [\<lparr>urID = show_nat (users_seq d), urUsername = username, urPassword = h, urEmail = email\<rparr>]"
proof
  let ?u = "\<lparr>urID = show_nat (users_seq d), urUsername = username, urPassword = h, urEmail = email\<rparr>"
  let ?d = "tick (tick d)\<lparr>users_seq := Suc (users_seq d), t_users := t_users d @ [?u]\<rparr>"
  have "show_nat (users_seq d) \<notin> urID ` set (t_users d)"
    using users_ok_insert(2) [OF assms(2), of ?u] by simp
  then show "createUser K dr username password email d = (Inr (int (users_seq d)), ?d)"
    using assms(1,3-) by (simp add: createUser_def username_taken_def query_row_up insert_user_def exec_up Let_def)
  show "db_up ?d" using assms(1) by (simp add: db_up_def)
  show "users_ok ?d"
    using users_ok_insert(1) [of "tick (tick d)" ?u] assms(2) by simp
qed simp

lemma authenticateUser_up:
  assumes "db_up d" and "names_ok d" and "u \<in> set (t_users d)"
  shows "fst (authenticateUser K (urUsername u) password d)
    = (if bc_check K (urPassword u) password then Inr (user_int u) else Inl (AuthErr ''invalid credentials''))"
proof -
  have "filter (\<lambda>x. urUsername x = urUsername u) (t_users d) = [u]"
    using assms(2,3) by (simp add: names_ok_def filter_key_unique)
  with assms(1) show ?thesis by (simp add: authenticateUser_def query_row_up)
qed

section \<open>Properties of signed tokens\<close>

context auth_library begin

lemma signed_token:
  assumes t: "jwt_sign K key (jwt_claims u e i) = Some t" and "0 \<le> u" and "u < 2 ^ 63"
  shows "ValidateTokenJWT K key now t = (if now < e then Inr (show_int u) else Inl AuthJwt)"
proof -
  have "jwt_verify K key t" using t verify_signed by blast
  then show ?thesis
    using parse_signed [OF t] valid_until [of now u e i] assms(2,3)
    by (simp add: ValidateTokenJWT_def jwt_claims_def to_int64_of_int map_of_obj_map)
qed

lemma issued_token:
  assumes "0 \<le> userID" and "userID < 2 ^ 63"
  obtains t where "generateJWT K key issued userID = Inr t"
    and "\<And>now. ValidateTokenJWT K key now t
      = (if now < issued + 86400 then Inr (show_int userID) else Inl AuthJwt)"
proof -
  obtain t where t: "jwt_sign K key (jwt_claims userID (issued + 86400) issued) = Some t"
    using signs [OF assms(1)] by blast
  have "generateJWT K key issued userID = Inr t" using t by (simp add: generateJWT_def)
  then show thesis by (rule that [OF _ signed_token [OF t assms]])
qed

lemma accepted_token:
  assumes "ValidateTokenJWT K key now t = Inr uid"
  obtains m x where "jwt_sign K key m = Some t" and "jwt_valid K now m"
    and "mget (the (unmarshal_map (Some m))) ''user_id'' = Some (JNum x)" and "uid = show_int (to_int64 x)"
proof -
  from assms obtain algo m where m: "jwt_parse K t = Some (algo, m)" "jwt_verify K key t" "jwt_valid K now m"
    and x: "\<exists>x. mget (the (unmarshal_map (Some m))) ''user_id'' = Some (JNum x) \<and> uid = show_int (to_int64 x)"
    by (auto simp: ValidateTokenJWT_def split: option.splits json.splits if_splits)
  from m(2) obtain c where "jwt_sign K key c = Some t" using verify_signed by blast
  with parse_signed [OF this] m x that show thesis by auto
qed

end

section \<open>A library in the small\<close>

text \<open>
  A token library with these laws: a token is the claims in decimal with the key behind them, a
  hash is the password with the salt before it, and two passwords are the same when they agree
  on 72 bytes. Nothing here is secret, which the laws do not need.
\<close>

definition toy_token :: "string \<Rightarrow> nat \<Rightarrow> nat \<Rightarrow> nat \<Rightarrow> string" where
  "toy_token key u e i = show_nat u @ CHR ''.'' # show_nat e @ CHR ''.'' # show_nat i @ CHR ''.'' # key"

definition nat_of_rat :: "rat \<Rightarrow> nat" where
  "nat_of_rat x = nat \<lfloor>x\<rfloor>"

definition toy_claims :: "json \<Rightarrow> (nat \<times> nat \<times> nat) option" where
  "toy_claims c =
     (case c of
        JObj [(_, JNum e), (_, JNum i), (_, JNum u)] \<Rightarrow> Some (nat_of_rat u, nat_of_rat e, nat_of_rat i)
      | _ \<Rightarrow> None)"

definition toy_sign :: "string \<Rightarrow> json \<Rightarrow> string option" where
  "toy_sign key c =
     (case toy_claims c of
        None \<Rightarrow> None
      | Some (u, e, i) \<Rightarrow> if c = jwt_claims (int u) e i then Some (toy_token key u e i) else None)"

definition toy_parse :: "string \<Rightarrow> (string \<times> json) option" where
  "toy_parse t =
     (case split_on (CHR ''.'') t of
        u # e # i # _ \<Rightarrow> Some (''HS256'', jwt_claims (int (digits_val u)) (digits_val e) (digits_val i))
      | _ \<Rightarrow> None)"

definition toy_verify :: "string \<Rightarrow> string \<Rightarrow> bool" where
  "toy_verify key t = (case toy_parse t of None \<Rightarrow> False | Some (_, c) \<Rightarrow> toy_sign key c = Some t)"

definition toy_valid :: "nat \<Rightarrow> json \<Rightarrow> bool" where
  "toy_valid now c = (case c of JObj ((_, JNum e) # _) \<Rightarrow> of_nat now < e | _ \<Rightarrow> True)"

definition toy_auth :: auth_lib where
  "toy_auth =
     \<lparr>bc_hash = (\<lambda>salt p. if length p > 72 then None else Some (show_nat salt @ CHR ''$'' # p)),
      bc_check = (\<lambda>h q. tl (dropWhile (\<lambda>c. c \<noteq> CHR ''$'') h) = take 72 q),
      jwt_sign = toy_sign, jwt_parse = toy_parse, jwt_verify = toy_verify, jwt_valid = toy_valid\<rparr>"

definition same72 :: "string \<Rightarrow> string \<Rightarrow> bool" where
  "same72 p q \<longleftrightarrow> take 72 p = take 72 q"

lemma toy_claims_jwt: "toy_claims (jwt_claims (int u) e i) = Some (u, e, i)"
  by (simp add: toy_claims_def jwt_claims_def nat_of_rat_def)

lemma toy_sign_jwt [simp]: "toy_sign key (jwt_claims (int u) e i) = Some (toy_token key u e i)"
  by (simp add: toy_sign_def toy_claims_jwt)

lemma toy_sign_Some: "toy_sign key c = Some t \<Longrightarrow> \<exists>u e i. c = jwt_claims (int u) e i \<and> t = toy_token key u e i"
  by (fastforce simp: toy_sign_def split: option.splits if_splits)

lemma no_dot: "CHR ''.'' \<notin> set (show_nat n)"
  by (rule show_nat_no_digit) (simp add: is_digit_def)

lemma toy_parse_token: "toy_parse (toy_token key u e i) = Some (''HS256'', jwt_claims (int u) e i)"
  by (simp add: toy_parse_def toy_token_def split_on_append no_dot)

lemma no_dollar: "CHR ''$'' \<notin> set (show_nat n)"
  by (rule show_nat_no_digit) (simp add: is_digit_def)

lemma after_dollar: "CHR ''$'' \<notin> set xs \<Longrightarrow> tl (dropWhile (\<lambda>c. c \<noteq> CHR ''$'') (xs @ CHR ''$'' # ys)) = ys"
  by (induction xs) auto

interpretation toy: auth_library toy_auth same72
proof (unfold_locales, goal_cases)
  case (1 salt p h q)
  then show ?case by (auto simp: toy_auth_def same72_def after_dollar no_dollar split: if_splits)
next
  case (2 p)
  then show ?case by (simp add: same72_def)
next
  case (3 p q)
  then show ?case by (simp add: same72_def)
next
  case (4 u key e i)
  then show ?case using toy_sign_jwt [of key "nat u" e i] by (simp add: toy_auth_def)
next
  case (5 key c t)
  then show ?case by (auto simp: toy_auth_def toy_parse_token dest!: toy_sign_Some)
next
  case (6 key t)
  show ?case
    by (auto simp: toy_auth_def toy_verify_def toy_parse_token split: option.splits dest!: toy_sign_Some)
      (blast intro: toy_sign_jwt)
next
  case (7 now u e i)
  then show ?case by (simp add: toy_auth_def toy_valid_def jwt_claims_def)
qed

section \<open>Properties of accounts and tokens\<close>

text \<open>
  C30: registering a free name gives a token that is good for exactly 24 hours, for the new account and
  no other, provided that every statement succeeds, the id sequence is not used up and bcrypt accepts
  the password. Afterwards the name logs in with its password, and with another one exactly if
  bcrypt cannot tell the two apart, which no two passwords of at most 72 bytes without a NUL
  are. Ids and names stay unique.
\<close>

theorem registered_account:
  assumes "auth_library K same" and "db_up d" and "users_ok d" and "names_ok d"
    and fresh: "username \<notin> urUsername ` set (t_users d)" and room: "users_seq d \<le> 2147483647"
    and hash: "bc_hash K (dr_salt dr) password = Some h"
  shows "\<exists>token d'. RegisterWithJWT K key dr username password email d = (Inr token, d')
    \<and> users_ok d' \<and> names_ok d' \<and> db_up d'
    \<and> ValidateTokenJWT K key now token
        = (if now < dr_now dr + 86400 then Inr (show_nat (users_seq d)) else Inl AuthJwt)
    \<and> fst (authenticateUser K username attempt d')
        = (if same password attempt then Inr (int (users_seq d)) else Inl (AuthErr ''invalid credentials''))
    \<and> (length password \<le> 72 \<and> length attempt \<le> 72 \<and> CHR 0x00 \<notin> set (password @ attempt)
        \<longrightarrow> same password attempt = (attempt = password))"
proof -
  let ?u = "\<lparr>urID = show_nat (users_seq d), urUsername = username, urPassword = h, urEmail = email\<rparr>"
  obtain d' where create: "createUser K dr username password email d = (Inr (int (users_seq d)), d')"
    and d': "db_up d'" "users_ok d'" "t_users d' = t_users d @ [?u]"
    using createUser_up [OF assms(2,3) fresh room hash] by blast
  have names: "names_ok d'" using assms(4) fresh d'(3) by (auto simp: names_ok_def)
  have "0 \<le> int (users_seq d)" "int (users_seq d) < 2 ^ 63" using room by simp_all
  then obtain token where token: "generateJWT K key (dr_now dr) (int (users_seq d)) = Inr token"
    "\<And>now. ValidateTokenJWT K key now token
      = (if now < dr_now dr + 86400 then Inr (show_int (int (users_seq d))) else Inl AuthJwt)"
    using auth_library.issued_token [OF assms(1)] by blast
  have "fst (authenticateUser K (urUsername ?u) attempt d')
      = (if same password attempt then Inr (int (users_seq d)) else Inl (AuthErr ''invalid credentials''))"
    using authenticateUser_up [OF d'(1) names, of ?u] d'(3) auth_library.hash_check [OF assms(1) hash]
    by (simp add: user_int_def)
  moreover have "same password attempt = (attempt = password)"
    if "length password \<le> 72" "length attempt \<le> 72" "CHR 0x00 \<notin> set (password @ attempt)"
    using auth_library.same_plain [OF assms(1) _ that] auth_library.same_refl [OF assms(1)] by blast
  ultimately show ?thesis using create token d' names by (simp add: RegisterWithJWT_def)
qed

definition demo_user :: "string \<Rightarrow> string \<Rightarrow> string \<Rightarrow> user_row" where
  "demo_user i name password = \<lparr>urID = i, urUsername = name, urPassword = password, urEmail = ''''\<rparr>"

definition demo_draws :: draws where
  "demo_draws = \<lparr>dr_salt = 0, dr_bytes = (\<lambda>n. Some (replicate n CHR 0x00)), dr_now = 1000\<rparr>"

lemma demo_users_empty: "users_ok (demo_db rs ss ds)" "names_ok (demo_db rs ss ds)"
  "users_seq (demo_db rs ss ds) = 1" "t_users (demo_db rs ss ds) = []" "dr_now demo_draws = 1000"
  by (simp_all add: users_ok_def names_ok_def demo_db_def demo_draws_def)

lemma registered_account_witness:
  "\<exists>token d'. RegisterWithJWT toy_auth ''key'' demo_draws ''ann'' ''pw'' '''' (demo_db [] [] []) = (Inr token, d')
    \<and> ValidateTokenJWT toy_auth ''key'' 2000 token = Inr (show_nat 1)"
proof -
  have "bc_hash toy_auth (dr_salt demo_draws) ''pw'' = Some (show_nat (dr_salt demo_draws) @ ''$pw'')"
    by (simp add: toy_auth_def)
  from registered_account [OF toy.auth_library_axioms demo_db_up demo_users_empty(1,2) _ _ this,
      of "''ann''" _ _ _ "''key''" "[]" 2000 "''pw''", of "[]" "[]" "[]"]
  show ?thesis by (auto simp: demo_users_empty(3-5))
qed

text \<open>
  nobody gets in without the secret: a token the server accepts carries the signature of the
  secret over claims that are valid now, and the user it is accepted for is the one these claims
  name.
\<close>

theorem accepted_tokens_signed:
  assumes "auth_library K same" and "ValidateTokenJWT K key now token = Inr uid"
  shows "\<exists>claims x. jwt_sign K key claims = Some token \<and> jwt_valid K now claims
    \<and> mget (the (unmarshal_map (Some claims))) ''user_id'' = Some (JNum x) \<and> uid = show_int (to_int64 x)"
  using auth_library.accepted_token [OF assms] by metis

lemma accepted_tokens_signed_witness:
  "ValidateTokenJWT toy_auth ''key'' 5 (toy_token ''key'' 7 9 0) = Inr ''7''
   \<and> (\<exists>claims. jwt_sign toy_auth ''key'' claims = Some (toy_token ''key'' 7 9 0))"
proof -
  have "ValidateTokenJWT toy_auth ''key'' 5 (toy_token ''key'' 7 9 0) = Inr ''7''"
    using toy.signed_token [of "''key''" "int 7" 9 0 "toy_token ''key'' 7 9 0" 5]
      toy_sign_jwt [of "''key''" 7 9 0]
    by (simp add: toy_auth_def show_int_def show_nat.simps digit_char_def)
  with accepted_tokens_signed [OF toy.auth_library_axioms this] show ?thesis by blast
qed

section \<open>Changing a password\<close>

lemma select_user_up:
  assumes "db_up d" and "users_ok d" and "u \<in> set (t_users d)"
  shows "select_user (user_int u) d = (Inr u, tick d)"
proof -
  have "filter (\<lambda>x. urID x = urID u) (t_users d) = [u]"
    using assms(2,3) by (simp add: users_ok_def filter_key_unique)
  with assms show ?thesis by (simp add: select_user_def query_row_up user_int_id)
qed

lemma names_update: "map urUsername (map_rows p (\<lambda>u. u\<lparr>urPassword := h\<rparr>) us) = map urUsername us"
  by (simp add: map_rows_map)

text \<open>
  changing a password asks for the old one and, once it is given, makes the new one the only
  one the account logs in with; nobody else's login changes. With a wrong old password nothing
  changes at all.
\<close>

theorem password_changed:
  assumes "auth_library K same" and "db_up d" and "users_ok d" and "names_ok d" and u: "u \<in> set (t_users d)"
    and hash: "bc_hash K (dr_salt dr) newPassword = Some h"
    and change: "ChangePassword K dr (user_int u) oldPassword newPassword d = (res, d')"
  shows "if bc_check K (urPassword u) oldPassword
    then res = Inr () \<and> fst (authenticateUser K (urUsername u) attempt d')
          = (if same newPassword attempt then Inr (user_int u) else Inl (AuthErr ''invalid credentials''))
      \<and> (v \<in> set (t_users d) \<and> v \<noteq> u \<longrightarrow>
          fst (authenticateUser K (urUsername v) attempt d') = fst (authenticateUser K (urUsername v) attempt d))
    else res = Inl (AuthErr ''invalid old password'') \<and> t_users d' = t_users d"
proof (cases "bc_check K (urPassword u) oldPassword")
  case True
  let ?f = "\<lambda>x. x\<lparr>urPassword := h\<rparr>"
  have d': "res = Inr ()" "d' = (tick (tick d))\<lparr>t_users := map_rows (\<lambda>x. urID x = urID u) ?f (t_users d)\<rparr>"
    using change True hash assms(2)
    by (simp_all add: ChangePassword_def select_user_up [OF assms(2,3) u] update_user_def exec_up
        user_int_id [OF assms(3) u] prod_eq_iff)
  have up: "db_up d'" and names: "names_ok d'"
    using assms(2,4) d'(2) by (simp_all add: db_up_def names_ok_def names_update)
  have "?f u \<in> set (t_users d')" using u d'(2) by (force simp: map_rows_def)
  from authenticateUser_up [OF up names this, of K attempt] auth_library.hash_check [OF assms(1) hash]
  have own: "fst (authenticateUser K (urUsername u) attempt d')
      = (if same newPassword attempt then Inr (user_int u) else Inl (AuthErr ''invalid credentials''))"
    by (simp add: user_int_def)
  have other: "fst (authenticateUser K (urUsername v) attempt d') = fst (authenticateUser K (urUsername v) attempt d)"
    if "v \<in> set (t_users d)" "v \<noteq> u"
  proof -
    have "urID v \<noteq> urID u" using assms(3) u that by (metis filter_key_unique users_ok_def list.inject)
    then have "v \<in> set (t_users d')" using that d'(2) by (force simp: map_rows_def)
    then show ?thesis
      using authenticateUser_up [OF up names] authenticateUser_up [OF assms(2,4)] that by simp
  qed
  from True d'(1) own other show ?thesis by simp
next
  case False
  then show ?thesis
    using change by (auto simp: ChangePassword_def select_user_up [OF assms(2,3) u])
qed

lemma demo_two_users:
  "users_ok (d\<lparr>t_users := [demo_user ''1'' ''ann'' a, demo_user ''2'' ''bob'' b], users_seq := 3\<rparr>)"
  "names_ok (d\<lparr>t_users := [demo_user ''1'' ''ann'' a, demo_user ''2'' ''bob'' b], users_seq := 3\<rparr>)"
proof -
  have "show_nat 1 = ''1''" "show_nat 2 = ''2''" by (simp_all add: show_nat.simps digit_char_def)
  then have "\<exists>n<3. ''1'' = show_nat n" "\<exists>n<3. ''2'' = show_nat n"
    by (metis one_less_numeral_iff semiring_norm(77), metis numeral_less_iff semiring_norm(80,82) lessI numeral_3_eq_3 numeral_2_eq_2)
  then show "users_ok (d\<lparr>t_users := [demo_user ''1'' ''ann'' a, demo_user ''2'' ''bob'' b], users_seq := 3\<rparr>)"
    by (auto simp: users_ok_def demo_user_def)
qed (simp add: names_ok_def demo_user_def)

lemma password_changed_witness:
  "\<exists>d'. ChangePassword toy_auth demo_draws 1 ''old'' ''new''
      ((demo_db [] [] [])\<lparr>t_users := [demo_user ''1'' ''ann'' ''0$old'', demo_user ''2'' ''bob'' ''0$x''], users_seq := 3\<rparr>)
      = (Inr (), d')
    \<and> fst (authenticateUser toy_auth ''ann'' ''new'' d') = Inr 1"
proof -
  let ?u = "demo_user ''1'' ''ann'' ''0$old''"
  let ?d = "(demo_db [] [] [])\<lparr>t_users := [?u, demo_user ''2'' ''bob'' ''0$x''], users_seq := 3\<rparr>"
  have hash: "bc_hash toy_auth (dr_salt demo_draws) ''new'' = Some (show_nat (dr_salt demo_draws) @ ''$new'')"
    by (simp add: toy_auth_def)
  have int: "user_int ?u = 1" by (simp add: user_int_def demo_user_def digits_val_def digit_val_def)
  have "bc_check toy_auth (urPassword ?u) ''old''"
    by (simp add: toy_auth_def demo_user_def)
  then have "fst (ChangePassword toy_auth demo_draws 1 ''old'' ''new'' ?d) = Inr ()
      \<and> fst (authenticateUser toy_auth ''ann'' ''new'' (snd (ChangePassword toy_auth demo_draws 1 ''old'' ''new'' ?d))) = Inr 1"
    using password_changed [OF toy.auth_library_axioms _ demo_two_users [where d = "demo_db [] [] []"] _ hash prod.collapse [symmetric],
        where u = ?u and oldPassword = "''old''" and attempt = "''new''"]
    by (simp add: int db_up_def demo_db_def same72_def) (simp add: demo_user_def)
  then show ?thesis by (metis prod.collapse)
qed

section \<open>Two registrations at once\<close>

text \<open>A registration by itself, whatever the statements answer.\<close>

lemma createUser_names:
  assumes "names_ok d"
  shows "names_ok (snd (createUser K dr name password email d))"
proof -
  obtain res where taken: "username_taken name d = (res, tick d)"
    by (cases "username_taken name d") (simp add: username_taken_def prod_eq_iff)
  have "names_ok (snd (insert_user name h email (tick d)))" if "name \<notin> urUsername ` set (t_users d)" for h
    using that assms by (auto simp: insert_user_def exec_def Let_def names_ok_def split: outcome.split)
  moreover have "name \<notin> urUsername ` set (t_users d)" if "res = Inr False"
    using query_row_Inr [of "\<lambda>d. Some [name \<in> urUsername ` set (t_users d)]" d False] taken that
    by (auto simp: username_taken_def)
  ultimately show ?thesis using taken assms
    by (auto simp: createUser_def split: sum.split option.split prod.split) (metis snd_conv)+
qed

text \<open>
  C37: one after the other, registrations keep the names unique, whatever the database answers to their
  statements; but the name is checked in one statement and inserted in another, and the schema does not make it
  unique. When two registrations both check before either inserts, and no statement
  fails, both succeed: two accounts
  have the name, and only the first of them can ever log in.
\<close>

theorem concurrent_registrations:
  assumes "auth_library K same" and "db_up d" and "users_ok d" and "names_ok d"
    and fresh: "username \<notin> urUsername ` set (t_users d)" and room: "users_seq d < 2147483647"
    and h1: "bc_hash K salt1 p1 = Some h1" and h2: "bc_hash K salt2 p2 = Some h2"
    and "username_taken username d = (t1, d1)" and "username_taken username d1 = (t2, d2)"
    and "insert_user username h1 email1 d2 = (i1, d3)" and "insert_user username h2 email2 d3 = (i2, d4)"
  shows "(names_ok d0 \<longrightarrow> names_ok (snd (createUser K dr name password email d0)))
    \<and> t1 = Inr False \<and> t2 = Inr False \<and> i1 = Inr (int (users_seq d)) \<and> i2 = Inr (int (users_seq d) + 1)
    \<and> \<not> names_ok d4
    \<and> fst (authenticateUser K username attempt d4)
        = (if same p1 attempt then Inr (int (users_seq d)) else Inl (AuthErr ''invalid credentials''))"
proof -
  let ?u1 = "\<lparr>urID = show_nat (users_seq d), urUsername = username, urPassword = h1, urEmail = email1\<rparr>"
  let ?u2 = "\<lparr>urID = show_nat (Suc (users_seq d)), urUsername = username, urPassword = h2, urEmail = email2\<rparr>"
  have t: "t1 = Inr False" "d1 = tick d" "t2 = Inr False" "d2 = tick (tick d)"
    using assms(2,9,10) fresh by (auto simp: username_taken_def query_row_up)
  have i1: "i1 = Inr (int (users_seq d))" "users_seq d3 = Suc (users_seq d)" "t_users d3 = t_users d @ [?u1]"
    "db_up d3" "users_ok d3"
    using assms(2,3,11) t(4) room users_ok_insert [OF assms(3), of ?u1] users_ok_insert(1) [of "tick (tick (tick d))" ?u1]
    by (auto simp: insert_user_def exec_up Let_def db_up_def)
  have i2: "i2 = Inr (int (users_seq d) + 1)" "t_users d4 = t_users d @ [?u1, ?u2]" "db_up d4"
    using assms(12) i1 room users_ok_insert(2) [OF i1(5), of ?u2]
    by (auto simp: insert_user_def exec_up Let_def db_up_def)
  have first: "filter (\<lambda>u. urUsername u = username) (t_users d4) = [?u1, ?u2]"
    using fresh i2(2) by (auto simp: filter_empty_conv)
  have "names_ok (snd (createUser K dr name password email d0))" if "names_ok d0"
    using createUser_names [OF that] .
  moreover have "\<not> names_ok d4" using i2(2) by (simp add: names_ok_def)
  moreover have "fst (authenticateUser K username attempt d4)
      = (if same p1 attempt then Inr (int (users_seq d)) else Inl (AuthErr ''invalid credentials''))"
    using first i2(3) auth_library.hash_check [OF assms(1) h1]
    by (simp add: authenticateUser_def query_row_up user_int_def)
  ultimately show ?thesis using t i1(1) i2(1) by blast
qed

lemma concurrent_registrations_witness:
  "\<exists>d4. \<not> names_ok d4 \<and> fst (authenticateUser toy_auth ''ann'' ''other'' d4) = Inl (AuthErr ''invalid credentials'')"
proof -
  have h: "bc_hash toy_auth 0 ''pw'' = Some (show_nat 0 @ ''$pw'')" "bc_hash toy_auth 0 ''other'' = Some (show_nat 0 @ ''$other'')"
    by (simp_all add: toy_auth_def)
  have "same72 ''pw'' ''other'' = False" by (simp add: same72_def)
  with concurrent_registrations [OF toy.auth_library_axioms demo_db_up demo_users_empty(1,2) _ _ h
      prod.collapse [symmetric] prod.collapse [symmetric] prod.collapse [symmetric] prod.collapse [symmetric],
      where username = "''ann''" and attempt = "''other''"]
  show ?thesis by (simp add: demo_users_empty) blast
qed

section \<open>Properties of sessions\<close>

text \<open>A session in the server: who it belongs to, and the seconds it has left.\<close>

definition session_of :: "rview \<Rightarrow> string \<Rightarrow> (rstr \<times> nat) option" where
  "session_of w token =
     (case w (session_key token) of Some (RStr v, Some ttl) \<Rightarrow> Some (v, ttl) | _ \<Rightarrow> None)"

lemma session_of_Some: "session_of w token = Some (v, ttl) \<longleftrightarrow> w (session_key token) = Some (RStr v, Some ttl)"
  by (auto simp: session_of_def split: option.splits rval.splits prod.splits)

text \<open>A client that uses its session after each of the given pauses, and what it is told.\<close>

fun use_session :: "'r redis_api \<Rightarrow> string \<Rightarrow> nat list \<Rightarrow> 'r \<Rightarrow> (auth_err + rstr) list \<times> 'r" where
  "use_session R token [] r = ([], r)"
| "use_session R token (n # ns) r =
     (case ValidateTokenSession R token (rc_elapse R n r) of
        (res, r1) \<Rightarrow> (case use_session R token ns r1 of (ress, r2) \<Rightarrow> (res # ress, r2)))"

context redis_server begin

lemma validate_live:
  assumes "session_of (view r) token = Some (v, ttl)" and "ttl \<le> 86400"
  obtains r' ttl' where "ValidateTokenSession R token r = (Inr v, r')"
    and "session_of (view r') token = Some (v, ttl')" and "72000 \<le> ttl'" and "ttl' \<le> 86400"
proof -
  have key: "view r (session_key token) = Some (RStr v, Some ttl)" using assms(1) by (simp add: session_of_Some)
  note reads = get_string [OF key] ttl_view [OF key]
  show thesis
  proof (cases "ttl < 72000")
    case True
    let ?r = "snd (rc_expire R (session_key token) 86400 r)"
    have "ValidateTokenSession R token r = (Inr v, ?r)"
      using reads True expire_reply [of "session_key token" 86400 r]
      by (auto simp: ValidateTokenSession_def extend_session_def Let_def split: prod.split)
    moreover have "session_of (view ?r) token = Some (v, 86400)"
      using key by (simp add: session_of_Some expire_view)
    ultimately show thesis by (rule that) simp_all
  next
    case False
    then have "ValidateTokenSession R token r = (Inr v, r)"
      using reads by (simp add: ValidateTokenSession_def extend_session_def Let_def)
    then show thesis using that assms False by simp
  qed
qed

lemma validate_missing:
  "view r (session_key token) = None \<Longrightarrow> ValidateTokenSession R token r = (Inl (AuthErr ''invalid token''), r)"
  by (simp add: ValidateTokenSession_def Let_def get_missing)

lemma session_elapse:
  assumes "session_of (view r) token = Some (v, ttl)"
  shows "n < ttl \<Longrightarrow> session_of (view (rc_elapse R n r)) token = Some (v, ttl - n)"
    and "ttl \<le> n \<Longrightarrow> view (rc_elapse R n r) (session_key token) = None"
  using assms by (simp_all add: session_of_Some elapse_view age_def)

lemma session_kept:
  assumes "list_all (\<lambda>n. n < 72000) ns" and "session_of (view r) token = Some (v, ttl)"
    and "72000 \<le> ttl" and "ttl \<le> 86400"
  obtains r' ttl' where "use_session R token ns r = (replicate (length ns) (Inr v), r')"
    and "session_of (view r') token = Some (v, ttl')" and "72000 \<le> ttl'" and "ttl' \<le> 86400"
  using assms
proof (induction ns arbitrary: r ttl thesis)
  case Nil
  then show ?case by simp
next
  case (Cons n ns)
  have "session_of (view (rc_elapse R n r)) token = Some (v, ttl - n)"
    using Cons.prems(2-4) session_elapse(1) by simp
  moreover have "ttl - n \<le> 86400" using Cons.prems(5) by simp
  ultimately obtain r1 ttl1 where 1: "ValidateTokenSession R token (rc_elapse R n r) = (Inr v, r1)"
    "session_of (view r1) token = Some (v, ttl1)" "72000 \<le> ttl1" "ttl1 \<le> 86400"
    by (rule validate_live)
  obtain r' ttl' where "use_session R token ns r1 = (replicate (length ns) (Inr v), r')"
    "session_of (view r') token = Some (v, ttl')" "72000 \<le> ttl'" "ttl' \<le> 86400"
    by (rule Cons.IH [OF _ _ 1(2-4)]) (use Cons.prems(2) in simp_all)
  with 1(1) Cons.prems(1) show ?case by simp
qed

lemma opened_session:
  assumes "LoginWithSession K R dr username password r d = (Inr (userID, token), r', d')"
  shows "session_of (view r') token = Some (VText (show_int userID), 86400)"
  using assms set_view [of "session_key token" "VText (show_int userID)" "Some 86400" r]
  by (auto simp: LoginWithSession_def open_session_def session_of_Some
      split: sum.splits prod.splits option.splits)

end

text \<open>
  C31: a session opened by a login stays open for as long as it is used: with pauses of less than 20
  hours every use is accepted, for the user who logged in, and the session still lasts 20 to 24
  hours afterwards. Left alone for 24 hours it is gone, and so it is after a logout.
\<close>

theorem session_lifetime:
  assumes "redis_server R view"
    and login: "LoginWithSession K R dr username password r d = (Inr (userID, token), r1, d1)"
    and "list_all (\<lambda>n. n < 72000) pauses" and "86400 \<le> n"
  shows "\<exists>r2 ttl. use_session R token pauses r1 = (replicate (length pauses) (Inr (VText (show_int userID))), r2)
    \<and> session_of (view r2) token = Some (VText (show_int userID), ttl) \<and> 72000 \<le> ttl \<and> ttl \<le> 86400
    \<and> fst (ValidateTokenSession R token (rc_elapse R n r2)) = Inl (AuthErr ''invalid token'')
    \<and> fst (ValidateTokenSession R token (snd (LogoutSession R token r2))) = Inl (AuthErr ''invalid token'')"
proof -
  have live: "session_of (view r1) token = Some (VText (show_int userID), 86400)"
    by (rule redis_server.opened_session [OF assms(1) login])
  obtain r2 ttl where r2:
    "use_session R token pauses r1 = (replicate (length pauses) (Inr (VText (show_int userID))), r2)"
    "session_of (view r2) token = Some (VText (show_int userID), ttl)" "72000 \<le> ttl" "ttl \<le> 86400"
    by (rule redis_server.session_kept [OF assms(1,3) live]) simp_all
  have "view (rc_elapse R n r2) (session_key token) = None"
    by (rule redis_server.session_elapse(2) [OF assms(1) r2(2)]) (use r2(4) assms(4) in simp)
  moreover have "view (snd (LogoutSession R token r2)) (session_key token) = None"
    by (simp add: LogoutSession_def redis_server.del_view [OF assms(1)])
  ultimately show ?thesis
    using r2 redis_server.validate_missing [OF assms(1)] by force
qed

lemma session_lifetime_witness:
  "\<exists>token r1. fst (use_session mem_redis token [70000, 60000, 71999] r1) = replicate 3 (Inr (VText ''1''))"
proof -
  let ?d = "(demo_db [] [] [])\<lparr>t_users := [demo_user ''1'' ''ann'' ''0$pw'']\<rparr>"
  obtain token r1 d1 where "LoginWithSession toy_auth mem_redis demo_draws ''ann'' ''pw'' [] ?d = (Inr (1, token), r1, d1)"
    by (simp add: LoginWithSession_def authenticateUser_def query_row_up db_up_def demo_db_def demo_user_def
        toy_auth_def open_session_def generateSecureToken_def demo_draws_def mem_redis_def mem_set_def user_int_def
        digits_val_def digit_val_def)
  from session_lifetime [OF mem.redis_server_axioms this, of "[70000, 60000, 71999]" 86400]
  have "fst (use_session mem_redis token [70000, 60000, 71999] r1) = replicate 3 (Inr (VText (show_int 1)))"
    by (auto simp del: use_session.simps simp: numeral_3_eq_3)
  then show ?thesis by (auto simp del: use_session.simps simp: show_int_def show_nat.simps digit_char_def)
qed

end
