(* ===== verification/Executor.thy ===== *)
theory Executor
  imports Models
begin

text \<open>
  \<open>internal/automation/executor.go\<close>: the MQTT publishes that carry out actions. The MQTT
  client is not part of the repository; what the code does to it is the list of
  \<open>Publish\<close> calls, in order, whose tokens the code drops. The Boolean argument says whether
  the client is non-nil. The \<open>iter\<close> argument is the order in which Go visits a map here.
\<close>

record publish =
  pubTopic :: string
  pubQos :: nat
  pubRetained :: bool
  pubPayload :: json

definition command_topic :: "string \<Rightarrow> string" where
  "command_topic d = ''devices/'' @ d @ ''/commands''"

definition command :: "string \<Rightarrow> json \<Rightarrow> publish" where
  "command d payload = \<lparr>pubTopic = command_topic d, pubQos = 1, pubRetained = False, pubPayload = payload\<rparr>"

text \<open>A \<open>send_email\<close> action only logs its message, so it publishes nothing of its own.\<close>

fun execute_actions :: "bool \<Rightarrow> action list \<Rightarrow> publish list" where
  "execute_actions client [] = []"
| "execute_actions client (a # as) =
     (if aDeviceID a \<noteq> '''' \<and> client then [command (aDeviceID a) (marshal_raw (aParams a))] else [])
     @ execute_actions client as"

definition ExecuteActions :: "bool \<Rightarrow> raw \<Rightarrow> publish list" where
  "ExecuteActions client actionsRaw =
     (case unmarshal_actions actionsRaw of None \<Rightarrow> [] | Some actions \<Rightarrow> execute_actions client actions)"

type_synonym resolved = "(string, (string, json) gomap) gomap"

fun publish_resolved :: "resolved \<Rightarrow> publish list" where
  "publish_resolved [] = []"
| "publish_resolved ((deviceID, params) # rest) =
     (if length params > 0 then [command deviceID (JObj params)] else []) @ publish_resolved rest"

definition ExecuteResolvedActions :: "(resolved \<Rightarrow> resolved) \<Rightarrow> bool \<Rightarrow> resolved \<Rightarrow> publish list" where
  "ExecuteResolvedActions iter client resolvedActions =
     (if \<not> client then [] else publish_resolved (iter resolvedActions))"

lemma command_topic_inj [simp]: "command_topic d = command_topic d' \<longleftrightarrow> d = d'"
  by (simp add: command_topic_def)

lemma command_inj [simp]: "command d p = command d' p' \<longleftrightarrow> d = d' \<and> p = p'"
  by (simp add: command_def)

lemma publish_resolved_eq:
  "publish_resolved m = map (\<lambda>(d, ps). command d (JObj ps)) (filter (\<lambda>(d, ps). ps \<noteq> []) m)"
  by (induction m rule: publish_resolved.induct) auto

text \<open>One command per device with something to set, whatever the visiting order.\<close>

lemma ExecuteResolvedActions_set:
  assumes "visit_order iter"
  shows "set (ExecuteResolvedActions iter True m) = {command d (JObj ps) |d ps. (d, ps) \<in> set m \<and> ps \<noteq> []}"
  by (force simp: ExecuteResolvedActions_def publish_resolved_eq visit_order_set [OF assms])

lemma ExecuteResolvedActions_once:
  assumes "visit_order iter" and "distinct (map fst m)"
  shows "distinct (map pubTopic (ExecuteResolvedActions iter True m))"
proof -
  from assms have "distinct (map fst (iter m))" by (rule visit_order_map_fst)
  then have keys': "distinct (map fst (filter (\<lambda>(d, ps). ps \<noteq> []) (iter m)))"
    by (rule distinct_map_filter)
  have "map pubTopic (ExecuteResolvedActions iter True m)
      = map command_topic (map fst (filter (\<lambda>(d, ps). ps \<noteq> []) (iter m)))"
    by (simp add: ExecuteResolvedActions_def publish_resolved_eq command_def case_prod_unfold comp_def)
  moreover have "inj_on command_topic A" for A
    by (simp add: inj_on_def)
  ultimately show ?thesis
    using keys' by (simp only: distinct_map simp_thms)
qed

text \<open>What a list of publishes commands for one attribute of one device.\<close>

definition commanded :: "publish list \<Rightarrow> string \<Rightarrow> string \<Rightarrow> json option" where
  "commanded pubs d k =
     (case find (\<lambda>p. pubTopic p = command_topic d) pubs of
        None \<Rightarrow> None
      | Some p \<Rightarrow> (case pubPayload p of JObj ps \<Rightarrow> map_of ps k | _ \<Rightarrow> None))"

definition value_of :: "resolved \<Rightarrow> string \<Rightarrow> string \<Rightarrow> json option" where
  "value_of m d k = (case map_of m d of None \<Rightarrow> None | Some params \<Rightarrow> map_of params k)"

lemma commanded_command:
  "commanded (command d' (JObj ps) # pubs) d k = (if d' = d then map_of ps k else commanded pubs d k)"
  by (simp add: commanded_def command_def)

lemma commanded_absent: "d \<notin> fst ` set m \<Longrightarrow> commanded (publish_resolved m) d k = None"
  by (induction m rule: publish_resolved.induct) (auto simp: commanded_command, simp_all add: commanded_def)

lemma commanded_publish_resolved:
  "distinct (map fst m) \<Longrightarrow> commanded (publish_resolved m) d k = value_of m d k"
proof (induction m rule: publish_resolved.induct)
  case 1
  then show ?case by (simp add: commanded_def value_of_def)
next
  case (2 d' ps m)
  then have "map_of m d' = None" by (simp add: map_of_eq_None_iff)
  with 2 show ?case
    by (cases ps) (simp_all add: commanded_command value_of_def)
qed

lemma commanded_ExecuteResolvedActions:
  assumes "visit_order iter" and "distinct (map fst m)"
  shows "commanded (ExecuteResolvedActions iter True m) d k = value_of m d k"
proof -
  have "distinct (map fst (iter m))" by (rule visit_order_map_fst [OF assms])
  moreover from this have "map_of (iter m) = map_of m"
    using assms(2) visit_order_set [OF assms(1)] by (intro map_of_cong_set)
  ultimately show ?thesis
    by (simp add: ExecuteResolvedActions_def commanded_publish_resolved) (simp add: value_of_def)
qed

end
