(* ===== verification/WebDevices.thy ===== *)
theory WebDevices
  imports Auth Executor
begin

text \<open>
  The HTTP handlers of \<open>internal/web/api\<close> that work on the tables alone
  (\<open>devices.go\<close>, \<open>user.go\<close>, \<open>auth.go\<close>), with \<open>internal/web/middleware\<close> and the
  request types of \<open>internal/web/models\<close>. A handler takes what gin hands it (the user the
  middleware found, the path parameter, the body) and gives the one response it writes. The
  body is a \<open>raw\<close>: what \<open>ShouldBindJSON\<close> decodes from, \<open>None\<close> when there is no
  document to decode.

  \<open>web_env\<close> is what the web server is built with or cannot control: the token library and
  the secret, the agent id, whether there is an MQTT client and which publishes the broker
  confirms, the texts of foreign errors, and what Postgres stores for a jsonb parameter
  (\<open>None\<close> for a document it refuses).
\<close>

record response =
  rs_status :: nat
  rs_body :: json

record web_env =
  w_auth :: auth_lib
  w_secret :: string
  w_agent :: string
  w_client :: bool
  w_confirmed :: "publish \<Rightarrow> bool"
  w_text :: "auth_err \<Rightarrow> string"
  w_jsonb :: "json \<Rightarrow> json option"

definition respond :: "nat \<Rightarrow> json \<Rightarrow> response" where
  "respond status body = \<lparr>rs_status = status, rs_body = body\<rparr>"

definition gin_error :: "nat \<Rightarrow> string \<Rightarrow> response" where
  "gin_error status msg = respond status (JObj [(''error'', JStr msg)])"

definition gin_status :: "string \<Rightarrow> response" where
  "gin_status msg = respond 200 (JObj [(''status'', JStr msg)])"

section \<open>The middleware\<close>

text \<open>\<open>c.Abort\<close> keeps the handler from running.\<close>

definition RequireAuth ::
  "web_env \<Rightarrow> nat \<Rightarrow> string \<Rightarrow> (string \<Rightarrow> 's \<Rightarrow> (response \<times> publish list) \<times> 's) \<Rightarrow> 's
     \<Rightarrow> (response \<times> publish list) \<times> 's" where
  "RequireAuth W now authorization handler s =
     (case ValidateTokenJWT (w_auth W) (w_secret W) now authorization of
        Inl _ \<Rightarrow> ((gin_error 401 ''Unauthorized'', []), s)
      | Inr userID \<Rightarrow> handler userID s)"

section \<open>Devices\<close>

text \<open>\<open>json.Marshal\<close> of a \<open>models.Device\<close>.\<close>

definition enc_device :: "device \<Rightarrow> json" where
  "enc_device x =
     JObj [(''id'', JStr (dev_ID x)), (''name'', JStr (dev_Name x)), (''type'', JStr (dev_Type x)),
           (''state'', marshal_raw (dev_State x)), (''mqtt_topic'', JStr (dev_MQTTTopic x)),
           (''accepted'', JBool (dev_Accepted x)),
           (''owner_id'', case dev_OwnerID x of None \<Rightarrow> JNull | Some i \<Rightarrow> JStr i)]"

definition list_devices :: "string \<Rightarrow> db \<Rightarrow> response \<times> db" where
  "list_devices userID d =
     (case query (where_int userID (\<lambda>i d. filter (\<lambda>x. dev_OwnerID x = Some i \<and> dev_Accepted x) (t_devices d))) d of
        (Inl _, d1) \<Rightarrow> (gin_error 500 ''Failed to fetch devices'', d1)
      | (Inr devices, d1) \<Rightarrow> (respond 200 (JArr (map enc_device devices)), d1))"

definition list_pending :: "db \<Rightarrow> response \<times> db" where
  "list_pending d =
     (case query (\<lambda>d. Some (filter (\<lambda>x. \<not> dev_Accepted x) (t_devices d))) d of
        (Inl _, d1) \<Rightarrow> (gin_error 500 ''Failed to fetch pending devices'', d1)
      | (Inr devices, d1) \<Rightarrow> (respond 200 (JArr (map enc_device devices)), d1))"

text \<open>
  \<open>UPDATE devices SET ... WHERE id\<close> and its row count; \<open>f\<close> sets the columns. The owner is an
  integer column with a foreign key, which is checked for the rows that are written.
\<close>

definition matching :: "string \<Rightarrow> db \<Rightarrow> device list" where
  "matching deviceID d = filter (\<lambda>x. dev_ID x = deviceID) (t_devices d)"

definition update_device :: "string \<Rightarrow> (device \<Rightarrow> device) \<Rightarrow> db \<Rightarrow> (dberr + nat) \<times> db" where
  "update_device deviceID f d =
     (Inr (length (matching deviceID d)),
      d\<lparr>t_devices := map_rows (\<lambda>x. dev_ID x = deviceID) f (t_devices d)\<rparr>)"

definition update_owner :: "string \<Rightarrow> string \<Rightarrow> (string \<Rightarrow> device \<Rightarrow> device) \<Rightarrow> db \<Rightarrow> (dberr + nat) \<times> db" where
  "update_owner userID deviceID f =
     exec (exec_int userID (\<lambda>owner d.
       if matching deviceID d \<noteq> [] \<and> owner \<notin> urID ` set (t_users d) then (Inl PgError, d)
       else update_device deviceID (f owner) d))"

definition accept_device :: "string \<Rightarrow> string \<Rightarrow> db \<Rightarrow> response \<times> db" where
  "accept_device userID deviceID d =
     (case update_owner userID deviceID (\<lambda>owner x. x\<lparr>dev_Accepted := True, dev_OwnerID := Some owner\<rparr>) d of
        (Inl _, d1) \<Rightarrow> (gin_error 500 ''Failed to accept device'', d1)
      | (Inr affected, d1) \<Rightarrow>
          (if affected = 0 then gin_error 404 ''Device not found''
           else gin_status ''Device accepted successfully'', d1))"

definition set_owner :: "string \<Rightarrow> string \<Rightarrow> db \<Rightarrow> response \<times> db" where
  "set_owner userID deviceID d =
     (case update_owner userID deviceID (\<lambda>owner x. x\<lparr>dev_OwnerID := Some owner\<rparr>) d of
        (Inl _, d1) \<Rightarrow> (gin_error 500 ''Failed to update device owner'', d1)
      | (Inr affected, d1) \<Rightarrow>
          (if affected = 0 then gin_error 404 ''Device not found''
           else gin_status ''Owner updated successfully'', d1))"

definition select_device :: "string \<Rightarrow> db \<Rightarrow> (dberr + device) \<times> db" where
  "select_device deviceID = query_row (\<lambda>d. Some (matching deviceID d))"

definition not_owner :: response where
  "not_owner = gin_error 403 ''Unauthorized: You don't own this device''"

definition command_device :: "web_env \<Rightarrow> string \<Rightarrow> string \<Rightarrow> raw \<Rightarrow> db \<Rightarrow> (response \<times> publish list) \<times> db" where
  "command_device W userID deviceID body d =
     (case select_device deviceID d of
        (Inl _, d1) \<Rightarrow> ((gin_error 404 ''Device not found'', []), d1)
      | (Inr device, d1) \<Rightarrow>
          if \<not> dev_Accepted device then ((gin_error 403 ''Device not accepted'', []), d1)
          else if dev_OwnerID device = None \<or> the (dev_OwnerID device) \<noteq> userID then ((not_owner, []), d1)
          else
            (case unmarshal_map body of
               None \<Rightarrow> ((gin_error 400 ''Invalid command parameters'', []), d1)
             | Some commandParams \<Rightarrow>
                 if w_client W then
                   let p = command deviceID (marshal_map commandParams) in
                   if \<not> w_confirmed W p then ((gin_error 500 ''Failed to publish command'', [p]), d1)
                   else ((respond 200 (JObj [(''command'', marshal_map commandParams),
                            (''status'', JStr ''Command sent successfully''),
                            (''topic'', JStr (command_topic deviceID))]), [p]), d1)
                 else ((gin_error 500 ''MQTT client not available'', []), d1)))"

text \<open>The body \<open>{"name": ...}\<close>, where \<open>binding:"required"\<close> refuses the empty name.\<close>

definition bind_name :: "raw \<Rightarrow> string option" where
  "bind_name body =
     (case body of
        None \<Rightarrow> None
      | Some j \<Rightarrow>
          (case dec_struct (\<lambda>n k j. if field_is k ''name'' then dec_string n j else Some n) '''' j of
             None \<Rightarrow> None
           | Some name \<Rightarrow> if name = '''' then None else Some name))"

definition rename_device :: "string \<Rightarrow> string \<Rightarrow> raw \<Rightarrow> db \<Rightarrow> response \<times> db" where
  "rename_device userID deviceID body d =
     (case select_device deviceID d of
        (Inl _, d1) \<Rightarrow> (gin_error 404 ''Device not found'', d1)
      | (Inr device, d1) \<Rightarrow>
          if dev_OwnerID device = None \<or> the (dev_OwnerID device) \<noteq> userID then (not_owner, d1)
          else
            (case bind_name body of
               None \<Rightarrow> (gin_error 400 ''Invalid request: name is required'', d1)
             | Some name \<Rightarrow>
                 (case exec (update_device deviceID (\<lambda>x. x\<lparr>dev_Name := name\<rparr>)) d1 of
                    (Inl _, d2) \<Rightarrow> (gin_error 500 ''Failed to update device name'', d2)
                  | (Inr affected, d2) \<Rightarrow>
                      (if affected = 0 then gin_error 404 ''Device not found''
                       else respond 200 (JObj [(''name'', JStr name),
                              (''status'', JStr ''Device name updated successfully'')]), d2))))"

text \<open>\<open>DELETE FROM devices WHERE id\<close>: the history refers to devices.\<close>

definition delete_device :: "string \<Rightarrow> db \<Rightarrow> (dberr + nat) \<times> db" where
  "delete_device deviceID =
     exec (\<lambda>d.
       if matching deviceID d \<noteq> [] \<and> Some deviceID \<in> hrDeviceID ` set (t_history d) then (Inl PgError, d)
       else (Inr (length (matching deviceID d)),
             d\<lparr>t_devices := filter (\<lambda>x. dev_ID x \<noteq> deviceID) (t_devices d)\<rparr>))"

definition remove_device :: "string \<Rightarrow> string \<Rightarrow> db \<Rightarrow> response \<times> db" where
  "remove_device userID deviceID d =
     (case select_device deviceID d of
        (Inl _, d1) \<Rightarrow> (gin_error 404 ''Device not found'', d1)
      | (Inr device, d1) \<Rightarrow>
          if dev_OwnerID device = None \<or> the (dev_OwnerID device) \<noteq> userID then (not_owner, d1)
          else
            (case delete_device deviceID d1 of
               (Inl _, d2) \<Rightarrow> (gin_error 500 ''Failed to delete device'', d2)
             | (Inr affected, d2) \<Rightarrow>
                 (if affected = 0 then gin_error 404 ''Device not found''
                  else gin_status ''Device deleted successfully'', d2)))"

section \<open>Users\<close>

definition get_me :: "string \<Rightarrow> db \<Rightarrow> response \<times> db" where
  "get_me userID d =
     (case query_row (where_int userID (\<lambda>i d. filter (\<lambda>u. urID u = i) (t_users d))) d of
        (Inl _, d1) \<Rightarrow> (gin_error 404 ''User not found'', d1)
      | (Inr u, d1) \<Rightarrow>
          (respond 200 (JObj [(''id'', JStr (urID u)), (''email'', JStr (urEmail u)), (''name'', JStr (urUsername u))]), d1))"

record LoginRequest =
  lrUsername :: string
  lrPassword :: string

record RegisterRequest =
  rrqUsername :: string
  rrqPassword :: string
  rrqEmail :: string

definition dec_login_field :: "LoginRequest \<Rightarrow> string \<Rightarrow> json \<Rightarrow> LoginRequest option" where
  "dec_login_field l k j =
     (if field_is k ''username'' then map_option (\<lambda>s. l\<lparr>lrUsername := s\<rparr>) (dec_string (lrUsername l) j)
      else if field_is k ''password'' then map_option (\<lambda>s. l\<lparr>lrPassword := s\<rparr>) (dec_string (lrPassword l) j)
      else Some l)"

definition dec_register_field :: "RegisterRequest \<Rightarrow> string \<Rightarrow> json \<Rightarrow> RegisterRequest option" where
  "dec_register_field l k j =
     (if field_is k ''username'' then map_option (\<lambda>s. l\<lparr>rrqUsername := s\<rparr>) (dec_string (rrqUsername l) j)
      else if field_is k ''password'' then map_option (\<lambda>s. l\<lparr>rrqPassword := s\<rparr>) (dec_string (rrqPassword l) j)
      else if field_is k ''email'' then map_option (\<lambda>s. l\<lparr>rrqEmail := s\<rparr>) (dec_string (rrqEmail l) j)
      else Some l)"

definition bind_json :: "('a \<Rightarrow> string \<Rightarrow> json \<Rightarrow> 'a option) \<Rightarrow> 'a \<Rightarrow> raw \<Rightarrow> 'a option" where
  "bind_json step zero body = (case body of None \<Rightarrow> None | Some j \<Rightarrow> dec_struct step zero j)"

definition err_text :: "web_env \<Rightarrow> auth_err \<Rightarrow> string" where
  "err_text W e = (case e of AuthErr msg \<Rightarrow> msg | _ \<Rightarrow> w_text W e)"

definition token_body :: "web_env \<Rightarrow> string \<Rightarrow> json" where
  "token_body W token = JObj [(''agent_id'', JStr (w_agent W)), (''token'', JStr token)]"

definition post_login :: "web_env \<Rightarrow> draws \<Rightarrow> raw \<Rightarrow> db \<Rightarrow> response \<times> db" where
  "post_login W dr body d =
     (case bind_json dec_login_field \<lparr>lrUsername = '''', lrPassword = ''''\<rparr> body of
        None \<Rightarrow> (gin_error 400 ''Invalid request'', d)
      | Some req \<Rightarrow>
          (case LoginWithJWT (w_auth W) (w_secret W) dr (lrUsername req) (lrPassword req) d of
             (Inl e, d1) \<Rightarrow> (gin_error 401 (err_text W e), d1)
           | (Inr token, d1) \<Rightarrow> (respond 200 (token_body W token), d1)))"

definition post_register :: "web_env \<Rightarrow> draws \<Rightarrow> raw \<Rightarrow> db \<Rightarrow> response \<times> db" where
  "post_register W dr body d =
     (case bind_json dec_register_field \<lparr>rrqUsername = '''', rrqPassword = '''', rrqEmail = ''''\<rparr> body of
        None \<Rightarrow> (gin_error 400 ''Invalid request'', d)
      | Some req \<Rightarrow>
          (case RegisterWithJWT (w_auth W) (w_secret W) dr (rrqUsername req) (rrqPassword req) (rrqEmail req) d of
             (Inl e, d1) \<Rightarrow> (gin_error 400 (err_text W e), d1)
           | (Inr token, d1) \<Rightarrow> (respond 201 (token_body W token), d1)))"

end
