(* ===== verification/Evaluator.thy ===== *)
theory Evaluator
  imports Utils Redis
begin

text \<open>
  \<open>internal/automation/evaluator.go\<close>: the evaluation of a rule's condition tree against the
  device states and the one-minute cache of time conditions in Redis.

  An evaluation runs at one instant: \<open>env\<close> holds the wall clock \<open>utils.GetCurrentTime()\<close>
  reads, the \<open>encoding/json\<close> parser on a Redis string that was not written by
  \<open>json.Marshal\<close>, and the \<open>%v\<close> rendering of a raw value that the cache key is built from.
  The Redis client is an option: \<open>None\<close> is the nil client.
\<close>

record env =
  e_parse :: "string \<Rightarrow> raw"
  e_show :: "raw \<Rightarrow> string"
  e_now :: gotime

definition reply_raw :: "env \<Rightarrow> rstr \<Rightarrow> raw" where
  "reply_raw E v =
     (case v of VDoc j \<Rightarrow> Some j | VText s \<Rightarrow> if s = '''' then None else e_parse E s)"

definition device_key :: "string \<Rightarrow> string" where
  "device_key d = ''device:'' @ d"

definition time_key :: "env \<Rightarrow> string \<Rightarrow> raw \<Rightarrow> string" where
  "time_key E op v = ''time:'' @ op @ '':'' @ e_show E v"

text \<open>The state a GET left in the target of \<open>json.Unmarshal\<close>, whose error is dropped.\<close>

definition state_of :: "env \<Rightarrow> rstr \<Rightarrow> jmap" where
  "state_of E v = (case unmarshal_map (reply_raw E v) of None \<Rightarrow> None | Some m \<Rightarrow> m)"

definition or_nil :: "json option \<Rightarrow> json" where
  "or_nil x = (case x of None \<Rightarrow> JNull | Some j \<Rightarrow> j)"

definition cached_true :: "rstr \<Rightarrow> bool" where
  "cached_true v \<longleftrightarrow> v = VText ''true'' \<or> v = VDoc (JBool True)"

definition show_bool :: "bool \<Rightarrow> string" where
  "show_bool b = (if b then ''true'' else ''false'')"

section \<open>Evaluation\<close>

definition eval_device :: "env \<Rightarrow> 'r redis_api \<Rightarrow> 'r option \<Rightarrow> cond_fields \<Rightarrow> bool \<times> 'r option" where
  "eval_device E R rc f =
     (case rc of
        None \<Rightarrow> (False, rc)
      | Some r \<Rightarrow>
          let stateRaw = text_or_empty (rc_get R r (device_key (cDeviceID f)));
              state = state_of E stateRaw
          in (case cValue f of
                None \<Rightarrow> (False, rc)
              | Some expectedValue \<Rightarrow>
                  (Compare (JV (or_nil (mget state (cKey f)))) (cOp f) expectedValue, rc)))"

definition eval_time :: "env \<Rightarrow> 'r redis_api \<Rightarrow> 'r option \<Rightarrow> cond_fields \<Rightarrow> bool \<times> 'r option" where
  "eval_time E R rc f =
     (case rc of
        None \<Rightarrow>
          (case cValue f of
             None \<Rightarrow> (False, rc)
           | Some expectedValue \<Rightarrow> (Compare (TimeV (e_now E)) (cOp f) expectedValue, rc))
      | Some r \<Rightarrow>
          let cacheKey = time_key E (cOp f) (cValue f);
              cached = text_or_empty (rc_get R r cacheKey)
          in if cached \<noteq> VText '''' then (cached_true cached, rc)
             else (case cValue f of
                     None \<Rightarrow> (False, rc)
                   | Some expectedValue \<Rightarrow>
                       let result = Compare (TimeV (e_now E)) (cOp f) expectedValue
                       in (result, Some (snd (rc_set R cacheKey (VText (show_bool result)) (Some 60) r)))))"

definition eval_leaf :: "env \<Rightarrow> 'r redis_api \<Rightarrow> 'r option \<Rightarrow> cond_fields \<Rightarrow> bool \<times> 'r option" where
  "eval_leaf E R rc f =
     (if cType f = ''sensor'' \<or> cType f = ''device'' then eval_device E R rc f
      else if cType f = ''time'' then eval_time E R rc f
      else (False, rc))"

fun evaluateCondition :: "env \<Rightarrow> 'r redis_api \<Rightarrow> 'r option \<Rightarrow> condition \<Rightarrow> bool \<times> 'r option"
  and evaluateChildren :: "env \<Rightarrow> 'r redis_api \<Rightarrow> 'r option \<Rightarrow> string \<Rightarrow> condition list \<Rightarrow> bool \<times> 'r option"
where
  "evaluateCondition E R rc (Condition f cs) =
     (if cOperator f = '''' then eval_leaf E R rc f
      else evaluateChildren E R rc (cOperator f) cs)"
| "evaluateChildren E R rc operator [] = (operator = ''AND'', rc)"
| "evaluateChildren E R rc operator (c # cs) =
     (let (childResult, rc') = evaluateCondition E R rc c in
      if operator = ''AND'' \<and> \<not> childResult then (False, rc')
      else if operator = ''OR'' \<and> childResult then (True, rc')
      else evaluateChildren E R rc' operator cs)"

definition EvaluateConditions :: "env \<Rightarrow> 'r redis_api \<Rightarrow> 'r option \<Rightarrow> raw \<Rightarrow> bool \<times> 'r option" where
  "EvaluateConditions E R rc conditionsRaw =
     (case unmarshal_condition conditionsRaw of
        None \<Rightarrow> (False, rc)
      | Some condition \<Rightarrow> evaluateCondition E R rc condition)"

section \<open>The Boolean meaning of a tree\<close>

fun leaves :: "condition \<Rightarrow> cond_fields list" where
  "leaves (Condition f cs) = (if cOperator f = '''' then [f] else concat (map leaves cs))"

fun holds :: "(cond_fields \<Rightarrow> bool) \<Rightarrow> condition \<Rightarrow> bool" where
  "holds L (Condition f cs) =
     (if cOperator f = '''' then L f
      else if cOperator f = ''AND'' then \<forall>c \<in> set cs. holds L c
      else if cOperator f = ''OR'' then \<exists>c \<in> set cs. holds L c
      else False)"

lemma holds_cong:
  "(\<And>f. f \<in> set (leaves c) \<Longrightarrow> L f = M f) \<Longrightarrow> holds L c = holds M c"
proof (induction c)
  case (Condition f cs)
  have "holds L c = holds M c" if "cOperator f \<noteq> ''''" "c \<in> set cs" for c
    using that Condition.prems by (intro Condition.IH) auto
  with Condition.prems show ?case by simp
qed

definition leaf_value :: "env \<Rightarrow> 'r redis_api \<Rightarrow> 'r \<Rightarrow> cond_fields \<Rightarrow> bool" where
  "leaf_value E R r f = fst (eval_leaf E R (Some r) f)"

text \<open>
  What the cache keys need of the \<open>%v\<close> rendering of the values \<open>V\<close>: different values give
  different texts, and the text (bytes in decimal, in brackets) has no colon.
\<close>

definition show_ok :: "env \<Rightarrow> raw set \<Rightarrow> bool" where
  "show_ok E V \<longleftrightarrow> inj_on (e_show E) V \<and> (\<forall>v \<in> V. CHR '':'' \<notin> set (e_show E v))"

lemma device_key_inj [simp]: "device_key d = device_key d' \<longleftrightarrow> d = d'"
  by (simp add: device_key_def)

lemma device_key_time_key [simp]: "device_key d \<noteq> time_key E op v" "time_key E op v \<noteq> device_key d"
  by (simp_all add: device_key_def time_key_def)

lemma time_key_inj:
  assumes "show_ok E V" and "v \<in> V" and "v' \<in> V"
  shows "time_key E op v = time_key E op' v' \<longleftrightarrow> op = op' \<and> v = v'"
proof -
  have "time_key E op v = time_key E op' v' \<longleftrightarrow> op @ CHR '':'' # e_show E v = op' @ CHR '':'' # e_show E v'"
    by (simp add: time_key_def)
  also have "\<dots> \<longleftrightarrow> op = op' \<and> e_show E v = e_show E v'"
    using assms by (intro append_sep_eq_iff_right) (auto simp: show_ok_def)
  also have "\<dots> \<longleftrightarrow> op = op' \<and> v = v'"
    using assms by (auto simp: show_ok_def inj_on_eq_iff)
  finally show ?thesis .
qed

lemma show_bool_nonempty [simp]: "show_bool b \<noteq> ''''"
  by (simp add: show_bool_def)

lemma cached_true_show [simp]: "cached_true (VText (show_bool b)) = b"
  by (simp add: cached_true_def show_bool_def)

section \<open>Evaluation against a reachable server\<close>

text \<open>
  An evaluation writes nothing but time keys, and it never changes the value of a leaf that
  is evaluated later: a cached result is read back as what it was. So the short-circuiting
  evaluation computes the Boolean meaning of the tree over the leaf values at its start.
\<close>

definition same_leaves :: "env \<Rightarrow> 'r redis_api \<Rightarrow> cond_fields set \<Rightarrow> 'r \<Rightarrow> 'r \<Rightarrow> bool" where
  "same_leaves E R F r r' \<longleftrightarrow> (\<forall>f \<in> F. leaf_value E R r' f = leaf_value E R r f)"

definition time_keys_only :: "rview \<Rightarrow> rview \<Rightarrow> bool" where
  "time_keys_only w w' \<longleftrightarrow> (\<forall>k. (\<nexists>s. k = ''time:'' @ s) \<longrightarrow> w' k = w k)"

lemma same_leaves_refl [simp]: "same_leaves E R F r r"
  by (simp add: same_leaves_def)

lemma same_leaves_trans: "same_leaves E R F r r' \<Longrightarrow> same_leaves E R F r' r'' \<Longrightarrow> same_leaves E R F r r''"
  by (simp add: same_leaves_def)

lemma time_keys_only_refl [simp]: "time_keys_only w w"
  by (simp add: time_keys_only_def)

lemma time_keys_only_trans: "time_keys_only w w' \<Longrightarrow> time_keys_only w' w'' \<Longrightarrow> time_keys_only w w''"
  by (simp add: time_keys_only_def)

context redis_server begin

text \<open>A leaf either leaves the server alone or caches its own result under its time key.\<close>

lemma eval_leaf_server:
  obtains (same) "snd (eval_leaf E R (Some r) f) = Some r"
    | (cached) b where "cType f = ''time''"
      and "text_or_empty (rc_get R r (time_key E (cOp f) (cValue f))) = VText ''''"
      and "b = leaf_value E R r f"
      and "snd (eval_leaf E R (Some r) f)
           = Some (snd (rc_set R (time_key E (cOp f) (cValue f)) (VText (show_bool b)) (Some 60) r))"
proof (cases "cType f = ''time'' \<and> cValue f \<noteq> None
    \<and> text_or_empty (rc_get R r (time_key E (cOp f) (cValue f))) = VText ''''")
  case True
  then show thesis
    by (intro cached) (auto simp: leaf_value_def eval_leaf_def eval_time_def Let_def)
next
  case False
  then show thesis
    by (intro same) (auto simp: eval_leaf_def eval_time_def eval_device_def Let_def split: option.split)
qed

lemma leaf_value_cong:
  assumes "key_string (view r) (device_key (cDeviceID f)) = key_string (view r') (device_key (cDeviceID f))"
    and "key_string (view r) (time_key E (cOp f) (cValue f)) = key_string (view r') (time_key E (cOp f) (cValue f))"
  shows "leaf_value E R r f = leaf_value E R r' f"
  using assms [THEN get_text_cong]
  by (simp add: leaf_value_def eval_leaf_def eval_device_def eval_time_def Let_def split: option.split)

text \<open>Caching the result of \<open>f\<close> under its own key does not change what any leaf of \<open>F\<close> gives.\<close>

lemma cache_same_leaves:
  assumes F: "show_ok E (cValue ` F)" and f: "f \<in> F" "cType f = ''time''"
    and b: "b = leaf_value E R r f"
  shows "same_leaves E R F r (snd (rc_set R (time_key E (cOp f) (cValue f)) (VText (show_bool b)) (Some 60) r))"
    (is "same_leaves E R F r ?r'")
  unfolding same_leaves_def
proof
  fix g assume g: "g \<in> F"
  show "leaf_value E R ?r' g = leaf_value E R r g"
  proof (cases "cType g = ''time'' \<and> cOp g = cOp f \<and> cValue g = cValue f")
    case True
    then have "leaf_value E R r g = leaf_value E R r f"
      using f(2) by (simp add: leaf_value_def eval_leaf_def eval_time_def Let_def split: option.split)
    moreover have "leaf_value E R ?r' g = b"
      using True by (simp add: leaf_value_def eval_leaf_def eval_time_def get_text set_key_string Let_def)
    ultimately show ?thesis using b by simp
  next
    case False
    show ?thesis
    proof (cases "cType g = ''time''")
      case True
      with False g f time_key_inj [OF F, of "cValue g" "cValue f" "cOp g" "cOp f"]
      show ?thesis by (intro leaf_value_cong) (auto simp: set_key_string)
    next
      case False
      then show ?thesis
        by (simp add: leaf_value_def eval_leaf_def eval_device_def get_text set_key_string Let_def
            split: option.split)
    qed
  qed
qed

lemma eval_leaf_same_leaves:
  assumes "show_ok E (cValue ` F)" and "f \<in> F"
  obtains r' where "eval_leaf E R (Some r) f = (leaf_value E R r f, Some r')"
    and "same_leaves E R F r r'" and "time_keys_only (view r) (view r')"
proof (cases rule: eval_leaf_server [where E = E and r = r and f = f])
  case same
  then show thesis by (intro that [of r]) (auto simp: leaf_value_def intro: prod_eqI)
next
  case (cached b)
  show thesis
  proof (rule that)
    show "eval_leaf E R (Some r) f = (leaf_value E R r f,
        Some (snd (rc_set R (time_key E (cOp f) (cValue f)) (VText (show_bool b)) (Some 60) r)))"
      using cached(4) by (auto simp: leaf_value_def intro: prod_eqI)
    show "same_leaves E R F r (snd (rc_set R (time_key E (cOp f) (cValue f)) (VText (show_bool b)) (Some 60) r))"
      using assms cached by (intro cache_same_leaves) auto
    show "time_keys_only (view r) (view (snd (rc_set R (time_key E (cOp f) (cValue f)) (VText (show_bool b)) (Some 60) r)))"
      by (auto simp: time_keys_only_def set_view time_key_def)
  qed
qed

lemma evaluate_holds_aux:
  assumes F: "show_ok E (cValue ` F)"
  shows "set (leaves c) \<subseteq> F \<Longrightarrow>
      \<exists>r'. evaluateCondition E R (Some r) c = (holds (leaf_value E R r) c, Some r')
         \<and> same_leaves E R F r r' \<and> time_keys_only (view r) (view r')"
proof (induction c arbitrary: r)
  case (Condition f cs)
  show ?case
  proof (cases "cOperator f = ''''")
    case True
    with Condition.prems have "f \<in> F" by simp
    then obtain r' where "eval_leaf E R (Some r) f = (leaf_value E R r f, Some r')"
      and "same_leaves E R F r r'" and "time_keys_only (view r) (view r')"
      by (rule eval_leaf_same_leaves [OF F])
    with True show ?thesis by simp
  next
    case False
    have step: "\<exists>r'. evaluateCondition E R (Some r) c = (holds (leaf_value E R r) c, Some r')
         \<and> same_leaves E R F r r' \<and> time_keys_only (view r) (view r')" if "c \<in> set cs" for c r
      using that False Condition.prems by (intro Condition.IH) auto
    have holds_same: "holds (leaf_value E R r') c = holds (leaf_value E R r) c"
      if "c \<in> set cs" "same_leaves E R F r r'" for c r r'
      using that False Condition.prems by (intro holds_cong) (auto simp: same_leaves_def)
    have "\<exists>r'. evaluateChildren E R (Some r) op ds
          = (if op = ''AND'' then \<forall>c \<in> set ds. holds (leaf_value E R r) c
             else if op = ''OR'' then \<exists>c \<in> set ds. holds (leaf_value E R r) c else False, Some r')
         \<and> same_leaves E R F r r' \<and> time_keys_only (view r) (view r')"
      if "set ds \<subseteq> set cs" for op ds
      using that
    proof (induction ds arbitrary: r)
      case Nil
      then show ?case by (auto intro: exI [of _ r])
    next
      case (Cons d ds)
      from Cons.prems step [of d r] obtain r1 where r1:
        "evaluateCondition E R (Some r) d = (holds (leaf_value E R r) d, Some r1)"
        "same_leaves E R F r r1" "time_keys_only (view r) (view r1)" by auto
      from Cons.prems Cons.IH [of r1] obtain r2 where r2:
        "evaluateChildren E R (Some r1) op ds
          = (if op = ''AND'' then \<forall>c \<in> set ds. holds (leaf_value E R r1) c
             else if op = ''OR'' then \<exists>c \<in> set ds. holds (leaf_value E R r1) c else False, Some r2)"
        "same_leaves E R F r1 r2" "time_keys_only (view r1) (view r2)" by auto
      have eq: "holds (leaf_value E R r1) c = holds (leaf_value E R r) c" if "c \<in> set ds" for c
        using that Cons.prems r1(2) by (intro holds_same) auto
      note same = r1(2) same_leaves_trans [OF r1(2) r2(2)] r1(3) time_keys_only_trans [OF r1(3) r2(3)]
      show ?case
      proof (cases "op = ''AND'' \<and> \<not> holds (leaf_value E R r) d \<or> op = ''OR'' \<and> holds (leaf_value E R r) d")
        case True
        then show ?thesis using r1(1) same by (intro exI [of _ r1]) auto
      next
        case False
        then show ?thesis using r1(1) r2(1) eq same by (intro exI [of _ r2]) auto
      qed
    qed
    from this [of cs "cOperator f"] False show ?thesis by auto
  qed
qed

lemma time_leaf_expiry:
  assumes f: "cType f = ''time''" "cValue f = Some v"
    and none: "view r (time_key E (cOp f) (cValue f)) = None"
    and r1: "snd (eval_leaf E R (Some r) f) = Some r1"
  shows "leaf_value (E\<lparr>e_now := t\<rparr>) R (rc_elapse R n r1) f
     = Compare (TimeV (if n < 60 then e_now E else t)) (cOp f) v"
proof -
  let ?k = "time_key E (cOp f) (Some v)" and ?b = "Compare (TimeV (e_now E)) (cOp f) v"
  have key: "time_key (E\<lparr>e_now := t\<rparr>) (cOp f) (Some v) = ?k" by (simp add: time_key_def)
  from none f have "rc_get R r ?k = Inl RNil" by (simp add: get_missing)
  with f r1 have "r1 = snd (rc_set R ?k (VText (show_bool ?b)) (Some 60) r)"
    by (simp add: eval_leaf_def eval_time_def text_or_empty_def Let_def)
  then have v: "view (rc_elapse R n r1) ?k = (if n < 60 then Some (RStr (VText (show_bool ?b)), Some (60 - n)) else None)"
    by (simp add: elapse_view set_view age_def)
  show ?thesis
  proof (cases "n < 60")
    case True
    with v have "rc_get R (rc_elapse R n r1) ?k = Inr (VText (show_bool ?b))" by (simp add: get_string)
    with True f key show ?thesis
      by (simp add: leaf_value_def eval_leaf_def eval_time_def text_or_empty_def Let_def)
  next
    case False
    with v have "rc_get R (rc_elapse R n r1) ?k = Inl RNil" by (simp add: get_missing)
    with False f key show ?thesis
      by (simp add: leaf_value_def eval_leaf_def eval_time_def text_or_empty_def Let_def)
  qed
qed

theorem evaluate_holds:
  assumes "show_ok E (cValue ` set (leaves c))"
  obtains r' where "evaluateCondition E R (Some r) c = (holds (leaf_value E R r) c, Some r')"
    and "time_keys_only (view r) (view r')"
  using evaluate_holds_aux [OF assms, of c r] by auto

end

section \<open>Properties\<close>

text \<open>An evaluation at 18:30, a server that knows one lamp, and a tree over both.\<close>

definition show_bytes :: "raw \<Rightarrow> string" where
  "show_bytes r =
     (case r of Some (JStr s) \<Rightarrow> ''['' @ concat (map (\<lambda>c. show_nat (of_char c) @ '' '') s) @ '']'' | _ \<Rightarrow> ''[]'')"

definition demo_env :: "nat \<Rightarrow> nat \<Rightarrow> env" where
  "demo_env h m =
     \<lparr>e_parse = (\<lambda>s. if s = ''true'' then Some (JBool True) else if s = ''false'' then Some (JBool False) else None),
      e_show = show_bytes, e_now = \<lparr>Hour = h, Minute = m\<rparr>\<rparr>"

definition demo_server :: mem where
  "demo_server = [(''device:lamp'', Inl (VDoc (JObj [(''level'', JNum 5)])), Some 3600),
                  (''device:lamp:rules'', Inr [''7''], None)]"

definition demo_level :: cond_fields where
  "demo_level = zero_fields\<lparr>cType := ''sensor'', cDeviceID := ''lamp'', cKey := ''level'', cOp := ''>'',
     cValue := Some (JNum 3)\<rparr>"

definition demo_time :: cond_fields where
  "demo_time = zero_fields\<lparr>cType := ''time'', cOp := ''=='', cValue := Some (JStr ''18:30'')\<rparr>"

definition demo_tree :: condition where
  "demo_tree = Condition (zero_fields\<lparr>cOperator := ''AND''\<rparr>) [Condition demo_level [], Condition demo_time []]"

lemmas demo_defs = demo_env_def demo_server_def demo_level_def demo_time_def demo_tree_def zero_fields_def

lemma show_bytes_no_colon [simp]: "CHR '':'' \<notin> set (show_bytes r)"
  using show_nat_no_digit [of "CHR '':''"]
  by (auto simp: show_bytes_def is_digit_def split: option.split json.split)

lemma demo_show_ok: "show_ok (demo_env h m) {Some (JNum x), Some (JStr ''18:30'')}"
  by (simp add: show_ok_def demo_env_def) (simp add: show_bytes_def)

lemma demo_leaves: "cValue ` set (leaves demo_tree) = {Some (JNum 3), Some (JStr ''18:30'')}"
  by (simp add: demo_defs insert_commute)

lemma demo_parse_1830: "parse_15_04 ''18:30'' = Some (18, 30)"
  by (simp add: parse_15_04_def getnum_def is_digit_def digit_val_def)

text \<open>
  C11: evaluating a condition tree against a reachable server gives its Boolean meaning: AND is
  the conjunction and OR the disjunction of the children, any other non-empty operator is
  false, a node without an operator is its leaf test, over the leaf values the server holds when
  the evaluation begins. The early exits and the results cached on the way do not matter, and
  the evaluation changes no key but the time cache.
\<close>

theorem evaluation_meaning:
  assumes "redis_server R view" and "show_ok E (cValue ` set (leaves c))"
  shows "\<exists>r'. evaluateCondition E R (Some r) c = (holds (leaf_value E R r) c, Some r')
     \<and> time_keys_only (view r) (view r')"
  using redis_server.evaluate_holds [OF assms, of r] by blast

lemma evaluation_meaning_witness:
  "\<exists>r'. evaluateCondition (demo_env 18 30) mem_redis (Some demo_server) demo_tree
     = (holds (leaf_value (demo_env 18 30) mem_redis demo_server) demo_tree, Some r')
     \<and> time_keys_only (mem_view demo_server) (mem_view r')"
  by (rule evaluation_meaning [OF mem.redis_server_axioms]) (simp add: demo_leaves demo_show_ok)

text \<open>
  C38: the cache of a time condition outlives the minute it is about: a time leaf first
  evaluated now is, for the next 60 seconds, what it was then, whatever the clock says; once
  the 60 seconds are over, the clock decides again.
\<close>

theorem time_leaf_cached:
  assumes "redis_server R view" and "cType f = ''time''" and "cValue f = Some v"
    and "view r (time_key E (cOp f) (cValue f)) = None"
    and "snd (eval_leaf E R (Some r) f) = Some r1"
  shows "leaf_value (E\<lparr>e_now := t\<rparr>) R (rc_elapse R n r1) f
     = Compare (TimeV (if n < 60 then e_now E else t)) (cOp f) v"
  by (rule redis_server.time_leaf_expiry [OF assms])

text \<open>At 18:30 the leaf is true; a minute later it still is until the entry expires.\<close>

definition demo_cached :: mem where
  "demo_cached = the (snd (eval_leaf (demo_env 18 30) mem_redis (Some demo_server) demo_time))"

lemma demo_cached_run:
  "mem_view demo_server (time_key (demo_env 18 30) (cOp demo_time) (cValue demo_time)) = None"
  "snd (eval_leaf (demo_env 18 30) mem_redis (Some demo_server) demo_time) = Some demo_cached"
proof -
  have k: "map_of demo_server (time_key E op v) = None" for E op v
    by (simp add: demo_server_def time_key_def)
  then show "mem_view demo_server (time_key (demo_env 18 30) (cOp demo_time) (cValue demo_time)) = None"
    by (simp add: mem_view_def)
  have "mem_get demo_server (time_key E op v) = Inl RNil" for E op v
    by (simp add: mem_get_def k)
  then show "snd (eval_leaf (demo_env 18 30) mem_redis (Some demo_server) demo_time) = Some demo_cached"
    by (simp add: demo_cached_def demo_time_def zero_fields_def eval_leaf_def eval_time_def mem_redis_def
        text_or_empty_def Let_def)
qed

lemma time_leaf_cached_witness:
  "leaf_value (demo_env 18 31) mem_redis (mem_elapse 59 demo_cached) demo_time
   \<and> \<not> leaf_value (demo_env 18 31) mem_redis (mem_elapse 60 demo_cached) demo_time"
proof -
  have "leaf_value ((demo_env 18 30)\<lparr>e_now := \<lparr>Hour = 18, Minute = 31\<rparr>\<rparr>) mem_redis (rc_elapse mem_redis n demo_cached) demo_time
      = Compare (TimeV (if n < 60 then e_now (demo_env 18 30) else \<lparr>Hour = 18, Minute = 31\<rparr>)) (cOp demo_time) (JStr ''18:30'')" for n
    by (rule time_leaf_cached [OF mem.redis_server_axioms _ _ demo_cached_run])
      (simp_all add: demo_time_def zero_fields_def)
  from this [of 59] this [of 60] show ?thesis
    by (simp add: mem_redis_def demo_env_def demo_time_def zero_fields_def demo_parse_1830 minute_of_day_def)
qed

end
