(* ===== verification/Updater.thy ===== *)
theory Updater
  imports Evaluator Db
begin

text \<open>
  \<open>internal/automation/updater.go\<close>: what one device state report does. The result is the
  rule ids to evaluate (the error is always nil), the Redis server, the database, and the
  database write the code leaves to a goroutine of its own.
\<close>

definition rules_key :: "string \<Rightarrow> string" where
  "rules_key d = ''device:'' @ d @ '':rules''"

text \<open>\<open>go dbConn.UpdateDeviceState(ctx, id, state)\<close>\<close>

datatype spawned = UpdateStateLater string json

definition ProcessDeviceUpdate ::
  "env \<Rightarrow> 'r redis_api \<Rightarrow> string \<Rightarrow> jmap \<Rightarrow> 'r \<Rightarrow> db \<Rightarrow> string list \<times> 'r \<times> db \<times> spawned option" where
  "ProcessDeviceUpdate E R deviceID newState r d =
     (case GetDeviceByID deviceID d of
        (Inl _, d1) \<Rightarrow>
          let newStateRaw = marshal_map newState;
              mqttTopic = ''devices/'' @ deviceID;
              (_, d2) = InsertDevice deviceID deviceID ''unknown'' mqttTopic newStateRaw d1
          in ([], r, d2, None)
      | (Inr device, d1) \<Rightarrow>
          if \<not> dev_Accepted device then ([], r, d1, None)
          else
            let lastStateRaw = text_or_empty (rc_get R r (device_key deviceID));
                lastState = (if lastStateRaw \<noteq> VText '''' then state_of E lastStateRaw else None)
            in if \<not> IsSignificantChange deviceID newState lastState then ([], r, d1, None)
               else
                 let newStateRaw = marshal_map newState;
                     r1 = snd (rc_set R (device_key deviceID) (VDoc newStateRaw) (Some 3600) r);
                     ruleIDs = (case rc_smembers R r1 (rules_key deviceID) of Inl _ \<Rightarrow> [] | Inr ms \<Rightarrow> ms)
                 in (ruleIDs, r1, d1, Some (UpdateStateLater deviceID newStateRaw)))"

lemma rules_key_eq_device_key: "rules_key d = device_key d' \<longleftrightarrow> d' = d @ '':rules''"
  by (auto simp: rules_key_def device_key_def)

lemma rules_key_inj [simp]: "rules_key d = rules_key d' \<longleftrightarrow> d = d'"
  by (simp add: rules_key_def)

lemma rules_key_neq_own [simp]: "rules_key d \<noteq> device_key d"
  by (simp add: rules_key_eq_device_key)

section \<open>Properties\<close>

context redis_server begin

lemma update_accepted:
  assumes "fst (GetDeviceByID i d) = Inr dev" and "dev_Accepted dev"
  obtains ids r' where "ProcessDeviceUpdate E R i st r d
        = (ids, r', tick d, Some (UpdateStateLater i (marshal_map st)))"
    and "distinct ids" and "set ids = key_members (view r) (rules_key i)"
    and "view r' = (view r)(device_key i \<mapsto> (RStr (VDoc (marshal_map st)), Some 3600))"
proof -
  let ?r1 = "snd (rc_set R (device_key i) (VDoc (marshal_map st)) (Some 3600) r)"
  let ?ids = "case rc_smembers R ?r1 (rules_key i) of Inl _ \<Rightarrow> [] | Inr ms \<Rightarrow> ms"
  have get: "GetDeviceByID i d = (Inr dev, tick d)"
    using assms(1) by (simp add: prod_eq_iff)
  have v: "view ?r1 = (view r)(device_key i \<mapsto> (RStr (VDoc (marshal_map st)), Some 3600))"
    by (simp add: set_view)
  have same: "view ?r1 (rules_key i) = view r (rules_key i)" unfolding v by simp
  have "distinct ?ids \<and> set ?ids = key_members (view r) (rules_key i)"
  proof (cases "holds_string (view ?r1) (rules_key i)")
    case True
    with smembers_string have "rc_smembers R ?r1 (rules_key i) = Inl RWrongType" by blast
    moreover from True same have "key_members (view r) (rules_key i) = {}"
      by (auto simp: holds_string_def key_string_def key_members_def split: option.splits rval.splits)
    ultimately show ?thesis by simp
  next
    case False
    from smembers_set [OF this] obtain ms where "rc_smembers R ?r1 (rules_key i) = Inr ms" "distinct ms"
      "set ms = key_members (view ?r1) (rules_key i)" by blast
    then show ?thesis by (simp add: key_members_def same)
  qed
  moreover have "ProcessDeviceUpdate E R i st r d = (?ids, ?r1, tick d, Some (UpdateStateLater i (marshal_map st)))"
    using get assms(2) by (simp add: ProcessDeviceUpdate_def IsSignificantChange_def Let_def)
  ultimately show thesis using that v by blast
qed

lemma update_string_rules:
  assumes "holds_string (view r) (rules_key i)"
  shows "fst (ProcessDeviceUpdate E R i st r d) = []"
proof -
  have "holds_string (view (snd (rc_set R (device_key i) x ttl r))) (rules_key i)" for x ttl
    using assms by (simp add: set_view holds_string_def key_string_def)
  from smembers_string [OF this] show ?thesis
    by (simp add: ProcessDeviceUpdate_def Let_def case_prod_unfold split: sum.split)
qed

lemma leaf_of_stored_state:
  assumes "cType f = ''sensor'' \<or> cType f = ''device''" and "cValue f = Some v"
    and "view r (device_key (cDeviceID f)) = Some (RStr (VDoc (marshal_map st)), ttl)" and "jmap_ok st"
  shows "leaf_value E R r f = Compare (JV (or_nil (mget st (cKey f)))) (cOp f) v"
  using assms get_string [OF assms(3)]
  by (auto simp: leaf_value_def eval_leaf_def eval_device_def text_or_empty_def state_of_def reply_raw_def Let_def)

end

definition demo_lamp :: "bool \<Rightarrow> device" where
  "demo_lamp accepted = \<lparr>dev_ID = ''lamp'', dev_Name = ''lamp'', dev_Type = ''unknown'', dev_State = None,
     dev_MQTTTopic = ''devices/lamp'', dev_Accepted = accepted, dev_OwnerID = None\<rparr>"

lemma demo_lamp_accepted [simp]: "dev_Accepted (demo_lamp accepted) = accepted"
  by (simp add: demo_lamp_def)

lemma demo_members: "key_members (mem_view demo_server) (rules_key ''lamp'') = {''7''}"
  by (simp add: demo_server_def mem_view_def mem_val_def key_members_def rules_key_def)

lemma demo_lamp_get:
  "fst (GetDeviceByID ''lamp'' (demo_db rules schedules [demo_lamp accepted])) = Inr (demo_lamp accepted)"
  by (simp add: GetDeviceByID_def query_row_up) (simp add: demo_db_def demo_lamp_def)

text \<open>
  C33: a report of a device that nobody accepted, or that cannot be read from the database, has
  no effect on the automation: nothing is written to Redis, no rule is to be evaluated, no
  state is written back. The tables stay as they are, except that one row may be appended to the
  devices: that of the reporting device under an id the table does not have yet, not accepted and
  without an owner.
\<close>

theorem unaccepted_reports_ignored:
  assumes "case fst (GetDeviceByID i d) of Inl _ \<Rightarrow> True | Inr dev \<Rightarrow> \<not> dev_Accepted dev"
  shows "\<exists>d'. ProcessDeviceUpdate E R i st r d = ([], r, d', None)
    \<and> (t_devices d' = t_devices d
        \<or> i \<notin> dev_ID ` set (t_devices d) \<and> (\<exists>dev. t_devices d' = t_devices d @ [dev]
            \<and> dev_ID dev = i \<and> \<not> dev_Accepted dev \<and> dev_OwnerID dev = None \<and> dev_State dev = Some (marshal_map st)))
    \<and> t_rules d' = t_rules d \<and> t_schedules d' = t_schedules d \<and> t_users d' = t_users d \<and> t_history d' = t_history d"
proof -
  obtain res where get: "GetDeviceByID i d = (res, tick d)" by (metis prod.collapse read_only(3))
  show ?thesis
  proof (cases res)
    case (Inl x)
    then show ?thesis
      using get by (auto simp: ProcessDeviceUpdate_def Let_def InsertDevice_def exec_def split: outcome.split)
  next
    case (Inr dev)
    with get assms show ?thesis by (simp add: ProcessDeviceUpdate_def)
  qed
qed

lemma unaccepted_reports_ignored_witness:
  "\<exists>d'. ProcessDeviceUpdate (demo_env 18 30) mem_redis ''lamp'' (Some [(''level'', JNum 9)]) demo_server
      (demo_db [] [] [demo_lamp False]) = ([], demo_server, d', None)"
  using unaccepted_reports_ignored [of "''lamp''" "demo_db [] [] [demo_lamp False]" "demo_env 18 30" mem_redis
      "Some [(''level'', JNum 9)]" demo_server]
  by (simp add: demo_lamp_get) blast

text \<open>
  a report of an accepted device is stored under its key for an hour, leaves every other
  key alone, is handed to the database, and yields exactly the rules associated with the
  device, each once.
\<close>

theorem accepted_report:
  assumes "redis_server R view" and "fst (GetDeviceByID i d) = Inr dev" and "dev_Accepted dev"
  shows "\<exists>ids r'. ProcessDeviceUpdate E R i st r d = (ids, r', tick d, Some (UpdateStateLater i (marshal_map st)))
    \<and> distinct ids \<and> set ids = key_members (view r) (rules_key i)
    \<and> view r' = (view r)(device_key i \<mapsto> (RStr (VDoc (marshal_map st)), Some 3600))"
  by (rule redis_server.update_accepted [OF assms, where E = E and st = st and r = r]) blast

lemma accepted_report_witness:
  "\<exists>ids r'. ProcessDeviceUpdate (demo_env 18 30) mem_redis ''lamp'' (Some [(''level'', JNum 9)]) demo_server
      (demo_db [] [] [demo_lamp True])
      = (ids, r', tick (demo_db [] [] [demo_lamp True]),
         Some (UpdateStateLater ''lamp'' (JObj [(''level'', JNum 9)])))
    \<and> set ids = {''7''}"
  using accepted_report [OF mem.redis_server_axioms demo_lamp_get, where accepted1 = True and E = "demo_env 18 30"
      and st = "Some [(''level'', JNum 9)]" and r = demo_server and rules1 = "[]" and schedules1 = "[]"]
  by (simp add: marshal_map_def demo_members) blast

text \<open>
  what a rule then compares is what the device reported: right after an accepted report,
  every sensor or device condition on it compares the reported value of its key (nil when the
  report has none) with the expected one.
\<close>

theorem report_reaches_conditions:
  assumes "redis_server R view" and "fst (GetDeviceByID (cDeviceID f) d) = Inr dev" and "dev_Accepted dev"
    and "cType f = ''sensor'' \<or> cType f = ''device''" and "cValue f = Some v" and "jmap_ok st"
  shows "leaf_value E R (fst (snd (ProcessDeviceUpdate E0 R (cDeviceID f) st r d))) f
     = Compare (JV (or_nil (mget st (cKey f)))) (cOp f) v"
proof (rule redis_server.update_accepted [OF assms(1-3), where E = E0 and st = st and r = r])
  fix ids r'
  assume "ProcessDeviceUpdate E0 R (cDeviceID f) st r d
        = (ids, r', tick d, Some (UpdateStateLater (cDeviceID f) (marshal_map st)))"
    and "view r' = (view r)(device_key (cDeviceID f) \<mapsto> (RStr (VDoc (marshal_map st)), Some 3600))"
  then show ?thesis
    using redis_server.leaf_of_stored_state [OF assms(1,4,5), of r' st "Some 3600"] assms(6) by simp
qed

lemma report_reaches_conditions_witness:
  "leaf_value (demo_env 18 30) mem_redis
     (fst (snd (ProcessDeviceUpdate (demo_env 18 30) mem_redis (cDeviceID demo_level)
        (Some [(''level'', JNum 2)]) demo_server (demo_db [] [] [demo_lamp True])))) demo_level = False"
  using report_reaches_conditions [OF mem.redis_server_axioms, of demo_level "demo_db [] [] [demo_lamp True]"
      "demo_lamp True" "JNum 3" "Some [(''level'', JNum 2)]" "demo_env 18 30" "demo_env 18 30" demo_server]
  by (simp add: demo_level_def zero_fields_def demo_lamp_get jmap_ok_def or_nil_def)

text \<open>
  the keys of device states and of rule sets overlap: once an accepted device whose id ends
  in \<open>:rules\<close> has reported, the device its id names before that suffix is cut off from its
  rules, and none of its own reports triggers anything.
\<close>

theorem rules_suffix_hides_rules:
  assumes "redis_server R view" and "fst (GetDeviceByID (i @ '':rules'') d) = Inr dev" and "dev_Accepted dev"
  shows "fst (ProcessDeviceUpdate E' R i st' (fst (snd (ProcessDeviceUpdate E R (i @ '':rules'') st r d))) d') = []"
proof (rule redis_server.update_accepted [OF assms, where E = E and st = st and r = r])
  fix ids r'
  assume run: "ProcessDeviceUpdate E R (i @ '':rules'') st r d
        = (ids, r', tick d, Some (UpdateStateLater (i @ '':rules'') (marshal_map st)))"
    and "view r' = (view r)(device_key (i @ '':rules'') \<mapsto> (RStr (VDoc (marshal_map st)), Some 3600))"
  then have "holds_string (view r') (rules_key i)"
    by (simp add: holds_string_def key_string_def rules_key_eq_device_key [THEN iffD2])
  from redis_server.update_string_rules [OF assms(1) this] run show ?thesis by simp
qed

lemma rules_suffix_hides_rules_witness:
  "let dev = (demo_lamp True)\<lparr>dev_ID := ''lamp:rules''\<rparr>; d = demo_db [] [] [dev] in
   fst (ProcessDeviceUpdate (demo_env 18 30) mem_redis ''lamp'' None
     (fst (snd (ProcessDeviceUpdate (demo_env 18 30) mem_redis ''lamp:rules'' None demo_server d)))
     (demo_db [] [] [demo_lamp True])) = []"
proof -
  have "fst (GetDeviceByID (''lamp'' @ '':rules'') (demo_db [] [] [(demo_lamp True)\<lparr>dev_ID := ''lamp:rules''\<rparr>]))
      = Inr ((demo_lamp True)\<lparr>dev_ID := ''lamp:rules''\<rparr>)"
    by (simp add: GetDeviceByID_def query_row_up) (simp add: demo_db_def)
  from rules_suffix_hides_rules [OF mem.redis_server_axioms this, where E' = "demo_env 18 30" and E = "demo_env 18 30"
      and st' = None and st = None and r = demo_server and d' = "demo_db [] [] [demo_lamp True]"]
  show ?thesis by (simp add: Let_def demo_lamp_def)
qed

end
