(* ===== verification/Conflicts.thy ===== *)
theory Conflicts
  imports Executor
begin

text \<open>
  The conflict resolution of \<open>internal/taskqueue/tasks.go\<close>: collecting the actions of a rule,
  the device attributes they touch, and choosing one value per attribute. Rule ids are Go
  strings, so their order is that of strings.
\<close>

record pending =
  pRuleID :: string
  pDeviceID :: string
  pParams :: jmap

record target =
  tDeviceID :: string
  tKey :: string

fun collect_actions :: "string \<Rightarrow> action list \<Rightarrow> pending list" where
  "collect_actions ruleID [] = []"
| "collect_actions ruleID (a # as) =
     (if aDeviceID a = '''' then collect_actions ruleID as
      else (case unmarshal_map (aParams a) of
              None \<Rightarrow> collect_actions ruleID as
            | Some params \<Rightarrow>
                \<lparr>pRuleID = ruleID, pDeviceID = aDeviceID a, pParams = params\<rparr>
                # collect_actions ruleID as))"

definition collectPendingActions :: "string \<Rightarrow> raw \<Rightarrow> pending list" where
  "collectPendingActions ruleID actionsJSON =
     (case unmarshal_actions actionsJSON of None \<Rightarrow> [] | Some actions \<Rightarrow> collect_actions ruleID actions)"

text \<open>The targets are the keys of a map; \<open>iter\<close> is the order Go visits it in.\<close>

definition extractActionTargets :: "(target list \<Rightarrow> target list) \<Rightarrow> pending list \<Rightarrow> target list" where
  "extractActionTargets iter actions =
     iter (remdups (concat (map (\<lambda>a. map (\<lambda>(k, v). \<lparr>tDeviceID = pDeviceID a, tKey = k\<rparr>)
                                         (mentries (pParams a))) actions)))"

text \<open>The conflict map: device, attribute, then the rule that won so far and its value.\<close>

type_synonym conflict_attrs = "(string, string \<times> json) gomap"
type_synonym conflict_map = "(string, conflict_attrs) gomap"

definition resolve_param :: "string \<Rightarrow> string \<times> json \<Rightarrow> conflict_attrs \<Rightarrow> conflict_attrs" where
  "resolve_param ruleID kv attrs =
     (case kv of (key, value) \<Rightarrow>
        (case map_of attrs key of
           None \<Rightarrow> AList.update key (ruleID, value) attrs
         | Some (existing, _) \<Rightarrow>
             if ruleID < existing then AList.update key (ruleID, value) attrs else attrs))"

definition resolve_action :: "pending \<Rightarrow> conflict_map \<Rightarrow> conflict_map" where
  "resolve_action a m =
     (let attrs = (case map_of m (pDeviceID a) of None \<Rightarrow> [] | Some attrs \<Rightarrow> attrs)
      in AList.update (pDeviceID a) (fold (resolve_param (pRuleID a)) (mentries (pParams a)) attrs) m)"

definition build_resolved :: "conflict_map \<Rightarrow> resolved" where
  "build_resolved m = map (\<lambda>(deviceID, attrs). (deviceID, map (\<lambda>(key, entry). (key, snd entry)) attrs)) m"

definition resolveConflicts :: "pending list \<Rightarrow> target list \<Rightarrow> resolved" where
  "resolveConflicts pendingActions targets = build_resolved (fold resolve_action pendingActions [])"

section \<open>What is chosen\<close>

text \<open>The bids for one attribute of one device: rule and value, in the order of the actions.\<close>

definition action_bids :: "string \<Rightarrow> string \<Rightarrow> pending \<Rightarrow> (string \<times> json) list" where
  "action_bids d k a =
     (if pDeviceID a = d then (case mget (pParams a) k of None \<Rightarrow> [] | Some v \<Rightarrow> [(pRuleID a, v)]) else [])"

definition bids :: "string \<Rightarrow> string \<Rightarrow> pending list \<Rightarrow> (string \<times> json) list" where
  "bids d k as = concat (map (action_bids d k) as)"

text \<open>The winning bid: the first among those with the least rule id.\<close>

fun winner :: "(string \<times> json) option \<Rightarrow> (string \<times> json) list \<Rightarrow> (string \<times> json) option" where
  "winner w [] = w"
| "winner None (b # bs) = winner (Some b) bs"
| "winner (Some w) (b # bs) = winner (Some (if fst b < fst w then b else w)) bs"

definition pending_ok :: "pending list \<Rightarrow> bool" where
  "pending_ok as \<longleftrightarrow> (\<forall>a \<in> set as. jmap_ok (pParams a))"

lemma collect_actions_ok: "pending_ok (collect_actions i as)"
  by (induction i as rule: collect_actions.induct)
    (auto simp: pending_ok_def unmarshal_map_ok split: option.splits)

lemma collectPendingActions_ok [simp]: "pending_ok (collectPendingActions i r)"
  by (simp add: collectPendingActions_def collect_actions_ok split: option.split)
     (simp add: pending_ok_def)

lemma collectPendingActions_rule: "a \<in> set (collectPendingActions i r) \<Longrightarrow> pRuleID a = i"
proof -
  have "a \<in> set (collect_actions i as) \<Longrightarrow> pRuleID a = i" for as
    by (induction i as rule: collect_actions.induct) (auto split: option.splits if_splits)
  then show "a \<in> set (collectPendingActions i r) \<Longrightarrow> pRuleID a = i"
    by (auto simp: collectPendingActions_def split: option.splits)
qed

lemma winner_append: "winner w (xs @ ys) = winner (winner w xs) ys"
  by (induction w xs rule: winner.induct) auto

lemma winner_None_iff: "winner w bs = None \<longleftrightarrow> w = None \<and> bs = []"
  by (induction w bs rule: winner.induct) auto

lemma winner_in: "winner w bs = Some b \<Longrightarrow> w = Some b \<or> b \<in> set bs"
  by (induction w bs rule: winner.induct) (auto split: if_splits)

lemma winner_least:
  "winner w bs = Some b \<Longrightarrow> (\<forall>c \<in> set bs. fst b \<le> fst c) \<and> (\<forall>c. w = Some c \<longrightarrow> fst b \<le> fst c)"
  by (induction w bs arbitrary: b rule: winner.induct) (fastforce split: if_splits)+

lemma map_of_resolve_param:
  "map_of (resolve_param i (k', v) attrs) k =
     (if k' = k then winner (map_of attrs k) [(i, v)] else map_of attrs k)"
  by (auto simp: resolve_param_def split: option.split prod.split)

lemma map_of_fold_resolve_param:
  "distinct (map fst kvs) \<Longrightarrow>
     map_of (fold (resolve_param i) kvs attrs) k =
       (case map_of kvs k of None \<Rightarrow> map_of attrs k | Some v \<Rightarrow> winner (map_of attrs k) [(i, v)])"
proof (induction kvs arbitrary: attrs)
  case Nil
  then show ?case by simp
next
  case (Cons x kvs)
  obtain k' v where x: "x = (k', v)" by (cases x)
  from Cons.prems x have fresh: "map_of kvs k' = None" and "distinct (map fst kvs)"
    by (auto simp: map_of_eq_None_iff_key)
  with Cons.IH show ?case
    by (simp add: x map_of_resolve_param split: option.split)
qed

definition entry_of :: "conflict_map \<Rightarrow> string \<Rightarrow> string \<Rightarrow> (string \<times> json) option" where
  "entry_of m d k = (case map_of m d of None \<Rightarrow> None | Some attrs \<Rightarrow> map_of attrs k)"

lemma entry_of_resolve_action:
  assumes "jmap_ok (pParams a)"
  shows "entry_of (resolve_action a m) d k = winner (entry_of m d k) (action_bids d k a)"
  using assms
  by (cases "pParams a")
    (auto simp: entry_of_def resolve_action_def Let_def action_bids_def mentries_def jmap_ok_def
      map_of_fold_resolve_param split: option.split)

lemma entry_of_fold:
  "pending_ok as \<Longrightarrow> entry_of (fold resolve_action as m) d k = winner (entry_of m d k) (bids d k as)"
proof (induction as arbitrary: m)
  case Nil
  then show ?case by (simp add: bids_def)
next
  case (Cons a as)
  then show ?case
    by (simp add: pending_ok_def bids_def winner_append entry_of_resolve_action)
qed

lemma value_of_build: "value_of (build_resolved m) d k = map_option snd (entry_of m d k)"
  by (induction m) (auto simp: value_of_def build_resolved_def entry_of_def map_of_map_values)

theorem value_of_resolveConflicts:
  "pending_ok as \<Longrightarrow> value_of (resolveConflicts as ts) d k = map_option snd (winner None (bids d k as))"
  by (simp add: resolveConflicts_def value_of_build entry_of_fold) (simp add: entry_of_def)

section \<open>Shape of the result\<close>

lemma distinct_resolve_param: "distinct (map fst attrs) \<Longrightarrow> distinct (map fst (resolve_param i kv attrs))"
  by (auto simp: resolve_param_def split: prod.split option.split)

lemma distinct_fold_resolve_param:
  "distinct (map fst attrs) \<Longrightarrow> distinct (map fst (fold (resolve_param i) kvs attrs))"
  by (induction kvs arbitrary: attrs) (simp_all add: distinct_resolve_param)

definition conflict_ok :: "conflict_map \<Rightarrow> bool" where
  "conflict_ok m \<longleftrightarrow> distinct (map fst m) \<and> (\<forall>d attrs. map_of m d = Some attrs \<longrightarrow> distinct (map fst attrs))"

lemma conflict_ok_resolve_action: "conflict_ok m \<Longrightarrow> conflict_ok (resolve_action a m)"
  by (auto simp: conflict_ok_def resolve_action_def Let_def distinct_fold_resolve_param split: option.splits)

lemma conflict_ok_fold: "conflict_ok m \<Longrightarrow> conflict_ok (fold resolve_action as m)"
  by (induction as arbitrary: m) (simp_all add: conflict_ok_resolve_action)

lemma keys_fold_resolve_action:
  "fst ` set (fold resolve_action as m) = fst ` set m \<union> pDeviceID ` set as"
  by (induction as arbitrary: m) (auto simp: resolve_action_def Let_def dom_update)

lemma map_fst_build: "map fst (build_resolved m) = map fst m"
  by (simp add: build_resolved_def case_prod_unfold comp_def)

lemma resolveConflicts_devices: "fst ` set (resolveConflicts as ts) = pDeviceID ` set as"
proof -
  have "fst ` set (build_resolved m) = fst ` set m" for m
    by (metis list.set_map map_fst_build)
  then show ?thesis by (simp add: resolveConflicts_def keys_fold_resolve_action)
qed

lemma resolveConflicts_distinct: "distinct (map fst (resolveConflicts as ts))"
proof -
  have "conflict_ok (fold resolve_action as [])" by (rule conflict_ok_fold) (simp add: conflict_ok_def)
  then show ?thesis by (simp add: resolveConflicts_def map_fst_build conflict_ok_def)
qed

lemma resolveConflicts_params_distinct:
  assumes "(d, params) \<in> set (resolveConflicts as ts)"
  shows "distinct (map fst params)"
proof -
  let ?m = "fold resolve_action as []"
  have ok: "conflict_ok ?m" by (rule conflict_ok_fold) (simp add: conflict_ok_def)
  from assms obtain attrs where "(d, attrs) \<in> set ?m"
    and params: "params = map (\<lambda>(key, entry). (key, snd entry)) attrs"
    by (auto simp: resolveConflicts_def build_resolved_def)
  with ok have "distinct (map fst attrs)"
    by (auto simp: conflict_ok_def)
  then show ?thesis by (simp add: params case_prod_unfold comp_def)
qed

section \<open>Targets\<close>

definition touches :: "pending \<Rightarrow> target \<Rightarrow> bool" where
  "touches a t \<longleftrightarrow> pDeviceID a = tDeviceID t \<and> mget (pParams a) (tKey t) \<noteq> None"

lemma mentries_key_iff: "k \<in> fst ` set (mentries m) \<longleftrightarrow> mget m k \<noteq> None"
  by (cases m) (auto simp: mentries_def map_of_eq_None_iff_key)

lemma extractActionTargets_set:
  assumes "visit_order iter"
  shows "set (extractActionTargets iter as) = {t. \<exists>a \<in> set as. touches a t}"
proof -
  have "set (extractActionTargets iter as)
      = (\<Union>a \<in> set as. {\<lparr>tDeviceID = pDeviceID a, tKey = k\<rparr> |k. k \<in> fst ` set (mentries (pParams a))})"
    by (force simp: extractActionTargets_def visit_order_set [OF assms])
  also have "\<dots> = {t. \<exists>a \<in> set as. touches a t}"
    unfolding mentries_key_iff touches_def by (auto intro: target.equality) (metis target.surjective old.unit.exhaust)
  finally show ?thesis .
qed

section \<open>Properties\<close>

lemma in_action_bids:
  "b \<in> set (action_bids d k a) \<longleftrightarrow>
     pDeviceID a = d \<and> fst b = pRuleID a \<and> mget (pParams a) k = Some (snd b)"
proof (cases "pDeviceID a = d \<and> mget (pParams a) k \<noteq> None")
  case True
  then obtain v where "mget (pParams a) k = Some v" and "action_bids d k a = [(pRuleID a, v)]"
    by (auto simp: action_bids_def)
  with True show ?thesis by (cases b) auto
next
  case False
  then have "action_bids d k a = []" by (auto simp: action_bids_def)
  with False show ?thesis by auto
qed

lemma action_bids_empty: "action_bids d k a = [] \<longleftrightarrow> \<not> (pDeviceID a = d \<and> mget (pParams a) k \<noteq> None)"
  by (simp add: action_bids_def split: option.split)

lemma in_bids:
  "b \<in> set (bids d k as) \<longleftrightarrow>
     (\<exists>a \<in> set as. pDeviceID a = d \<and> fst b = pRuleID a \<and> mget (pParams a) k = Some (snd b))"
  by (simp add: bids_def in_action_bids)

definition sets_attr :: "string \<Rightarrow> string \<Rightarrow> pending \<Rightarrow> bool" where
  "sets_attr d k a \<longleftrightarrow> pDeviceID a = d \<and> mget (pParams a) k \<noteq> None"

lemma winner_of_bids:
  assumes "winner None (bids d k as) = Some b"
  obtains a where "a \<in> set as" and "sets_attr d k a" and "pRuleID a = fst b" and "mget (pParams a) k = Some (snd b)"
    and "\<And>c. c \<in> set as \<Longrightarrow> sets_attr d k c \<Longrightarrow> fst b \<le> pRuleID c"
proof -
  from winner_in [OF assms] have "b \<in> set (bids d k as)" by simp
  then obtain a where a: "a \<in> set as" "pDeviceID a = d" "mget (pParams a) k = Some (snd b)" "pRuleID a = fst b"
    by (auto simp: in_bids)
  from winner_least [OF assms] have "\<forall>c \<in> set (bids d k as). fst b \<le> fst c" by simp
  then have "fst b \<le> pRuleID c" if "c \<in> set as" "sets_attr d k c" for c
  proof -
    from that(2) obtain v where "pDeviceID c = d" "mget (pParams c) k = Some v" by (auto simp: sets_attr_def)
    with that(1) have "(pRuleID c, v) \<in> set (bids d k as)" by (auto simp: in_bids)
    with \<open>\<forall>c \<in> set (bids d k as). fst b \<le> fst c\<close> show ?thesis by fastforce
  qed
  with a show thesis by (intro that) (auto simp: sets_attr_def)
qed

lemma bids_empty: "bids d k as = [] \<longleftrightarrow> (\<forall>a \<in> set as. \<not> sets_attr d k a)"
  by (simp add: bids_def action_bids_empty sets_attr_def concat_eq_Nil_conv)

lemma value_of_least:
  assumes "pending_ok as" and "a \<in> set as" and "sets_attr d k a"
  obtains c where "c \<in> set as" and "sets_attr d k c" and "value_of (resolveConflicts as ts) d k = mget (pParams c) k"
    and "\<And>x. x \<in> set as \<Longrightarrow> sets_attr d k x \<Longrightarrow> pRuleID c \<le> pRuleID x"
proof (cases "winner None (bids d k as)")
  case None
  with assms(2,3) show thesis by (auto simp: winner_None_iff bids_empty)
next
  case (Some b)
  then obtain c where "c \<in> set as" "sets_attr d k c" "pRuleID c = fst b" "mget (pParams c) k = Some (snd b)"
    "\<And>x. x \<in> set as \<Longrightarrow> sets_attr d k x \<Longrightarrow> fst b \<le> pRuleID x"
    by (rule winner_of_bids) blast
  with Some that show thesis by (simp add: value_of_resolveConflicts [OF assms(1)])
qed

text \<open>
  for every attribute of every device, conflict resolution picks the value of an action
  that sets it and whose rule id is least in the order of Go strings, and sets nothing that no
  action sets; the list of targets it is given plays no part.
\<close>

theorem resolveConflicts_least:
  assumes "pending_ok as"
  shows "case value_of (resolveConflicts as ts) d k of
      None \<Rightarrow> filter (sets_attr d k) as = []
    | Some v \<Rightarrow> \<exists>a \<in> set (filter (sets_attr d k) as). mget (pParams a) k = Some v
        \<and> list_all (\<lambda>c. pRuleID a \<le> pRuleID c) (filter (sets_attr d k) as)"
proof (cases "winner None (bids d k as)")
  case None
  then have "filter (sets_attr d k) as = []" by (simp add: winner_None_iff bids_empty filter_empty_conv)
  with None show ?thesis by (simp add: value_of_resolveConflicts [OF assms])
next
  case (Some b)
  then obtain a where "a \<in> set as" "sets_attr d k a" "pRuleID a = fst b" "mget (pParams a) k = Some (snd b)"
    "\<And>c. c \<in> set as \<Longrightarrow> sets_attr d k c \<Longrightarrow> fst b \<le> pRuleID c"
    by (rule winner_of_bids) blast
  with assms Some show ?thesis
    by (auto simp: value_of_resolveConflicts list_all_iff)
qed

definition demo_pending :: "pending list" where
  "demo_pending =
     [\<lparr>pRuleID = ''9'', pDeviceID = ''lamp'', pParams = Some [(''on'', JBool False), (''level'', JNum 3)]\<rparr>,
      \<lparr>pRuleID = ''10'', pDeviceID = ''lamp'', pParams = Some [(''on'', JBool True)]\<rparr>]"

lemma demo_pending_ok: "pending_ok demo_pending"
  by (simp add: pending_ok_def demo_pending_def jmap_ok_def)

lemma resolveConflicts_least_witness:
  "case value_of (resolveConflicts demo_pending []) ''lamp'' ''on'' of
     None \<Rightarrow> filter (sets_attr ''lamp'' ''on'') demo_pending = []
   | Some v \<Rightarrow> \<exists>a \<in> set (filter (sets_attr ''lamp'' ''on'') demo_pending). mget (pParams a) ''on'' = Some v
       \<and> list_all (\<lambda>c. pRuleID a \<le> pRuleID c) (filter (sets_attr ''lamp'' ''on'') demo_pending)"
  by (rule resolveConflicts_least [OF demo_pending_ok])

text \<open>
  what is decided does not depend on the order the rules come in from the database, as long
  as no two actions of one rule set the same attribute: any rearrangement of the pending
  actions gives every attribute the same value.
\<close>

theorem resolveConflicts_order:
  assumes "pending_ok as" and "mset as' = mset as"
    and "distinct (map pRuleID (filter (sets_attr d k) as))"
  shows "value_of (resolveConflicts as' ts') d k = value_of (resolveConflicts as ts) d k"
proof -
  from assms(2) have same: "set as' = set as" by (metis set_mset_mset)
  with assms(1) have ok': "pending_ok as'" by (simp add: pending_ok_def)
  have inj: "a = c" if "a \<in> set as" "c \<in> set as" "sets_attr d k a" "sets_attr d k c" "pRuleID a = pRuleID c" for a c
    using assms(3) that by (auto simp: distinct_map inj_on_def)
  show ?thesis
  proof (cases "winner None (bids d k as)")
    case None
    then have "\<forall>a \<in> set as. \<not> sets_attr d k a" by (simp add: winner_None_iff bids_empty)
    then have "bids d k as' = []" using same by (simp add: bids_empty)
    then have "winner None (bids d k as') = None" by simp
    with None show ?thesis
      by (simp only: value_of_resolveConflicts [OF assms(1)] value_of_resolveConflicts [OF ok'])
  next
    case (Some b)
    then obtain a where a: "a \<in> set as" "sets_attr d k a" "pRuleID a = fst b" "mget (pParams a) k = Some (snd b)"
      "\<And>c. c \<in> set as \<Longrightarrow> sets_attr d k c \<Longrightarrow> fst b \<le> pRuleID c"
      by (rule winner_of_bids) blast
    from a(1,2) same have "bids d k as' \<noteq> []" by (auto simp: bids_empty)
    then obtain b' where Some': "winner None (bids d k as') = Some b'"
      using winner_None_iff [of None "bids d k as'"] by (cases "winner None (bids d k as')") auto
    then obtain a' where a': "a' \<in> set as'" "sets_attr d k a'" "pRuleID a' = fst b'" "mget (pParams a') k = Some (snd b')"
      "\<And>c. c \<in> set as' \<Longrightarrow> sets_attr d k c \<Longrightarrow> fst b' \<le> pRuleID c"
      by (rule winner_of_bids) blast
    from a a' same have "pRuleID a = pRuleID a'" by (metis antisym)
    with inj a a' same have "a = a'" by auto
    with a(4) a'(4) have "snd b = snd b'" by simp
    with Some Some' show ?thesis
      by (simp only: value_of_resolveConflicts [OF assms(1)] value_of_resolveConflicts [OF ok'] option.map)
  qed
qed

lemma resolveConflicts_order_witness:
  "value_of (resolveConflicts (rev demo_pending) []) ''lamp'' ''on''
     = value_of (resolveConflicts demo_pending []) ''lamp'' ''on''"
  by (rule resolveConflicts_order [OF demo_pending_ok]) (simp_all add: demo_pending_def sets_attr_def)

text \<open>
  the order is that of the id texts and not of the numbers: between rules 9 and 10, rule 10
  decides every attribute both of them set, whichever comes first.
\<close>

theorem ten_beats_nine:
  "value_of (resolveConflicts
      [\<lparr>pRuleID = ''9'', pDeviceID = d, pParams = Some [(k, v)]\<rparr>,
       \<lparr>pRuleID = ''10'', pDeviceID = d, pParams = Some [(k, w)]\<rparr>] ts) d k = Some w
   \<and> value_of (resolveConflicts
      [\<lparr>pRuleID = ''10'', pDeviceID = d, pParams = Some [(k, w)]\<rparr>,
       \<lparr>pRuleID = ''9'', pDeviceID = d, pParams = Some [(k, v)]\<rparr>] ts) d k = Some w"
  by (simp add: value_of_resolveConflicts pending_ok_def jmap_ok_def bids_def action_bids_def
      less_char_def)

end
