(* ===== verification/Taskqueue.thy ===== *)
theory Taskqueue
  imports Updater Conflicts
begin

text \<open>
  \<open>internal/taskqueue/tasks.go\<close>: the two task handlers of the queue and what they enqueue.

  The queue (asynq) is not part of the repository: the model keeps the tasks it accepted, in
  order, and \<open>q_ok n\<close> says whether it accepts the \<open>n\<close>-th \<open>Enqueue\<close>. The global
  instances (database, Redis, MQTT client) are the arguments of the handlers.
\<close>

section \<open>Tasks\<close>

record task =
  taskType :: string
  taskPayload :: raw
  taskMaxRetry :: nat
  taskTimeout :: nat

record queue =
  q_tasks :: "task list"
  q_calls :: nat
  q_ok :: "nat \<Rightarrow> bool"

record DeviceUpdateTaskPayload =
  dutDeviceID :: string
  dutState :: jmap

record EvaluationTaskPayload =
  etRuleID :: string
  etUpdatedDeviceID :: string

definition marshal_dut :: "DeviceUpdateTaskPayload \<Rightarrow> json" where
  "marshal_dut p = JObj [(''DeviceID'', JStr (dutDeviceID p)), (''State'', marshal_map (dutState p))]"

definition marshal_et :: "EvaluationTaskPayload \<Rightarrow> json" where
  "marshal_et p = JObj [(''RuleID'', JStr (etRuleID p)), (''UpdatedDeviceID'', JStr (etUpdatedDeviceID p))]"

text \<open>Decoding an object into a map adds to the entries the map already has.\<close>

fun dec_map :: "jmap \<Rightarrow> json \<Rightarrow> jmap option" where
  "dec_map old JNull = Some None"
| "dec_map old (JObj kvs) = Some (Some (fold (\<lambda>(k, v) m. AList.update k v m) kvs (mentries old)))"
| "dec_map old _ = None"

definition dec_dut_field :: "DeviceUpdateTaskPayload \<Rightarrow> string \<Rightarrow> json \<Rightarrow> DeviceUpdateTaskPayload option" where
  "dec_dut_field p k j =
     (if field_is k ''DeviceID'' then map_option (\<lambda>s. p\<lparr>dutDeviceID := s\<rparr>) (dec_string (dutDeviceID p) j)
      else if field_is k ''State'' then map_option (\<lambda>m. p\<lparr>dutState := m\<rparr>) (dec_map (dutState p) j)
      else Some p)"

definition dec_et_field :: "EvaluationTaskPayload \<Rightarrow> string \<Rightarrow> json \<Rightarrow> EvaluationTaskPayload option" where
  "dec_et_field p k j =
     (if field_is k ''RuleID'' then map_option (\<lambda>s. p\<lparr>etRuleID := s\<rparr>) (dec_string (etRuleID p) j)
      else if field_is k ''UpdatedDeviceID''
        then map_option (\<lambda>s. p\<lparr>etUpdatedDeviceID := s\<rparr>) (dec_string (etUpdatedDeviceID p) j)
      else Some p)"

definition unmarshal_dut :: "raw \<Rightarrow> DeviceUpdateTaskPayload option" where
  "unmarshal_dut r =
     (case r of None \<Rightarrow> None | Some j \<Rightarrow> dec_struct dec_dut_field \<lparr>dutDeviceID = '''', dutState = None\<rparr> j)"

definition unmarshal_et :: "raw \<Rightarrow> EvaluationTaskPayload option" where
  "unmarshal_et r =
     (case r of None \<Rightarrow> None | Some j \<Rightarrow> dec_struct dec_et_field \<lparr>etRuleID = '''', etUpdatedDeviceID = ''''\<rparr> j)"

definition enqueue :: "task \<Rightarrow> queue \<Rightarrow> bool \<times> queue" where
  "enqueue t q =
     (let q' = q\<lparr>q_calls := Suc (q_calls q)\<rparr> in
      if q_ok q (q_calls q) then (True, q'\<lparr>q_tasks := q_tasks q @ [t]\<rparr>) else (False, q'))"

definition update_task :: "string \<Rightarrow> jmap \<Rightarrow> task" where
  "update_task deviceID state =
     \<lparr>taskType = ''device_update'',
      taskPayload = Some (marshal_dut \<lparr>dutDeviceID = deviceID, dutState = state\<rparr>),
      taskMaxRetry = 3, taskTimeout = 10\<rparr>"

definition evaluation_task :: "string \<Rightarrow> string \<Rightarrow> task" where
  "evaluation_task ruleID updatedDeviceID =
     \<lparr>taskType = ''evaluate_rule'',
      taskPayload = Some (marshal_et \<lparr>etRuleID = ruleID, etUpdatedDeviceID = updatedDeviceID\<rparr>),
      taskMaxRetry = 3, taskTimeout = 10\<rparr>"

text \<open>The Boolean is \<open>err == nil\<close>.\<close>

definition EnqueueDeviceUpdate :: "string \<Rightarrow> jmap \<Rightarrow> queue \<Rightarrow> bool \<times> queue" where
  "EnqueueDeviceUpdate deviceID state = enqueue (update_task deviceID state)"

definition EnqueueEvaluation :: "string \<Rightarrow> string \<Rightarrow> queue \<Rightarrow> bool \<times> queue" where
  "EnqueueEvaluation ruleID updatedDeviceID = enqueue (evaluation_task ruleID updatedDeviceID)"

section \<open>Device updates\<close>

datatype task_result = TNil | TErr | TPanic

fun enqueue_evaluations :: "string \<Rightarrow> string list \<Rightarrow> queue \<Rightarrow> queue" where
  "enqueue_evaluations deviceID [] q = q"
| "enqueue_evaluations deviceID (ruleID # ruleIDs) q =
     enqueue_evaluations deviceID ruleIDs (snd (EnqueueEvaluation ruleID deviceID q))"

definition processDeviceUpdateTask ::
  "env \<Rightarrow> 'r redis_api \<Rightarrow> raw \<Rightarrow> 'r \<Rightarrow> db \<Rightarrow> queue \<Rightarrow> task_result \<times> 'r \<times> db \<times> queue \<times> spawned option" where
  "processDeviceUpdateTask E R payloadRaw r d q =
     (case unmarshal_dut payloadRaw of
        None \<Rightarrow> (TErr, r, d, q, None)
      | Some payload \<Rightarrow>
          (case ProcessDeviceUpdate E R (dutDeviceID payload) (dutState payload) r d of
             (ruleIDs, r', d', later) \<Rightarrow>
               (TNil, r', d', enqueue_evaluations (dutDeviceID payload) ruleIDs q, later)))"

section \<open>The redundancy check\<close>

text \<open>
  Comparing two \<open>interface{}\<close> values panics when both hold a slice or both hold a map.
\<close>

datatype 'a go = Ret 'a | Panic

fun iface_neq :: "json \<Rightarrow> json \<Rightarrow> bool go" where
  "iface_neq (JArr _) (JArr _) = Panic"
| "iface_neq (JObj _) (JObj _) = Panic"
| "iface_neq a b = Ret (a \<noteq> b)"

fun unmarshal_maps :: "raw \<Rightarrow> jmap list option" where
  "unmarshal_maps None = None"
| "unmarshal_maps (Some JNull) = Some []"
| "unmarshal_maps (Some (JArr js)) = those (map (\<lambda>j. unmarshal_map (Some j)) js)"
| "unmarshal_maps (Some _) = None"

fun all_fields_set :: "(string, json) gomap \<Rightarrow> jmap \<Rightarrow> bool go" where
  "all_fields_set [] currentState = Ret True"
| "all_fields_set ((field, targetValue) # rest) currentState =
     (case mget currentState field of
        None \<Rightarrow> Ret False
      | Some currentValue \<Rightarrow>
          (case iface_neq currentValue targetValue of
             Panic \<Rightarrow> Panic
           | Ret True \<Rightarrow> Ret False
           | Ret False \<Rightarrow> all_fields_set rest currentState))"

type_synonym field_order = "(string, json) gomap \<Rightarrow> (string, json) gomap"

text \<open>\<open>iter\<close> is the order in which the fields of the target state are visited.\<close>

definition redundant_action :: "env \<Rightarrow> 'r redis_api \<Rightarrow> field_order \<Rightarrow> 'r \<Rightarrow> jmap \<Rightarrow> bool go" where
  "redundant_action E R iter r action =
     (if mget action ''type'' \<noteq> Some (JStr ''device'') then Ret False
      else (case mget action ''device_id'' of
              Some (JNum deviceIDFloat) \<Rightarrow>
                (case mget action ''state'' of
                   Some (JObj kvs) \<Rightarrow>
                     let targetState = obj_map kvs;
                         stateKey = ''device:'' @ show_int (to_int64 deviceIDFloat) @ '':state''
                     in if length targetState = 0 then Ret False
                        else (case rc_get R r stateKey of
                                Inl _ \<Rightarrow> Ret False
                              | Inr currentStateJSON \<Rightarrow>
                                  (case unmarshal_map (reply_raw E currentStateJSON) of
                                     None \<Rightarrow> Ret False
                                   | Some currentState \<Rightarrow> all_fields_set (iter targetState) currentState))
                 | _ \<Rightarrow> Ret False)
            | _ \<Rightarrow> Ret False))"

fun all_redundant :: "env \<Rightarrow> 'r redis_api \<Rightarrow> field_order \<Rightarrow> 'r \<Rightarrow> jmap list \<Rightarrow> bool go" where
  "all_redundant E R iter r [] = Ret True"
| "all_redundant E R iter r (a # as) =
     (case redundant_action E R iter r a of
        Panic \<Rightarrow> Panic
      | Ret False \<Rightarrow> Ret False
      | Ret True \<Rightarrow> all_redundant E R iter r as)"

definition areAllActionsRedundant :: "env \<Rightarrow> 'r redis_api \<Rightarrow> field_order \<Rightarrow> raw \<Rightarrow> 'r \<Rightarrow> bool go" where
  "areAllActionsRedundant E R iter actionsJSON r =
     (case unmarshal_maps actionsJSON of None \<Rightarrow> Ret False | Some actions \<Rightarrow> all_redundant E R iter r actions)"

section \<open>Evaluation tasks\<close>

text \<open>\<open>EvaluateConditions\<close> with the global client, which is not nil.\<close>

definition evaluate_global :: "env \<Rightarrow> 'r redis_api \<Rightarrow> 'r \<Rightarrow> raw \<Rightarrow> bool \<times> 'r" where
  "evaluate_global E R r conditionsRaw =
     (case EvaluateConditions E R (Some r) conditionsRaw of
        (b, None) \<Rightarrow> (b, r)
      | (b, Some r') \<Rightarrow> (b, r'))"

definition hits :: "target list \<Rightarrow> pending \<Rightarrow> bool" where
  "hits targets a \<longleftrightarrow> list_ex (\<lambda>t. pDeviceID a = tDeviceID t \<and> mget (pParams a) (tKey t) \<noteq> None) targets"

fun collect_others ::
  "env \<Rightarrow> 'r redis_api \<Rightarrow> string \<Rightarrow> target list \<Rightarrow> rule list \<Rightarrow> 'r \<Rightarrow> pending list \<times> 'r" where
  "collect_others E R own targets [] r = ([], r)"
| "collect_others E R own targets (x # xs) r =
     (if \<not> rEnabled x \<or> rID x = own then collect_others E R own targets xs r
      else
        (case evaluate_global E R r (rConditions x) of
           (triggered, r1) \<Rightarrow>
             (case collect_others E R own targets xs r1 of
                (rest, r2) \<Rightarrow>
                  (if triggered
                   then (filter (hits targets) (collectPendingActions (rID x) (rActions x)) @ rest, r2)
                   else (rest, r2)))))"

record orders =
  o_fields :: field_order
  o_targets :: "target list \<Rightarrow> target list"
  o_resolved :: "resolved \<Rightarrow> resolved"

definition evaluateAndExecuteTask ::
  "env \<Rightarrow> 'r redis_api \<Rightarrow> orders \<Rightarrow> bool \<Rightarrow> raw \<Rightarrow> 'r \<Rightarrow> db \<Rightarrow> task_result \<times> publish list \<times> 'r \<times> db" where
  "evaluateAndExecuteTask E R ord client payloadRaw r d =
     (case unmarshal_et payloadRaw of
        None \<Rightarrow> (TErr, [], r, d)
      | Some payload \<Rightarrow>
          (case GetRuleByID (etRuleID payload) d of
             (Inl _, d1) \<Rightarrow> (TErr, [], r, d1)
           | (Inr rule, d1) \<Rightarrow>
               if \<not> rEnabled rule then (TNil, [], r, d1)
               else
                 (case areAllActionsRedundant E R (o_fields ord) (rActions rule) r of
                    Panic \<Rightarrow> (TPanic, [], r, d1)
                  | Ret True \<Rightarrow> (TNil, [], r, d1)
                  | Ret False \<Rightarrow>
                      (case evaluate_global E R r (rConditions rule) of
                         (result, r1) \<Rightarrow>
                           if \<not> result then (TNil, [], r1, d1)
                           else
                             let pendingActions = collectPendingActions (rID rule) (rActions rule);
                                 affectedTargets = extractActionTargets (o_targets ord) pendingActions
                             in (case GetAllRules d1 of
                                   (Inl _, d2) \<Rightarrow> (TErr, [], r1, d2)
                                 | (Inr allRules, d2) \<Rightarrow>
                                     (case collect_others E R (rID rule) affectedTargets allRules r1 of
                                        (others, r2) \<Rightarrow>
                                          let allPendingActions = others @ pendingActions;
                                              resolvedActions = resolveConflicts allPendingActions affectedTargets
                                          in if length resolvedActions > 0
                                             then (TNil, ExecuteResolvedActions (o_resolved ord) client resolvedActions, r2, d2)
                                             else (TNil, [], r2, d2)))))))"

section \<open>Laws of the queue\<close>

lemma jmap_entries_ok: "jmap_ok m \<Longrightarrow> dec_map None (marshal_map m) = Some m"
  by (cases m) (simp_all add: marshal_map_def jmap_ok_def mentries_def
      obj_map_distinct_id [unfolded obj_map_def])

lemma unmarshal_update_task:
  "jmap_ok m \<Longrightarrow>
     unmarshal_dut (taskPayload (update_task d m)) = Some \<lparr>dutDeviceID = d, dutState = m\<rparr>"
  by (simp add: unmarshal_dut_def update_task_def marshal_dut_def dec_dut_field_def field_is_def
      ascii_upper_def jmap_entries_ok)

lemma unmarshal_evaluation_task:
  "unmarshal_et (taskPayload (evaluation_task i d)) = Some \<lparr>etRuleID = i, etUpdatedDeviceID = d\<rparr>"
  by (simp add: unmarshal_et_def evaluation_task_def marshal_et_def dec_et_field_def field_is_def
      ascii_upper_def)

lemma enqueue_prefix: "\<exists>ts. q_tasks (snd (enqueue t q)) = q_tasks q @ ts \<and> set ts \<subseteq> {t}"
  by (simp add: enqueue_def Let_def)

lemma enqueue_ok [simp]:
  "\<forall>n. q_ok q n \<Longrightarrow> enqueue t q = (True, q\<lparr>q_calls := Suc (q_calls q), q_tasks := q_tasks q @ [t]\<rparr>)"
  by (simp add: enqueue_def Let_def)

lemma enqueue_evaluations_tasks:
  "\<forall>n. q_ok q n \<Longrightarrow>
     q_tasks (enqueue_evaluations d is q) = q_tasks q @ map (\<lambda>i. evaluation_task i d) is"
  by (induction d "is" q rule: enqueue_evaluations.induct) (simp_all add: EnqueueEvaluation_def)

section \<open>The redundancy check and the collected actions\<close>

text \<open>
  An action the check accepts carries a numeric \<open>device_id\<close>; the reader of the actions wants a
  string there and rejects the whole document.
\<close>

lemma map_of_obj_map_SomeD: "map_of (obj_map kvs) k = Some v \<Longrightarrow> (k, v) \<in> set kvs"
  by (auto simp: map_of_obj_map dest!: map_of_SomeD)

lemma dec_members_reject:
  "(k, j) \<in> set kvs \<Longrightarrow> (\<And>v. step v k j = None) \<Longrightarrow> dec_members step v kvs = None"
  by (induction kvs arbitrary: v) (auto split: option.splits)

lemma redundant_action_reject:
  assumes "redundant_action E R iter r (Some (obj_map kvs)) = Ret True"
  shows "dec_struct dec_action_field a (JObj kvs) = None"
proof -
  from assms obtain x where "map_of (obj_map kvs) ''device_id'' = Some (JNum x)"
    by (auto simp: redundant_action_def split: if_splits option.splits json.splits)
  then have "(''device_id'', JNum x) \<in> set kvs" by (rule map_of_obj_map_SomeD)
  then show ?thesis
    by (simp add: dec_members_reject dec_action_field_def)
qed

lemma redundant_nil_map: "redundant_action E R iter r None \<noteq> Ret True"
  by (simp add: redundant_action_def)

lemma all_redundant_reject:
  assumes "those (map (\<lambda>j. unmarshal_map (Some j)) js) = Some as" and "all_redundant E R iter r as = Ret True"
    and "js \<noteq> []"
  shows "those (map (dec_struct dec_action_field zero_action) js) = None"
proof -
  from assms(3) obtain j js' where js: "js = j # js'" by (cases js) auto
  with assms(1) obtain a as' where a: "unmarshal_map (Some j) = Some a" and "as = a # as'"
    by (auto split: option.splits)
  with assms(2) have "redundant_action E R iter r a = Ret True"
    by (auto split: go.splits bool.splits)
  with a have "dec_struct dec_action_field zero_action j = None"
    by (cases j) (auto simp: redundant_nil_map redundant_action_reject [simplified])
  then show ?thesis by (simp add: js)
qed

lemma redundant_collects_nothing:
  assumes "areAllActionsRedundant E R iter raw r = Ret True"
  shows "collectPendingActions i raw = []"
proof (cases raw rule: unmarshal_maps.cases)
  case (3 js)
  with assms show ?thesis
    by (cases "js = []")
      (auto simp: areAllActionsRedundant_def collectPendingActions_def all_redundant_reject
        split: option.splits)
qed (use assms in \<open>auto simp: areAllActionsRedundant_def collectPendingActions_def\<close>)

section \<open>What an evaluation task publishes\<close>

definition raw_leaves :: "raw \<Rightarrow> cond_fields set" where
  "raw_leaves c = (case unmarshal_condition c of None \<Rightarrow> {} | Some t \<Rightarrow> set (leaves t))"

definition holds_raw :: "env \<Rightarrow> 'r redis_api \<Rightarrow> 'r \<Rightarrow> raw \<Rightarrow> bool" where
  "holds_raw E R r c = (case unmarshal_condition c of None \<Rightarrow> False | Some t \<Rightarrow> holds (leaf_value E R r) t)"

lemma holds_raw_same:
  "same_leaves E R F r r' \<Longrightarrow> raw_leaves c \<subseteq> F \<Longrightarrow> holds_raw E R r' c = holds_raw E R r c"
  by (auto simp: holds_raw_def raw_leaves_def same_leaves_def split: option.splits
      intro!: holds_cong)

text \<open>The rules that take part besides the task's own rule.\<close>

definition triggered :: "env \<Rightarrow> 'r redis_api \<Rightarrow> 'r \<Rightarrow> string \<Rightarrow> rule \<Rightarrow> bool" where
  "triggered E R r own x \<longleftrightarrow> rEnabled x \<and> rID x \<noteq> own \<and> holds_raw E R r (rConditions x)"

definition contenders :: "env \<Rightarrow> 'r redis_api \<Rightarrow> 'r \<Rightarrow> string \<Rightarrow> target list \<Rightarrow> rule list \<Rightarrow> pending list" where
  "contenders E R r own targets xs =
     concat (map (\<lambda>x. filter (hits targets) (collectPendingActions (rID x) (rActions x)))
                 (filter (triggered E R r own) xs))"

lemma hits_iff: "hits ts a \<longleftrightarrow> (\<exists>t \<in> set ts. touches a t)"
  by (auto simp: hits_def touches_def list_ex_iff)

lemma contenders_same:
  assumes "same_leaves E R F r r'" and "\<And>x. x \<in> set xs \<Longrightarrow> raw_leaves (rConditions x) \<subseteq> F"
  shows "contenders E R r' own ts xs = contenders E R r own ts xs"
proof -
  have "filter (triggered E R r' own) xs = filter (triggered E R r own) xs"
    using assms by (intro filter_cong) (auto simp: triggered_def holds_raw_same [OF assms(1)])
  then show ?thesis by (simp add: contenders_def)
qed

context redis_server begin

lemma evaluate_global_holds:
  assumes "show_ok E (cValue ` F)" and "raw_leaves c \<subseteq> F"
  obtains r' where "evaluate_global E R r c = (holds_raw E R r c, r')"
    and "same_leaves E R F r r'" and "time_keys_only (view r) (view r')"
proof (cases "unmarshal_condition c")
  case None
  then show thesis
    by (intro that [of r]) (simp_all add: evaluate_global_def EvaluateConditions_def holds_raw_def)
next
  case (Some t)
  with assms(2) have "set (leaves t) \<subseteq> F" by (simp add: raw_leaves_def)
  with evaluate_holds_aux [OF assms(1), of t r] obtain r' where
    "evaluateCondition E R (Some r) t = (holds (leaf_value E R r) t, Some r')"
    "same_leaves E R F r r'" "time_keys_only (view r) (view r')" by auto
  with Some show thesis
    by (intro that [of r']) (simp_all add: evaluate_global_def EvaluateConditions_def holds_raw_def)
qed

lemma collect_others_contenders:
  assumes F: "show_ok E (cValue ` F)" and "\<And>x. x \<in> set xs \<Longrightarrow> raw_leaves (rConditions x) \<subseteq> F"
  obtains r' where "collect_others E R own ts xs r = (contenders E R r own ts xs, r')"
    and "time_keys_only (view r) (view r')"
proof -
  have "\<exists>r'. collect_others E R own ts xs r = (contenders E R r own ts xs, r')
      \<and> time_keys_only (view r) (view r')"
    using assms(2)
  proof (induction xs arbitrary: r)
    case Nil
    then show ?case by (simp add: contenders_def)
  next
    case (Cons x xs)
    show ?case
    proof (cases "rEnabled x \<and> rID x \<noteq> own")
      case False
      with Cons show ?thesis by (auto simp: contenders_def triggered_def)
    next
      case True
      from Cons.prems have "raw_leaves (rConditions x) \<subseteq> F" by simp
      then obtain r1 where r1: "evaluate_global E R r (rConditions x) = (holds_raw E R r (rConditions x), r1)"
        "same_leaves E R F r r1" "time_keys_only (view r) (view r1)"
        by (rule evaluate_global_holds [OF F])
      from Cons.IH [of r1] Cons.prems obtain r2 where
        r2: "collect_others E R own ts xs r1 = (contenders E R r1 own ts xs, r2)"
        "time_keys_only (view r1) (view r2)" by auto
      have "contenders E R r1 own ts xs = contenders E R r own ts xs"
        using Cons.prems by (intro contenders_same [OF r1(2)]) auto
      with r1 r2 True time_keys_only_trans [OF r1(3) r2(2)] show ?thesis
        by (auto simp: contenders_def triggered_def)
    qed
  qed
  with that show thesis by blast
qed

end

section \<open>The whole evaluation task\<close>

lemma contenders_in:
  "a \<in> set (contenders E R r own ts xs) \<longleftrightarrow>
     (\<exists>x \<in> set xs. triggered E R r own x \<and> a \<in> set (collectPendingActions (rID x) (rActions x)) \<and> hits ts a)"
  by (auto simp: contenders_def)

lemma pending_ok_append [simp]: "pending_ok (as @ bs) \<longleftrightarrow> pending_ok as \<and> pending_ok bs"
  by (auto simp: pending_ok_def)

lemma contenders_ok [simp]: "pending_ok (contenders E R r own ts xs)"
proof -
  have "jmap_ok (pParams a)" if "a \<in> set (collectPendingActions i raw)" for a i raw
    using that collectPendingActions_ok [of i raw] by (simp add: pending_ok_def)
  then show ?thesis by (auto simp: pending_ok_def contenders_in)
qed

lemma collect_others_hits:
  "a \<in> set (fst (collect_others E R own ts xs r)) \<Longrightarrow> hits ts a"
  by (induction E R own ts xs r rule: collect_others.induct) (auto split: if_splits prod.splits)

text \<open>When anything is published, every guard of the task was passed.\<close>

lemma evaluate_task_published:
  assumes "p \<in> set (fst (snd (evaluateAndExecuteTask E R ord client payloadRaw r d)))"
  obtains payload rule r1 rules others r2 own where "unmarshal_et payloadRaw = Some payload"
    and "fst (GetRuleByID (etRuleID payload) d) = Inr rule" and "rEnabled rule"
    and "evaluate_global E R r (rConditions rule) = (True, r1)"
    and "own = collectPendingActions (rID rule) (rActions rule)"
    and "collect_others E R (rID rule) (extractActionTargets (o_targets ord) own) rules r1 = (others, r2)"
    and "fst (snd (evaluateAndExecuteTask E R ord client payloadRaw r d))
         = ExecuteResolvedActions (o_resolved ord) client
             (resolveConflicts (others @ own) (extractActionTargets (o_targets ord) own))"
  using assms
  by (auto simp: evaluateAndExecuteTask_def Let_def
      split: option.splits prod.splits sum.splits if_splits go.splits bool.splits)

text \<open>The rules that stand when the evaluation begins, and all their actions.\<close>

definition standing :: "env \<Rightarrow> 'r redis_api \<Rightarrow> 'r \<Rightarrow> rule list \<Rightarrow> pending list" where
  "standing E R r rules =
     concat (map (\<lambda>x. collectPendingActions (rID x) (rActions x))
                 (filter (\<lambda>x. rEnabled x \<and> holds_raw E R r (rConditions x)) rules))"

lemma standing_contenders:
  assumes "visit_order iter" and "distinct (map rID rules)" and "x \<in> set rules" and "rEnabled x"
    and "holds_raw E R r (rConditions x)" and own: "own = collectPendingActions (rID x) (rActions x)"
    and "a \<in> set own" and "sets_attr dv k a"
  shows "c \<in> set (contenders E R r (rID x) (extractActionTargets iter own) rules @ own) \<and> sets_attr dv k c
     \<longleftrightarrow> c \<in> set (standing E R r rules) \<and> sets_attr dv k c"
proof -
  have "hits (extractActionTargets iter own) c" if "sets_attr dv k c"
  proof -
    from assms(7,8) have "\<lparr>tDeviceID = dv, tKey = k\<rparr> \<in> set (extractActionTargets iter own)"
      by (auto simp: extractActionTargets_set [OF assms(1)] touches_def sets_attr_def)
    with that show ?thesis
      by (auto simp: hits_iff touches_def sets_attr_def intro!: bexI [of _ "\<lparr>tDeviceID = dv, tKey = k\<rparr>"])
  qed
  moreover have "y = x" if "y \<in> set rules" "rID y = rID x" for y
    using assms(2,3) that by (auto simp: distinct_map inj_on_def)
  ultimately show ?thesis
    using assms(3-5) own by (auto simp: contenders_in triggered_def standing_def)
qed

lemma evaluate_task_run:
  assumes "redis_server R view" and "show_ok E (cValue ` F)"
    and F: "\<forall>y \<in> set rules. raw_leaves (rConditions y) \<subseteq> F" "raw_leaves (rConditions x) \<subseteq> F"
    and get: "GetRuleByID i d = (Inr x, tick d)" "GetAllRules (tick d) = (Inr rules, tick (tick d))"
    and "rEnabled x" and check: "areAllActionsRedundant E R (o_fields ord) (rActions x) r = Ret False"
    and own: "own = collectPendingActions (rID x) (rActions x)" "ts = extractActionTargets (o_targets ord) own"
    and pubs: "pubs = fst (snd (evaluateAndExecuteTask E R ord client (taskPayload (evaluation_task i dev)) r d))"
  shows "\<not> holds_raw E R r (rConditions x) \<Longrightarrow> pubs = []"
    and "holds_raw E R r (rConditions x) \<Longrightarrow> contenders E R r (rID x) ts rules @ own \<noteq> [] \<Longrightarrow>
      pubs = ExecuteResolvedActions (o_resolved ord) client
        (resolveConflicts (contenders E R r (rID x) ts rules @ own) ts)"
proof -
  obtain r1 where r1: "evaluate_global E R r (rConditions x) = (holds_raw E R r (rConditions x), r1)"
    "same_leaves E R F r r1"
    by (rule redis_server.evaluate_global_holds [OF assms(1,2) F(2)])
  obtain r2 where "collect_others E R (rID x) ts rules r1 = (contenders E R r1 (rID x) ts rules, r2)"
    by (rule redis_server.collect_others_contenders [OF assms(1,2)]) (use F(1) in auto)
  moreover have "contenders E R r1 (rID x) ts rules = contenders E R r (rID x) ts rules"
    using F(1) by (intro contenders_same [OF r1(2)]) auto
  ultimately have r2: "collect_others E R (rID x) ts rules r1 = (contenders E R r (rID x) ts rules, r2)" by simp
  show "pubs = []" if "\<not> holds_raw E R r (rConditions x)"
    using that r1(1) get assms(7) check
    by (simp add: pubs evaluateAndExecuteTask_def unmarshal_evaluation_task)
  have ne: "resolveConflicts as ts \<noteq> []" if "as \<noteq> []" for as
    using that resolveConflicts_devices [of as ts] by auto
  show "pubs = ExecuteResolvedActions (o_resolved ord) client
        (resolveConflicts (contenders E R r (rID x) ts rules @ own) ts)"
    if "holds_raw E R r (rConditions x)" "contenders E R r (rID x) ts rules @ own \<noteq> []"
    using that(1) r1(1) r2 get assms(7) check ne [OF that(2)]
    by (simp add: pubs evaluateAndExecuteTask_def unmarshal_evaluation_task own [symmetric] Let_def)
qed

section \<open>Properties\<close>

lemma rule_of_fields [simp]:
  "rID (rule_of row) = rrID row" "rConditions (rule_of row) = Some (rrConditions row)"
  "rActions (rule_of row) = Some (rrActions row)" "rEnabled (rule_of row) = the (rrEnabled row)"
  by (simp_all add: rule_of_def)

lemma rules_read:
  assumes "db_up d" and "db_ok d" and "\<forall>y \<in> set (t_rules d). rrEnabled y \<noteq> None" and "row \<in> set (t_rules d)"
  shows "GetRuleByID (rrID row) d = (Inr (rule_of row), tick d)"
    and "GetAllRules (tick d) = (Inr (map rule_of (t_rules d)), tick (tick d))"
proof -
  show "GetRuleByID (rrID row) d = (Inr (rule_of row), tick d)"
    using assms by (simp add: GetRuleByID_up scan_rule_Inr [THEN iffD2])
  have "scan_all scan_rule (t_rules d) = Inr (map rule_of (t_rules d))"
    using assms(3) by (simp add: scan_all_Inr)
  then show "GetAllRules (tick d) = (Inr (map rule_of (t_rules d)), tick (tick d))"
    using assms(1) by (simp add: GetAllRules_def query_up sum_bind_def)
qed

text \<open>
  C1: which rule wins, end to end. Take a rule in the database that is enabled and whose
  conditions hold when its evaluation task runs, and an attribute of a device that one of its
  actions sets. The task then commands for this attribute the value of an action whose rule id
  comes first among the actions, of all enabled rules whose conditions hold, that set it. First
  is first as a text, as the code compares ids: rule 10 comes before rule 9, which is not the lower
  id that the comment in the code promises. The database has to answer, no rule may have NULL for
  \<open>enabled\<close> (it makes the code give up resolving), and the redundancy check of the rule must not panic.
\<close>

theorem evaluation_commands_least_rule:
  assumes "redis_server R view" and "visit_order (o_targets ord)" and "visit_order (o_resolved ord)"
    and "db_up d" and "db_ok d" and "\<forall>y \<in> set (t_rules d). rrEnabled y \<noteq> None" and row: "row \<in> set (t_rules d)"
    and "show_ok E (cValue ` (\<Union>y \<in> set (t_rules d). raw_leaves (Some (rrConditions y))))"
    and "rrEnabled row = Some True" and "holds_raw E R r (Some (rrConditions row))"
    and "areAllActionsRedundant E R (o_fields ord) (Some (rrActions row)) r \<noteq> Panic"
    and a: "a \<in> set (collectPendingActions (rrID row) (Some (rrActions row)))" "sets_attr dv k a"
  shows "\<exists>c \<in> set (standing E R r (map rule_of (t_rules d))). sets_attr dv k c
    \<and> commanded (fst (snd (evaluateAndExecuteTask E R ord True (taskPayload (evaluation_task (rrID row) dev)) r d))) dv k
        = mget (pParams c) k
    \<and> list_all (\<lambda>x. pRuleID c \<le> pRuleID x) (filter (sets_attr dv k) (standing E R r (map rule_of (t_rules d))))"
proof -
  let ?x = "rule_of row" and ?rules = "map rule_of (t_rules d)"
  let ?own = "collectPendingActions (rrID row) (Some (rrActions row))"
  let ?ts = "extractActionTargets (o_targets ord) ?own"
  let ?all = "contenders E R r (rrID row) ?ts ?rules @ ?own"
  note reads = rules_read [OF assms(4-6) row]
  have dist: "distinct (map rID ?rules)" using assms(5) by (simp add: db_ok_def comp_def)
  have same: "c \<in> set ?all \<and> sets_attr dv k c \<longleftrightarrow> c \<in> set (standing E R r ?rules) \<and> sets_attr dv k c" for c
    using standing_contenders [OF assms(2) dist, of ?x E R r ?own a dv k c] row assms(9,10) a by simp
  from a(1) redundant_collects_nothing [of E R "o_fields ord" "Some (rrActions row)" r "rrID row"] assms(11)
  have check: "areAllActionsRedundant E R (o_fields ord) (Some (rrActions row)) r = Ret False"
    by (cases "areAllActionsRedundant E R (o_fields ord) (Some (rrActions row)) r") auto
  have "fst (snd (evaluateAndExecuteTask E R ord True (taskPayload (evaluation_task (rrID row) dev)) r d))
      = ExecuteResolvedActions (o_resolved ord) True (resolveConflicts ?all ?ts)"
    using evaluate_task_run(2) [OF assms(1,8) _ _ reads(1,2), where ord = ord and client = True and dev = dev] check a(1) assms(9,10) row
    by force
  then have pubs: "commanded (fst (snd (evaluateAndExecuteTask E R ord True
        (taskPayload (evaluation_task (rrID row) dev)) r d))) dv k = value_of (resolveConflicts ?all ?ts) dv k"
    by (simp add: commanded_ExecuteResolvedActions [OF assms(3)] resolveConflicts_distinct)
  have "pending_ok ?all" by simp
  then obtain c where "c \<in> set ?all" "sets_attr dv k c" "value_of (resolveConflicts ?all ?ts) dv k = mget (pParams c) k"
    "\<And>x. x \<in> set ?all \<Longrightarrow> sets_attr dv k x \<Longrightarrow> pRuleID c \<le> pRuleID x"
    by (rule value_of_least [where d = dv and k = k]) (use a in auto)
  with pubs same show ?thesis by (auto simp: list_all_iff)
qed

text \<open>Rules 7 and 12 both set the fan's speed while the lamp is bright at 18:30.\<close>

definition demo_actions :: "rat \<Rightarrow> json" where
  "demo_actions x = JArr (map enc_action
     [\<lparr>aDeviceID = ''fan'', aAction = ''set_state'', aParams = Some (JObj [(''speed'', JNum x)])\<rparr>])"

definition demo_rules :: db where
  "demo_rules = demo_db [demo_rule_row ''7'' (enc_condition demo_tree) (demo_actions 1),
     demo_rule_row ''12'' (enc_condition demo_tree) (demo_actions 2)] [] []"

definition demo_orders :: orders where
  "demo_orders = \<lparr>o_fields = rev, o_targets = rev, o_resolved = rev\<rparr>"

lemma demo_collect:
  "collectPendingActions i (Some (demo_actions x))
     = [\<lparr>pRuleID = i, pDeviceID = ''fan'', pParams = Some [(''speed'', JNum x)]\<rparr>]"
  unfolding demo_actions_def collectPendingActions_def unmarshal_enc_actions
  by (simp add: obj_map_def)

lemma demo_holds: "holds_raw (demo_env 18 30) mem_redis demo_server (Some (enc_condition demo_tree))"
proof -
  have "leaf_value (demo_env 18 30) mem_redis demo_server demo_level"
    by (simp add: leaf_value_def eval_leaf_def eval_device_def mem_redis_def mem_get_def demo_defs
        device_key_def text_or_empty_def state_of_def reply_raw_def obj_map_def or_nil_def Let_def)
  moreover have "leaf_value (demo_env 18 30) mem_redis demo_server demo_time"
    by (simp add: leaf_value_def eval_leaf_def eval_time_def mem_redis_def mem_get_def demo_defs
        time_key_def text_or_empty_def demo_parse_1830 minute_of_day_def Let_def)
  moreover have "cOperator demo_level = ''''" "cOperator demo_time = ''''"
    by (simp_all add: demo_level_def demo_time_def zero_fields_def)
  ultimately have "holds (leaf_value (demo_env 18 30) mem_redis demo_server) demo_tree"
    by (simp add: demo_tree_def)
  then show ?thesis by (simp add: holds_raw_def)
qed

lemma demo_not_redundant: "areAllActionsRedundant E R iter (Some (demo_actions x)) r = Ret False"
  by (simp add: areAllActionsRedundant_def demo_actions_def enc_action_def redundant_action_def obj_map_def)

lemma pg_int_demo: "pg_int ''7'' = Some ''7''" "pg_int ''12'' = Some ''12''"
  using pg_int_show_nat [of 7] pg_int_show_nat [of 12]
  by (simp_all add: show_nat.simps digit_char_def)

lemma demo_rules_ok: "db_ok demo_rules" "db_up demo_rules"
  by (simp_all add: demo_rules_def db_ok_def) (simp add: demo_db_def demo_rule_row_def pg_int_demo)

lemma evaluation_commands_least_rule_witness:
  "commanded (fst (snd (evaluateAndExecuteTask (demo_env 18 30) mem_redis demo_orders True
     (taskPayload (evaluation_task ''7'' ''lamp'')) demo_server demo_rules))) ''fan'' ''speed'' = Some (JNum 2)"
proof -
  let ?row = "demo_rule_row ''7'' (enc_condition demo_tree) (demo_actions 1)"
  let ?st = "standing (demo_env 18 30) mem_redis demo_server (map rule_of (t_rules demo_rules))"
  have rows: "t_rules demo_rules = [?row, demo_rule_row ''12'' (enc_condition demo_tree) (demo_actions 2)]"
    by (simp add: demo_rules_def demo_db_def)
  have st: "?st = [\<lparr>pRuleID = ''7'', pDeviceID = ''fan'', pParams = Some [(''speed'', JNum 1)]\<rparr>,
     \<lparr>pRuleID = ''12'', pDeviceID = ''fan'', pParams = Some [(''speed'', JNum 2)]\<rparr>]"
    by (simp add: standing_def rows demo_rule_row_def demo_holds demo_collect)
  have "show_ok (demo_env 18 30) (cValue ` (\<Union>y \<in> set (t_rules demo_rules). raw_leaves (Some (rrConditions y))))"
    by (simp add: rows demo_rule_row_def raw_leaves_def demo_leaves demo_show_ok)
  moreover have "areAllActionsRedundant (demo_env 18 30) mem_redis (o_fields demo_orders) (Some (rrActions ?row)) demo_server \<noteq> Panic"
    by (simp add: demo_rule_row_def demo_not_redundant)
  ultimately have "\<exists>c \<in> set ?st. sets_attr ''fan'' ''speed'' c
    \<and> commanded (fst (snd (evaluateAndExecuteTask (demo_env 18 30) mem_redis demo_orders True
        (taskPayload (evaluation_task (rrID ?row) ''lamp'')) demo_server demo_rules))) ''fan'' ''speed''
        = mget (pParams c) ''speed''
    \<and> list_all (\<lambda>x. pRuleID c \<le> pRuleID x) (filter (sets_attr ''fan'' ''speed'') ?st)"
    using demo_holds
    by (intro evaluation_commands_least_rule [where view = mem_view and a = "\<lparr>pRuleID = ''7'', pDeviceID = ''fan'',
          pParams = Some [(''speed'', JNum 1)]\<rparr>"] mem.redis_server_axioms demo_rules_ok)
      (simp_all add: demo_orders_def rows, simp_all add: demo_rule_row_def demo_collect sets_attr_def, blast)
  then show ?thesis
    by (auto simp: st sets_attr_def demo_rule_row_def less_char_def less_eq_char_def)
qed

lemma task_publishes:
  assumes "visit_order (o_targets ord)" and "visit_order (o_resolved ord)"
    and p: "p \<in> set (fst (snd (evaluateAndExecuteTask E R ord client payloadRaw r d)))"
  shows "\<exists>payload rule a ps. unmarshal_et payloadRaw = Some payload
    \<and> fst (GetRuleByID (etRuleID payload) d) = Inr rule \<and> rEnabled rule
    \<and> fst (evaluate_global E R r (rConditions rule))
    \<and> a \<in> set (collectPendingActions (rID rule) (rActions rule))
    \<and> p = command (pDeviceID a) (JObj ps) \<and> ps \<noteq> [] \<and> client
    \<and> distinct (map pubTopic (fst (snd (evaluateAndExecuteTask E R ord client payloadRaw r d))))"
proof (rule evaluate_task_published [OF p])
  fix payload rule r1 rules others r2 own
  let ?ts = "extractActionTargets (o_targets ord) own"
  assume run: "unmarshal_et payloadRaw = Some payload" "fst (GetRuleByID (etRuleID payload) d) = Inr rule"
    "rEnabled rule" "evaluate_global E R r (rConditions rule) = (True, r1)"
    and own: "own = collectPendingActions (rID rule) (rActions rule)"
    and others: "collect_others E R (rID rule) ?ts rules r1 = (others, r2)"
    and pubs: "fst (snd (evaluateAndExecuteTask E R ord client payloadRaw r d))
      = ExecuteResolvedActions (o_resolved ord) client (resolveConflicts (others @ own) ?ts)"
  from p pubs have client by (auto simp: ExecuteResolvedActions_def split: if_splits)
  with p pubs obtain dv ps where cmd: "p = command dv (JObj ps)" "ps \<noteq> []"
    and dv: "(dv, ps) \<in> set (resolveConflicts (others @ own) ?ts)"
    by (auto simp: ExecuteResolvedActions_set [OF assms(2)])
  from dv resolveConflicts_devices [of "others @ own" ?ts] have "dv \<in> pDeviceID ` set (others @ own)"
    by (metis fst_conv image_eqI)
  moreover have "pDeviceID c \<in> pDeviceID ` set own" if "c \<in> set others" for c
    using collect_others_hits [of c E R "rID rule" ?ts rules r1] others that
    by (auto simp: hits_iff extractActionTargets_set [OF assms(1)] touches_def) (metis image_eqI)
  ultimately obtain a where "a \<in> set own" "dv = pDeviceID a" by auto
  moreover have "distinct (map pubTopic (fst (snd (evaluateAndExecuteTask E R ord client payloadRaw r d))))"
    using ExecuteResolvedActions_once [OF assms(2) resolveConflicts_distinct] pubs \<open>client\<close> by simp
  ultimately show ?thesis using run own cmd \<open>client\<close> by auto
qed

text \<open>
  an evaluation task publishes at most one command per device, never an empty one, only
  through a connected client, and only to devices its own rule acts on; and it publishes
  nothing at all unless the rule was read, is enabled and its conditions held. This needs
  nothing of Redis and nothing of the database.
\<close>

theorem commands_within_rule:
  assumes "visit_order (o_targets ord)" and "visit_order (o_resolved ord)"
    and "p \<in> set (fst (snd (evaluateAndExecuteTask E R ord client payloadRaw r d)))"
  shows "\<exists>payload rule a ps. unmarshal_et payloadRaw = Some payload
    \<and> fst (GetRuleByID (etRuleID payload) d) = Inr rule \<and> rEnabled rule
    \<and> fst (evaluate_global E R r (rConditions rule))
    \<and> a \<in> set (collectPendingActions (rID rule) (rActions rule))
    \<and> p = command (pDeviceID a) (JObj ps) \<and> ps \<noteq> [] \<and> client
    \<and> distinct (map pubTopic (fst (snd (evaluateAndExecuteTask E R ord client payloadRaw r d))))"
  by (rule task_publishes [OF assms])

lemma demo_publishes:
  "fst (snd (evaluateAndExecuteTask (demo_env 18 30) mem_redis demo_orders True
     (taskPayload (evaluation_task ''7'' ''lamp'')) demo_server demo_rules))
   = [command ''fan'' (JObj [(''speed'', JNum 2)])]"
proof -
  let ?E = "demo_env 18 30" and ?row = "demo_rule_row ''7'' (enc_condition demo_tree) (demo_actions 1)"
  let ?rules = "map rule_of (t_rules demo_rules)" and ?own = "collectPendingActions ''7'' (Some (demo_actions 1))"
  let ?ts = "extractActionTargets (o_targets demo_orders) ?own"
  have rows: "t_rules demo_rules = [?row, demo_rule_row ''12'' (enc_condition demo_tree) (demo_actions 2)]"
    by (simp add: demo_rules_def demo_db_def)
  have enabled: "\<forall>y \<in> set (t_rules demo_rules). rrEnabled y \<noteq> None" and row: "?row \<in> set (t_rules demo_rules)"
    and i: "rrID ?row = ''7''" unfolding rows by (auto simp: demo_rule_row_def)
  note reads = rules_read [OF demo_rules_ok(2,1) enabled row, unfolded i]
  note run = evaluate_task_run(2) [OF mem.redis_server_axioms _ _ _ reads,
      where E = ?E and F = "set (leaves demo_tree)" and ord = demo_orders and client = True and dev = "''lamp''"
      and r = demo_server]
  have ts: "extractActionTargets (o_targets demo_orders)
      [\<lparr>pRuleID = ''7'', pDeviceID = ''fan'', pParams = Some [(''speed'', JNum 1)]\<rparr>]
      = [\<lparr>tDeviceID = ''fan'', tKey = ''speed''\<rparr>]"
    by (simp add: extractActionTargets_def demo_orders_def mentries_def)
  have "contenders ?E mem_redis demo_server ''7'' ?ts ?rules
      = [\<lparr>pRuleID = ''12'', pDeviceID = ''fan'', pParams = Some [(''speed'', JNum 2)]\<rparr>]"
    by (simp add: contenders_def triggered_def rows demo_rule_row_def demo_holds demo_collect hits_def ts)
  with run ts show ?thesis
    by (simp add: demo_leaves demo_show_ok raw_leaves_def rows demo_rule_row_def demo_holds demo_not_redundant demo_collect)
      (simp add: demo_orders_def resolveConflicts_def resolve_action_def resolve_param_def mentries_def
        build_resolved_def ExecuteResolvedActions_def less_char_def)
qed

lemma commands_within_rule_witness:
  "\<exists>(a :: pending) ps. command ''fan'' (JObj [(''speed'', JNum 2)]) = command (pDeviceID a) (JObj ps) \<and> ps \<noteq> []"
  using commands_within_rule [of demo_orders "command ''fan'' (JObj [(''speed'', JNum 2)])" "demo_env 18 30" mem_redis True
      "taskPayload (evaluation_task ''7'' ''lamp'')" demo_server demo_rules]
  unfolding demo_publishes by (simp add: demo_orders_def) blast

text \<open>
  the shortcut for actions that already hold never drops a command: a rule it skips has no
  device action the task would have carried out (the shortcut reads a numeric \<open>device_id\<close>,
  which makes the reader of the actions reject the whole list).
\<close>

theorem redundancy_check_idle:
  assumes "areAllActionsRedundant E R iter actions r = Ret True"
  shows "collectPendingActions i actions = []"
  by (rule redundant_collects_nothing [OF assms])

lemma redundancy_check_idle_witness:
  "collectPendingActions ''7'' (Some (JArr [JObj [(''type'', JStr ''device''), (''device_id'', JNum 5),
     (''state'', JObj [(''on'', JBool True)])]])) = []"
proof (rule redundancy_check_idle)
  show "areAllActionsRedundant (demo_env 18 30) mem_redis rev
     (Some (JArr [JObj [(''type'', JStr ''device''), (''device_id'', JNum 5), (''state'', JObj [(''on'', JBool True)])]]))
     [(''device:5:state'', Inl (VDoc (JObj [(''on'', JBool True)])), None)] = Ret True"
    by (simp add: areAllActionsRedundant_def redundant_action_def obj_map_def to_int64_def show_int_def
        show_nat.simps digit_char_def mem_redis_def mem_get_def reply_raw_def)
qed

text \<open>
  what a task handler reads from its payload is what was enqueued, for rule ids, device ids
  and reported states of any content.
\<close>

theorem task_payloads_roundtrip:
  assumes "jmap_ok m"
  shows "unmarshal_et (taskPayload (evaluation_task i d)) = Some \<lparr>etRuleID = i, etUpdatedDeviceID = d\<rparr>
    \<and> unmarshal_dut (taskPayload (update_task d m)) = Some \<lparr>dutDeviceID = d, dutState = m\<rparr>"
  by (simp add: unmarshal_update_task [OF assms] unmarshal_evaluation_task)

lemma task_payloads_roundtrip_witness:
  "unmarshal_dut (taskPayload (update_task ''lamp'' (Some [(''on'', JBool True), (''on2'', JNull)])))
     = Some \<lparr>dutDeviceID = ''lamp'', dutState = Some [(''on'', JBool True), (''on2'', JNull)]\<rparr>"
  using task_payloads_roundtrip [of "Some [(''on'', JBool True), (''on2'', JNull)]" "''7''" "''lamp''"]
  by (simp add: jmap_ok_def)

text \<open>
  processing the update task of an accepted device succeeds and appends, to the queue,
  exactly one evaluation task for each rule associated with the device, naming the device.
\<close>

theorem update_task_enqueues:
  assumes "redis_server R view" and "fst (GetDeviceByID i d) = Inr dev" and "dev_Accepted dev"
    and "jmap_ok st" and "\<forall>n. q_ok q n"
  shows "\<exists>ids r' later q'. processDeviceUpdateTask E R (taskPayload (update_task i st)) r d q
      = (TNil, r', tick d, q', Some later)
    \<and> distinct ids \<and> set ids = key_members (view r) (rules_key i)
    \<and> q_tasks q' = q_tasks q @ map (\<lambda>x. evaluation_task x i) ids"
proof (rule redis_server.update_accepted [OF assms(1-3), where E = E and st = st and r = r])
  fix ids r'
  assume "ProcessDeviceUpdate E R i st r d = (ids, r', tick d, Some (UpdateStateLater i (marshal_map st)))"
    and ids: "distinct ids" "set ids = key_members (view r) (rules_key i)"
  then have "processDeviceUpdateTask E R (taskPayload (update_task i st)) r d q
      = (TNil, r', tick d, enqueue_evaluations i ids q, Some (UpdateStateLater i (marshal_map st)))"
    by (simp add: processDeviceUpdateTask_def unmarshal_update_task [OF assms(4)])
  with ids enqueue_evaluations_tasks [OF assms(5)] show ?thesis by blast
qed

definition demo_queue :: queue where
  "demo_queue = \<lparr>q_tasks = [], q_calls = 0, q_ok = (\<lambda>_. True)\<rparr>"

lemma update_task_enqueues_witness:
  "\<exists>ids r' later q'. processDeviceUpdateTask (demo_env 18 30) mem_redis
      (taskPayload (update_task ''lamp'' (Some [(''level'', JNum 9)]))) demo_server
      (demo_db [] [] [demo_lamp True]) demo_queue
      = (TNil, r', tick (demo_db [] [] [demo_lamp True]), q', Some later)
    \<and> set ids = {''7''} \<and> q_tasks q' = map (\<lambda>x. evaluation_task x ''lamp'') ids"
proof -
  let ?d = "demo_db [] [] [demo_lamp True]" and ?st = "Some [(''level'', JNum 9)]"
  have st: "jmap_ok ?st" and q: "\<forall>n. q_ok demo_queue n" by (simp_all add: jmap_ok_def demo_queue_def)
  obtain ids r' later q' where "processDeviceUpdateTask (demo_env 18 30) mem_redis
      (taskPayload (update_task ''lamp'' ?st)) demo_server ?d demo_queue = (TNil, r', tick ?d, q', Some later)"
    "set ids = key_members (mem_view demo_server) (rules_key ''lamp'')"
    "q_tasks q' = q_tasks demo_queue @ map (\<lambda>x. evaluation_task x ''lamp'') ids"
    using update_task_enqueues [OF mem.redis_server_axioms demo_lamp_get demo_lamp_accepted [THEN iffD2, OF TrueI] st q,
        where E = "demo_env 18 30" and r = demo_server] by blast
  moreover have "q_tasks demo_queue = []" by (simp add: demo_queue_def)
  ultimately show ?thesis by (metis append_Nil demo_members)
qed

end
