(* ===== verification/Scheduler.thy ===== *)
theory Scheduler
  imports Taskqueue
begin

text \<open>
  \<open>internal/scheduler/scheduler.go\<close>: the map from schedule ids to entries of the cron
  library. The library (robfig/cron) is not part of the repository: it is a record of functions
  over an abstract state \<open>'c\<close>, and the locale \<open>cron_service\<close> states what the scheduler
  relies on, through the entries the service holds. \<open>mem_cron\<close> is such a service.

  A job is the closure the scheduler registers, by the variables it captures. One call of an
  operation is one step here; the code takes the lock of \<open>jobMap\<close> for each access, and what two
  calls of \<open>AddOrUpdateSchedule\<close> at the same time can do is the subject of \<open>Locks\<close>.
\<close>

record job =
  jobRuleID :: string
  jobScheduleID :: string

record 'c cron_api =
  cr_add :: "string \<Rightarrow> job \<Rightarrow> 'c \<Rightarrow> nat option \<times> 'c"
  cr_remove :: "nat \<Rightarrow> 'c \<Rightarrow> 'c"

type_synonym cron_view = "nat \<rightharpoonup> string \<times> job"

locale cron_service =
  fixes C :: "'c cron_api" and entries :: "'c \<Rightarrow> cron_view" and valid :: "string \<Rightarrow> bool"
  assumes add_valid: "valid spec \<Longrightarrow>
      \<exists>i c'. cr_add C spec j c = (Some i, c') \<and> i \<notin> dom (entries c) \<and> entries c' = (entries c)(i \<mapsto> (spec, j))"
    and add_invalid: "\<not> valid spec \<Longrightarrow> \<exists>c'. cr_add C spec j c = (None, c') \<and> entries c' = entries c"
    and remove_entries: "entries (cr_remove C i c) = (entries c)(i := None)"

section \<open>The scheduler\<close>

record 'c scheduler =
  s_cron :: 'c
  s_jobMap :: "(string, nat) gomap"

definition NewScheduler :: "'c \<Rightarrow> 'c scheduler" where
  "NewScheduler c = \<lparr>s_cron = c, s_jobMap = []\<rparr>"

definition AddJob :: "'c cron_api \<Rightarrow> string \<Rightarrow> job \<Rightarrow> 'c scheduler \<Rightarrow> nat option \<times> 'c scheduler" where
  "AddJob C spec fn s = (case cr_add C spec fn (s_cron s) of (res, c') \<Rightarrow> (res, s\<lparr>s_cron := c'\<rparr>))"

fun load_schedules :: "'c cron_api \<Rightarrow> schedule list \<Rightarrow> 'c scheduler \<Rightarrow> 'c scheduler" where
  "load_schedules C [] s = s"
| "load_schedules C (sch # rest) s =
     (if sEnabled sch then
        (case AddJob C (sCronExpression sch) \<lparr>jobRuleID = sRuleID sch, jobScheduleID = sID sch\<rparr> s of
           (None, s1) \<Rightarrow> load_schedules C rest s1
         | (Some entryID, s1) \<Rightarrow>
             load_schedules C rest (s1\<lparr>s_jobMap := AList.update (sID sch) entryID (s_jobMap s1)\<rparr>))
      else load_schedules C rest s)"

text \<open>The Boolean of these operations is \<open>err == nil\<close>.\<close>

definition LoadSchedules :: "'c cron_api \<Rightarrow> 'c scheduler \<Rightarrow> db \<Rightarrow> bool \<times> 'c scheduler \<times> db" where
  "LoadSchedules C s d =
     (case GetAllSchedules d of
        (Inl _, d') \<Rightarrow> (False, s, d')
      | (Inr schedules, d') \<Rightarrow> (True, load_schedules C schedules s, d'))"

definition remove_entries_of :: "'c cron_api \<Rightarrow> (string, nat) gomap \<Rightarrow> 'c \<Rightarrow> 'c" where
  "remove_entries_of C jobs c = fold (\<lambda>(schedID, entryID). cr_remove C entryID) jobs c"

definition ReloadSchedules ::
  "'c cron_api \<Rightarrow> ((string, nat) gomap \<Rightarrow> (string, nat) gomap) \<Rightarrow> 'c scheduler \<Rightarrow> db
     \<Rightarrow> bool \<times> 'c scheduler \<times> db" where
  "ReloadSchedules C iter s d =
     LoadSchedules C (s\<lparr>s_cron := remove_entries_of C (iter (s_jobMap s)) (s_cron s), s_jobMap := []\<rparr>) d"

definition RemoveSchedule :: "'c cron_api \<Rightarrow> string \<Rightarrow> 'c scheduler \<Rightarrow> 'c scheduler" where
  "RemoveSchedule C scheduleID s =
     (case map_of (s_jobMap s) scheduleID of
        None \<Rightarrow> s
      | Some entryID \<Rightarrow>
          s\<lparr>s_cron := cr_remove C entryID (s_cron s), s_jobMap := AList.delete scheduleID (s_jobMap s)\<rparr>)"

definition AddOrUpdateSchedule ::
  "'c cron_api \<Rightarrow> string \<Rightarrow> string \<Rightarrow> string \<Rightarrow> bool \<Rightarrow> 'c scheduler \<Rightarrow> bool \<times> 'c scheduler" where
  "AddOrUpdateSchedule C scheduleID ruleID cronExpression enabled s =
     (let s1 = RemoveSchedule C scheduleID s in
      if \<not> enabled then (True, s1)
      else
        (case AddJob C cronExpression \<lparr>jobRuleID = ruleID, jobScheduleID = scheduleID\<rparr> s1 of
           (None, s2) \<Rightarrow> (False, s2)
         | (Some entryID, s2) \<Rightarrow>
             (True, s2\<lparr>s_jobMap := AList.update scheduleID entryID (s_jobMap s2)\<rparr>)))"

definition GetScheduledJobCount :: "'c scheduler \<Rightarrow> nat" where
  "GetScheduledJobCount s = length (s_jobMap s)"

text \<open>A cron entry that fires runs its closure.\<close>

definition fire :: "job \<Rightarrow> queue \<Rightarrow> queue" where
  "fire j q = snd (EnqueueEvaluation (jobRuleID j) '''' q)"

section \<open>The invariant and the abstract view\<close>

text \<open>
  An entry belongs to the schedule its job names. The job map and the entries agree: a
  schedule id maps to an entry exactly when the entry is live and belongs to it. So no two
  ids share an entry, and nothing fires that the scheduler cannot remove.
\<close>

definition entry_owner :: "cron_view \<Rightarrow> nat \<Rightarrow> string option" where
  "entry_owner e i = map_option (\<lambda>(spec, j). jobScheduleID j) (e i)"

definition jobs_ok :: "(string \<rightharpoonup> nat) \<Rightarrow> cron_view \<Rightarrow> bool" where
  "jobs_ok m e \<longleftrightarrow> (\<forall>sid i. m sid = Some i \<longleftrightarrow> entry_owner e i = Some sid)"

definition sched_ok :: "('c \<Rightarrow> cron_view) \<Rightarrow> 'c scheduler \<Rightarrow> bool" where
  "sched_ok entries s \<longleftrightarrow>
     distinct (map fst (s_jobMap s)) \<and> jobs_ok (map_of (s_jobMap s)) (entries (s_cron s))"

text \<open>What a scheduler promises: which schedules are live, with their rule and expression.\<close>

definition jobs_view :: "(string \<rightharpoonup> nat) \<Rightarrow> cron_view \<Rightarrow> string \<rightharpoonup> string \<times> string" where
  "jobs_view m e sid =
     (case m sid of None \<Rightarrow> None | Some i \<Rightarrow> map_option (\<lambda>(spec, j). (jobRuleID j, spec)) (e i))"

definition sched_view :: "('c \<Rightarrow> cron_view) \<Rightarrow> 'c scheduler \<Rightarrow> string \<rightharpoonup> string \<times> string" where
  "sched_view entries s = jobs_view (map_of (s_jobMap s)) (entries (s_cron s))"

lemma jobs_okD: "jobs_ok m e \<Longrightarrow> m sid = Some i \<longleftrightarrow> entry_owner e i = Some sid"
  by (simp add: jobs_ok_def)

lemma jobs_ok_inj: "jobs_ok m e \<Longrightarrow> m a = Some i \<Longrightarrow> m b = Some i \<Longrightarrow> a = b"
  by (simp add: jobs_ok_def)

lemma jobs_ok_live: "jobs_ok m e \<Longrightarrow> m sid = Some i \<Longrightarrow> i \<in> dom e"
  by (auto simp: jobs_ok_def entry_owner_def)

lemma entry_owner_upd: "entry_owner (e(i := x)) i' = (if i' = i then map_option (\<lambda>(spec, j). jobScheduleID j) x else entry_owner e i')"
  by (simp add: entry_owner_def)

lemma jobs_ok_delete:
  assumes "jobs_ok m e" and m: "m sid = Some i"
  shows "jobs_ok (m(sid := None)) (e(i := None))"
  unfolding jobs_ok_def
proof (intro allI)
  fix a k
  have "m a = Some k \<longleftrightarrow> entry_owner e k = Some a" "m sid = Some k \<longleftrightarrow> entry_owner e k = Some sid"
    "m sid = Some i \<longleftrightarrow> entry_owner e i = Some sid" "m a = Some i \<longleftrightarrow> entry_owner e i = Some a"
    using assms(1) by (simp_all add: jobs_ok_def)
  with m show "(m(sid := None)) a = Some k \<longleftrightarrow> entry_owner (e(i := None)) k = Some a"
    by (auto simp: entry_owner_upd)
qed

lemma jobs_view_delete:
  assumes "jobs_ok m e" and "m sid = Some i"
  shows "jobs_view (m(sid := None)) (e(i := None)) = (jobs_view m e)(sid := None)"
proof
  fix a
  have "m a \<noteq> Some i" if "a \<noteq> sid" using jobs_ok_inj [OF assms(1)] assms(2) that by blast
  then show "jobs_view (m(sid := None)) (e(i := None)) a = ((jobs_view m e)(sid := None)) a"
    by (cases "a = sid"; cases "m a") (simp_all add: jobs_view_def)
qed

lemma jobs_ok_insert:
  assumes "jobs_ok m e" and new: "m sid = None" "i \<notin> dom e" and "jobScheduleID j = sid"
  shows "jobs_ok (m(sid \<mapsto> i)) (e(i \<mapsto> (spec, j)))"
  unfolding jobs_ok_def
proof (intro allI)
  fix a k
  have "m a = Some k \<longleftrightarrow> entry_owner e k = Some a" "m sid = Some k \<longleftrightarrow> entry_owner e k = Some sid"
    "m a = Some i \<longleftrightarrow> entry_owner e i = Some a"
    using assms(1) by (simp_all add: jobs_ok_def)
  moreover have "entry_owner e i = None"
    using new(2) by (cases "e i") (auto simp: entry_owner_def)
  ultimately show "(m(sid \<mapsto> i)) a = Some k \<longleftrightarrow> entry_owner (e(i \<mapsto> (spec, j))) k = Some a"
    using new assms(4) by (auto simp: entry_owner_upd)
qed

lemma jobs_view_insert:
  assumes "jobs_ok m e" and "i \<notin> dom e"
  shows "jobs_view (m(sid \<mapsto> i)) (e(i \<mapsto> (spec, j))) = (jobs_view m e)(sid \<mapsto> (jobRuleID j, spec))"
proof
  fix a
  have "m a \<noteq> Some i" using jobs_ok_live [OF assms(1), of a i] assms(2) by blast
  then show "jobs_view (m(sid \<mapsto> i)) (e(i \<mapsto> (spec, j))) a = ((jobs_view m e)(sid \<mapsto> (jobRuleID j, spec))) a"
    by (cases "a = sid"; cases "m a") (simp_all add: jobs_view_def)
qed

context cron_service begin

lemma AddJob_cases:
  obtains (added) i c' where "valid spec" and "AddJob C spec j s = (Some i, s\<lparr>s_cron := c'\<rparr>)"
      and "i \<notin> dom (entries (s_cron s))" and "entries c' = (entries (s_cron s))(i \<mapsto> (spec, j))"
    | (rejected) c' where "\<not> valid spec" and "AddJob C spec j s = (None, s\<lparr>s_cron := c'\<rparr>)"
      and "entries c' = entries (s_cron s)"
  using add_valid [of spec j "s_cron s"] add_invalid [of spec j "s_cron s"]
  by (cases "valid spec") (force simp: AddJob_def)+

lemma NewScheduler_ok: "entries c = Map.empty \<Longrightarrow> sched_ok entries (NewScheduler c)"
  by (simp add: sched_ok_def NewScheduler_def jobs_ok_def entry_owner_def)

lemma RemoveSchedule_ok: "sched_ok entries s \<Longrightarrow> sched_ok entries (RemoveSchedule C sid s)"
  by (auto simp: RemoveSchedule_def sched_ok_def remove_entries jobs_ok_delete split: option.split)

lemma RemoveSchedule_view:
  "sched_ok entries s \<Longrightarrow> sched_view entries (RemoveSchedule C sid s) = (sched_view entries s)(sid := None)"
  by (auto simp: RemoveSchedule_def sched_view_def sched_ok_def remove_entries jobs_view_delete
      split: option.split) (auto simp: jobs_view_def)

lemma RemoveSchedule_absent: "map_of (s_jobMap (RemoveSchedule C sid s)) sid = None"
  by (simp add: RemoveSchedule_def split: option.split)

text \<open>Adding a job under an id that is not scheduled.\<close>

lemma add_fresh:
  assumes "sched_ok entries s" and "map_of (s_jobMap s) sid = None"
    and "i \<notin> dom (entries (s_cron s))"
    and "entries c' = (entries (s_cron s))(i \<mapsto> (spec, \<lparr>jobRuleID = rid, jobScheduleID = sid\<rparr>))"
  shows "sched_ok entries (s\<lparr>s_cron := c', s_jobMap := AList.update sid i (s_jobMap s)\<rparr>)"
    and "sched_view entries (s\<lparr>s_cron := c', s_jobMap := AList.update sid i (s_jobMap s)\<rparr>)
         = (sched_view entries s)(sid \<mapsto> (rid, spec))"
  using assms by (simp_all add: sched_ok_def sched_view_def jobs_ok_insert jobs_view_insert)

lemma rejected_add:
  assumes "entries c' = entries (s_cron s)"
  shows "sched_ok entries (s\<lparr>s_cron := c'\<rparr>) = sched_ok entries s"
    and "sched_view entries (s\<lparr>s_cron := c'\<rparr>) = sched_view entries s"
  using assms by (simp_all add: sched_ok_def sched_view_def)

lemma AddOrUpdateSchedule_correct:
  assumes "sched_ok entries s"
  obtains s' where "AddOrUpdateSchedule C sid rid spec enabled s = (enabled \<longrightarrow> valid spec, s')"
    and "sched_ok entries s'"
    and "sched_view entries s' = (sched_view entries s)(sid := if enabled \<and> valid spec then Some (rid, spec) else None)"
proof -
  let ?s1 = "RemoveSchedule C sid s" and ?j = "\<lparr>jobRuleID = rid, jobScheduleID = sid\<rparr>"
  note ok1 = RemoveSchedule_ok [OF assms, of sid] and view1 = RemoveSchedule_view [OF assms, of sid]
  show thesis
  proof (cases enabled)
    case False
    with ok1 view1 show thesis
      by (intro that [of ?s1]) (simp_all add: AddOrUpdateSchedule_def Let_def)
  next
    case True
    show thesis
    proof (cases rule: AddJob_cases [of spec ?j ?s1])
      case (added i c')
      with True view1 add_fresh [OF ok1 RemoveSchedule_absent added(3,4)] show thesis
        by (intro that) (simp_all add: AddOrUpdateSchedule_def Let_def)
    next
      case (rejected c')
      with True ok1 view1 rejected_add [of c' ?s1] show thesis
        by (intro that [of "?s1\<lparr>s_cron := c'\<rparr>"]) (simp_all add: AddOrUpdateSchedule_def Let_def)
    qed
  qed
qed

lemma load_schedules_correct:
  assumes "sched_ok entries s" and "distinct (map sID schs)"
    and "\<And>sch. sch \<in> set schs \<Longrightarrow> sEnabled sch \<Longrightarrow> map_of (s_jobMap s) (sID sch) = None"
  shows "sched_ok entries (load_schedules C schs s)
    \<and> sched_view entries (load_schedules C schs s)
      = sched_view entries s ++ map_of (map (\<lambda>sch. (sID sch, (sRuleID sch, sCronExpression sch)))
                                    (filter (\<lambda>sch. sEnabled sch \<and> valid (sCronExpression sch)) schs))"
  using assms
proof (induction schs arbitrary: s)
  case Nil
  then show ?case by simp
next
  case (Cons sch schs)
  let ?j = "\<lparr>jobRuleID = sRuleID sch, jobScheduleID = sID sch\<rparr>"
  have absent: "map_of (map (\<lambda>x. (sID x, (sRuleID x, sCronExpression x)))
      (filter (\<lambda>x. sEnabled x \<and> valid (sCronExpression x)) schs)) (sID sch) = None"
    using Cons.prems(2) by (auto simp: map_of_eq_None_iff)
  show ?case
  proof (cases "sEnabled sch")
    case False
    with Cons.prems Cons.IH [of s] show ?thesis by simp
  next
    case True
    show ?thesis
    proof (cases rule: AddJob_cases [of "sCronExpression sch" ?j s])
      case (added i c')
      let ?s' = "s\<lparr>s_cron := c', s_jobMap := AList.update (sID sch) i (s_jobMap s)\<rparr>"
      from Cons.prems(3) True have fresh: "map_of (s_jobMap s) (sID sch) = None" by simp
      note new = add_fresh [OF Cons.prems(1) fresh added(3,4)]
      have "map_of (s_jobMap ?s') (sID x) = None" if "x \<in> set schs" "sEnabled x" for x
        using that Cons.prems(2,3) by (auto simp: rev_image_eqI)
      with Cons.IH [of ?s'] new Cons.prems(2) True added show ?thesis
        using absent by (auto simp: map_add_upd_left fun_eq_iff map_add_def split: option.splits)
    next
      case (rejected c')
      with Cons.IH [of "s\<lparr>s_cron := c'\<rparr>"] Cons.prems True rejected_add [of c' s] show ?thesis
        by simp
    qed
  qed
qed

lemma remove_entries_of_view:
  "entries (remove_entries_of C jobs c) = (\<lambda>i. if i \<in> snd ` set jobs then None else entries c i)"
  unfolding remove_entries_of_def
  by (induction jobs arbitrary: c) (auto simp: remove_entries fun_eq_iff)

lemma clear_ok:
  assumes "sched_ok entries s" and "visit_order iter"
  defines "s' \<equiv> s\<lparr>s_cron := remove_entries_of C (iter (s_jobMap s)) (s_cron s), s_jobMap := []\<rparr>"
  shows "sched_ok entries s'" and "sched_view entries s' = Map.empty"
proof -
  have owned: "i \<in> snd ` set (s_jobMap s)" if "entries (s_cron s) i = Some x" for i x
  proof -
    from that have "entry_owner (entries (s_cron s)) i = Some (jobScheduleID (snd x))"
      by (simp add: entry_owner_def case_prod_unfold)
    with assms(1) have "map_of (s_jobMap s) (jobScheduleID (snd x)) = Some i"
      unfolding sched_ok_def jobs_ok_def by blast
    from map_of_SomeD [OF this] show ?thesis by force
  qed
  have "entries (s_cron s') i = None" for i
    using owned [of i] by (cases "entries (s_cron s) i")
      (auto simp: s'_def remove_entries_of_view visit_order_set [OF assms(2)])
  then have "entries (s_cron s') = Map.empty" by (simp add: fun_eq_iff)
  then show "sched_ok entries s'" and "sched_view entries s' = Map.empty"
    by (simp_all add: sched_ok_def sched_view_def s'_def jobs_ok_def jobs_view_def entry_owner_def fun_eq_iff)
qed

end

section \<open>A service in memory\<close>

text \<open>Fresh ids are above all live ones; an expression is valid when it has five fields.\<close>

type_synonym mem_entries = "(nat, string \<times> job) gomap"

definition mem_next :: "mem_entries \<Rightarrow> nat" where
  "mem_next c = Suc (fold max (map fst c) 0)"

definition mem_valid :: "string \<Rightarrow> bool" where
  "mem_valid spec \<longleftrightarrow> length (split_on (CHR '' '') spec) = 5"

definition mem_cron :: "mem_entries cron_api" where
  "mem_cron =
     \<lparr>cr_add = (\<lambda>spec j c. if mem_valid spec then (Some (mem_next c), AList.update (mem_next c) (spec, j) c)
                           else (None, c)),
      cr_remove = AList.delete\<rparr>"

lemma fold_max_ge: "m \<le> fold max ks m \<and> (k \<in> set ks \<longrightarrow> k \<le> fold max ks m)" for k :: nat
proof (induction ks arbitrary: m)
  case (Cons a ks)
  from Cons [of "max a m"] show ?case by auto
qed simp

lemma mem_next_fresh: "map_of c (mem_next c) = None"
proof -
  have "k \<noteq> mem_next c" if "k \<in> set (map fst c)" for k
    using that fold_max_ge [of 0 "map fst c" k] by (auto simp: mem_next_def)
  then show ?thesis by (auto simp: map_of_eq_None_iff)
qed

interpretation mc: cron_service mem_cron map_of mem_valid
  by unfold_locales (auto simp: mem_cron_def mem_next_fresh)

section \<open>Properties\<close>

text \<open>
  C12: the scheduler implements a map from schedule ids to live schedules: adding or updating
  one writes that entry, or clears it when the schedule is disabled or its expression is
  refused, and reports an error only for a refused expression; removing clears it. No other
  schedule is affected, and the job map stays in step with the cron service, so that nothing
  runs that cannot be removed.
\<close>

theorem schedule_operations_refine:
  assumes "cron_service C entries valid" and "sched_ok entries s"
  shows "sched_ok entries (snd (AddOrUpdateSchedule C sid rid spec enabled s))
    \<and> sched_view entries (snd (AddOrUpdateSchedule C sid rid spec enabled s))
        = (sched_view entries s)(sid := if enabled \<and> valid spec then Some (rid, spec) else None)
    \<and> fst (AddOrUpdateSchedule C sid rid spec enabled s) = (\<not> enabled \<or> valid spec)
    \<and> sched_ok entries (RemoveSchedule C sid s)
    \<and> sched_view entries (RemoveSchedule C sid s) = (sched_view entries s)(sid := None)"
proof -
  obtain s' where "AddOrUpdateSchedule C sid rid spec enabled s = (enabled \<longrightarrow> valid spec, s')"
    "sched_ok entries s'"
    "sched_view entries s' = (sched_view entries s)(sid := if enabled \<and> valid spec then Some (rid, spec) else None)"
    by (rule cron_service.AddOrUpdateSchedule_correct [OF assms])
  with cron_service.RemoveSchedule_ok [OF assms] cron_service.RemoveSchedule_view [OF assms]
  show ?thesis by auto
qed

lemma demo_scheduler_ok: "sched_ok map_of (NewScheduler [])"
  by (rule mc.NewScheduler_ok) simp

lemma schedule_operations_refine_witness:
  "sched_view map_of (snd (AddOrUpdateSchedule mem_cron ''3'' ''7'' ''30 18 * * *'' True (NewScheduler []))) ''3''
     = Some (''7'', ''30 18 * * *'')"
  using schedule_operations_refine [OF mc.cron_service_axioms demo_scheduler_ok, of "''3''" "''7''" "''30 18 * * *''" True]
  by (simp add: mem_valid_def)

text \<open>
  \<open>GetScheduledJobCount\<close> counts the live schedules, and every live schedule that fires
  enqueues one evaluation of its own rule, without a device.
\<close>

theorem job_count_live:
  assumes "sched_ok entries s" and "q_ok q (q_calls q)"
    and "entries (s_cron s) i = Some (spec, j)"
  shows "GetScheduledJobCount s = card (dom (sched_view entries s))
    \<and> sched_view entries s (jobScheduleID j) = Some (jobRuleID j, spec)
    \<and> q_tasks (fire j q) = q_tasks q @ [evaluation_task (jobRuleID j) '''']"
proof -
  have ok: "jobs_ok (map_of (s_jobMap s)) (entries (s_cron s))" and dist: "distinct (map fst (s_jobMap s))"
    using assms(1) by (simp_all add: sched_ok_def)
  have "dom (sched_view entries s) = dom (map_of (s_jobMap s))"
    using jobs_ok_live [OF ok] by (fastforce simp: sched_view_def jobs_view_def split: option.splits)
  moreover have "card (fst ` set (s_jobMap s)) = length (s_jobMap s)"
    using distinct_card [OF dist] by simp
  ultimately have "card (dom (sched_view entries s)) = GetScheduledJobCount s"
    by (simp add: dom_map_of_conv_image_fst GetScheduledJobCount_def)
  moreover have "map_of (s_jobMap s) (jobScheduleID j) = Some i"
    using jobs_okD [OF ok] assms(3) by (simp add: entry_owner_def)
  ultimately show ?thesis
    using assms(2,3) by (simp add: sched_view_def jobs_view_def fire_def EnqueueEvaluation_def enqueue_def Let_def)
qed

lemma job_count_live_witness:
  "let s = snd (AddOrUpdateSchedule mem_cron ''3'' ''7'' ''30 18 * * *'' True (NewScheduler [])) in
   GetScheduledJobCount s = card (dom (sched_view map_of s))
   \<and> q_tasks (fire \<lparr>jobRuleID = ''7'', jobScheduleID = ''3''\<rparr> demo_queue) = [evaluation_task ''7'' '''']"
proof -
  let ?s = "snd (AddOrUpdateSchedule mem_cron ''3'' ''7'' ''30 18 * * *'' True (NewScheduler []))"
  obtain s' where "AddOrUpdateSchedule mem_cron ''3'' ''7'' ''30 18 * * *'' True (NewScheduler []) = (True \<longrightarrow> mem_valid ''30 18 * * *'', s')"
    and ok: "sched_ok map_of s'"
    by (rule mc.AddOrUpdateSchedule_correct [OF demo_scheduler_ok])
  then have "sched_ok map_of ?s" by simp
  moreover have "map_of (s_cron ?s) 1 = Some (''30 18 * * *'', \<lparr>jobRuleID = ''7'', jobScheduleID = ''3''\<rparr>)"
    by (simp add: AddOrUpdateSchedule_def AddJob_def RemoveSchedule_def NewScheduler_def mem_cron_def
        mem_valid_def mem_next_def Let_def)
  ultimately show ?thesis
    using job_count_live [of map_of ?s demo_queue 1] by (simp add: Let_def demo_queue_def)
qed

text \<open>
  \<open>LoadSchedules\<close> adds without removing, against its comment that it may be called whenever
  schedules change. Loading the same enabled schedule a second time leaves its first job in the
  cron service without an entry in the job map: removing the schedule then removes only the
  second, and the rule goes on being evaluated.
\<close>

theorem LoadSchedules_twice_leaks:
  assumes "cron_service C entries valid" and "db_up d" and "t_schedules d = [sch]" and "sEnabled sch"
    and "valid (sCronExpression sch)"
    and loaded: "s2 = fst (snd (LoadSchedules C (fst (snd (LoadSchedules C (NewScheduler c) d))) d))"
  shows "s_jobMap (RemoveSchedule C (sID sch) s2) = []
    \<and> (\<exists>i. entries (s_cron (RemoveSchedule C (sID sch) s2)) i
         = Some (sCronExpression sch, \<lparr>jobRuleID = sRuleID sch, jobScheduleID = sID sch\<rparr>))"
proof -
  let ?j = "\<lparr>jobRuleID = sRuleID sch, jobScheduleID = sID sch\<rparr>"
  obtain i c1 where 1: "cr_add C (sCronExpression sch) ?j c = (Some i, c1)"
    "entries c1 = (entries c)(i \<mapsto> (sCronExpression sch, ?j))"
    using cron_service.add_valid [OF assms(1,5)] by blast
  obtain k c2 where 2: "cr_add C (sCronExpression sch) ?j c1 = (Some k, c2)" "k \<notin> dom (entries c1)"
    "entries c2 = (entries c1)(k \<mapsto> (sCronExpression sch, ?j))"
    using cron_service.add_valid [OF assms(1,5)] by blast
  have s2: "s2 = \<lparr>s_cron = c2, s_jobMap = [(sID sch, k)]\<rparr>"
    using assms(2-4) 1(1) 2(1)
    by (simp add: loaded LoadSchedules_def GetAllSchedules_def query_up AddJob_def NewScheduler_def)
  from 1(2) 2(2) have "i \<noteq> k" by auto
  with 1(2) 2(3) show ?thesis
    by (auto simp: s2 RemoveSchedule_def cron_service.remove_entries [OF assms(1)] intro!: exI [of _ i])
qed

definition demo_schedule :: schedule where
  "demo_schedule = \<lparr>sID = ''3'', sRuleID = ''7'', sCronExpression = ''30 18 * * *'', sEnabled = True\<rparr>"

lemma LoadSchedules_twice_leaks_witness:
  "let d = demo_db [] [demo_schedule] [];
       s2 = fst (snd (LoadSchedules mem_cron (fst (snd (LoadSchedules mem_cron (NewScheduler []) d))) d)) in
   \<exists>i. map_of (s_cron (RemoveSchedule mem_cron ''3'' s2)) i
     = Some (''30 18 * * *'', \<lparr>jobRuleID = ''7'', jobScheduleID = ''3''\<rparr>)"
  using LoadSchedules_twice_leaks [OF mc.cron_service_axioms, of "demo_db [] [demo_schedule] []" demo_schedule _ "[]", OF _ _ _ _ refl]
  by (simp add: demo_schedule_def mem_valid_def Let_def) (simp add: demo_db_def)

end
