(* ===== verification/TimeExtractor.thy ===== *)
theory TimeExtractor
  imports Utils
begin

text \<open>
  \<open>internal/automation/time_extractor.go\<close>: the time conditions of a rule and the cron
  expressions they are scheduled with. The time text is read with
  \<open>fmt.Sscanf(s, "%d:%d", ...)\<close>, modelled here byte by byte: leading white space, an optional
  sign, digits, a colon, the same again; input beyond the second number is ignored.
\<close>

section \<open>Sscanf with two decimal verbs\<close>

text \<open>
  The bytes of the white-space rune at the head of the input, 0 if there is none: the ASCII
  ones, U+0085 and U+00A0, U+1680, U+2000 to U+200A, U+2028, U+2029, U+202F, U+205F, U+3000.
  A newline is not skipped, it is an error.
\<close>

definition space_len :: "string \<Rightarrow> nat" where
  "space_len s =
     (if take 1 s \<in> set [[CHR 0x09], [CHR 0x0B], [CHR 0x0C], [CHR 0x0D], [CHR 0x20]] then 1
      else if take 2 s \<in> set [[CHR 0xC2, CHR 0x85], [CHR 0xC2, CHR 0xA0]] then 2
      else if take 3 s \<in> set ([[CHR 0xE1, CHR 0x9A, CHR 0x80], [CHR 0xE2, CHR 0x81, CHR 0x9F],
                 [CHR 0xE3, CHR 0x80, CHR 0x80]]
               @ map (\<lambda>c. [CHR 0xE2, CHR 0x80, c])
                   [CHR 0x80, CHR 0x81, CHR 0x82, CHR 0x83, CHR 0x84, CHR 0x85, CHR 0x86, CHR 0x87,
                    CHR 0x88, CHR 0x89, CHR 0x8A, CHR 0xA8, CHR 0xA9, CHR 0xAF]) then 3
      else 0)"

function skip_space :: "string \<Rightarrow> string option" where
  "skip_space s =
     (if s = [] then Some []
      else if take 1 s = [CHR 0x0A] then None
      else if space_len s = 0 then Some s
      else skip_space (drop (space_len s) s))"
  by pat_completeness auto
termination
  by (relation "measure length") auto

declare skip_space.simps [simp del]

definition scan_sign :: "string \<Rightarrow> bool \<times> string" where
  "scan_sign s =
     (case s of
        [] \<Rightarrow> (False, [])
      | c # cs \<Rightarrow> if c = CHR ''-'' then (True, cs) else if c = CHR ''+'' then (False, cs) else (False, s))"

definition scan_int :: "string \<Rightarrow> (int \<times> string) option" where
  "scan_int s =
     (case skip_space s of
        None \<Rightarrow> None
      | Some s1 \<Rightarrow>
          (let (neg, s2) = scan_sign s1;
               tok = takeWhile is_digit s2;
               v = (if neg then - int (digits_val tok) else int (digits_val tok))
           in if tok = [] then None
              else if v < - (2 ^ 63) \<or> 2 ^ 63 \<le> v then None
              else Some (v, dropWhile is_digit s2)))"

definition sscanf_d_colon_d :: "string \<Rightarrow> (int \<times> int) option" where
  "sscanf_d_colon_d s =
     (case scan_int s of
        None \<Rightarrow> None
      | Some (a, s1) \<Rightarrow>
          (case s1 of
             [] \<Rightarrow> None
           | c # s2 \<Rightarrow>
               if c \<noteq> CHR '':'' then None
               else (case scan_int s2 of None \<Rightarrow> None | Some (b, _) \<Rightarrow> Some (a, b))))"

section \<open>Extraction\<close>

record time_condition =
  tcHour :: int
  tcMinute :: int
  tcOperator :: string

definition time_op :: "string \<Rightarrow> bool" where
  "time_op op \<longleftrightarrow> op = ''=='' \<or> op = ''<'' \<or> op = ''>''"

fun extractTimeConditionsRecursive :: "condition \<Rightarrow> time_condition list \<Rightarrow> time_condition list"
  and extractTimeChildren :: "condition list \<Rightarrow> time_condition list \<Rightarrow> time_condition list"
where
  "extractTimeConditionsRecursive (Condition f cs) tcs =
     (if cType f = ''time'' \<and> time_op (cOp f) then
        (case unmarshal_string (cValue f) of
           None \<Rightarrow> tcs
         | Some timeValue \<Rightarrow>
             (case sscanf_d_colon_d timeValue of
                None \<Rightarrow> tcs
              | Some (hour, minute) \<Rightarrow>
                  if hour < 0 \<or> hour > 23 \<or> minute < 0 \<or> minute > 59 then tcs
                  else extractTimeChildren cs
                         (tcs @ [\<lparr>tcHour = hour, tcMinute = minute, tcOperator = cOp f\<rparr>])))
      else extractTimeChildren cs tcs)"
| "extractTimeChildren [] tcs = tcs"
| "extractTimeChildren (c # cs) tcs = extractTimeChildren cs (extractTimeConditionsRecursive c tcs)"

definition ExtractTimeConditions :: "raw \<Rightarrow> time_condition list" where
  "ExtractTimeConditions conditionsRaw =
     (case unmarshal_condition conditionsRaw of
        None \<Rightarrow> []
      | Some condition \<Rightarrow> extractTimeConditionsRecursive condition [])"

definition ConvertToCronExpression :: "time_condition \<Rightarrow> string" where
  "ConvertToCronExpression tc = show_int (tcMinute tc) @ '' '' @ show_int (tcHour tc) @ '' * * *''"

definition HasTimeConditions :: "raw \<Rightarrow> bool" where
  "HasTimeConditions conditionsRaw \<longleftrightarrow> length (ExtractTimeConditions conditionsRaw) > 0"

section \<open>What is extracted\<close>

text \<open>
  The reference reading of one node: the time it names, if the code accepts it. A node whose
  time text is rejected hides its whole subtree.
\<close>

definition node_time :: "cond_fields \<Rightarrow> time_condition option" where
  "node_time f =
     (case unmarshal_string (cValue f) of
        None \<Rightarrow> None
      | Some s \<Rightarrow>
          (case sscanf_d_colon_d s of
             None \<Rightarrow> None
           | Some (h, m) \<Rightarrow>
               if 0 \<le> h \<and> h \<le> 23 \<and> 0 \<le> m \<and> m \<le> 59
               then Some \<lparr>tcHour = h, tcMinute = m, tcOperator = cOp f\<rparr> else None))"

definition time_node :: "cond_fields \<Rightarrow> bool" where
  "time_node f \<longleftrightarrow> cType f = ''time'' \<and> time_op (cOp f)"

fun time_conditions :: "condition \<Rightarrow> time_condition list" where
  "time_conditions (Condition f cs) =
     (if time_node f then
        (case node_time f of None \<Rightarrow> [] | Some tc \<Rightarrow> tc # concat (map time_conditions cs))
      else concat (map time_conditions cs))"

lemma extract_children_append:
  assumes "\<And>c tcs. c \<in> set cs \<Longrightarrow> extractTimeConditionsRecursive c tcs = tcs @ time_conditions c"
  shows "extractTimeChildren cs tcs = tcs @ concat (map time_conditions cs)"
  using assms by (induction cs arbitrary: tcs) auto

lemma extract_time_conditions:
  "extractTimeConditionsRecursive c tcs = tcs @ time_conditions c"
proof (induction c arbitrary: tcs)
  case (Condition f cs)
  then have "extractTimeChildren cs acc = acc @ concat (map time_conditions cs)" for acc
    by (intro extract_children_append) simp
  then show ?case
    by (auto simp: time_node_def node_time_def split: option.split)
qed

lemma ExtractTimeConditions_eq:
  "ExtractTimeConditions r = (case unmarshal_condition r of None \<Rightarrow> [] | Some c \<Rightarrow> time_conditions c)"
  by (simp add: ExtractTimeConditions_def extract_time_conditions split: option.split)

definition tc_ok :: "time_condition \<Rightarrow> bool" where
  "tc_ok tc \<longleftrightarrow> 0 \<le> tcHour tc \<and> tcHour tc \<le> 23 \<and> 0 \<le> tcMinute tc \<and> tcMinute tc \<le> 59
     \<and> time_op (tcOperator tc)"

lemma node_time_ok: "time_node f \<Longrightarrow> node_time f = Some tc \<Longrightarrow> tc_ok tc"
  by (auto simp: node_time_def time_node_def tc_ok_def split: option.splits if_splits)

lemma time_conditions_ok: "tc \<in> set (time_conditions c) \<Longrightarrow> tc_ok tc"
  by (induction c) (auto simp: node_time_ok split: option.splits if_splits)

section \<open>Sscanf against time.Parse\<close>

lemma digit_not:
  assumes "is_digit c"
  shows "c \<noteq> CHR 0x09" "c \<noteq> CHR 0x0A" "c \<noteq> CHR 0x0B" "c \<noteq> CHR 0x0C" "c \<noteq> CHR 0x0D" "c \<noteq> CHR 0x20"
    "c \<noteq> CHR 0xC2" "c \<noteq> CHR 0xE1" "c \<noteq> CHR 0xE2" "c \<noteq> CHR 0xE3" "c \<noteq> CHR ''-''" "c \<noteq> CHR ''+''"
  using assms by (auto simp: is_digit_def)

lemma space_len_digit: "is_digit c \<Longrightarrow> space_len (c # cs) = 0"
  by (simp add: space_len_def digit_not)

lemma skip_space_digit: "is_digit c \<Longrightarrow> skip_space (c # cs) = Some (c # cs)"
  by (subst skip_space.simps) (simp add: space_len_digit digit_not)

lemma scan_sign_digit: "is_digit c \<Longrightarrow> scan_sign (c # cs) = (False, c # cs)"
  by (simp add: scan_sign_def digit_not)

lemma colon_no_digit [simp]: "\<not> is_digit (CHR '':'')"
  by (simp add: is_digit_def)

lemma digit_val_less: "is_digit c \<Longrightarrow> digit_val c < 10"
  unfolding digit_val_def is_digit_def by linarith

text \<open>Every time the evaluator accepts is read by the extractor as the same hour and minute.\<close>

lemma sscanf_parse_15_04:
  assumes "parse_15_04 s = Some (h, m)"
  shows "sscanf_d_colon_d s = Some (int h, int m)"
  using parse_15_04_range [OF assms]
  by (cases rule: parse_15_04_Some [OF assms])
    (simp_all add: sscanf_d_colon_d_def scan_int_def skip_space_digit scan_sign_digit digits_val_def)

lemma node_time_parse:
  assumes "cValue f = Some (JStr s)" and "parse_15_04 s = Some (h, m)"
  shows "node_time f = Some \<lparr>tcHour = int h, tcMinute = int m, tcOperator = cOp f\<rparr>"
  using sscanf_parse_15_04 [OF assms(2)] parse_15_04_range [OF assms(2)] assms(1)
  by (simp add: node_time_def unmarshal_string_def)

section \<open>Cron expressions\<close>

lemma space_no_digit: "CHR '' '' \<notin> set (show_int i)"
  using show_nat_no_digit [of "CHR '' ''"] by (simp add: show_int_def is_digit_def)

lemma show_int_inj_nonneg: "0 \<le> i \<Longrightarrow> 0 \<le> j \<Longrightarrow> show_int i = show_int j \<longleftrightarrow> i = j"
  by (simp add: show_int_def nat_eq_iff)

lemma ConvertToCronExpression_inj:
  assumes "tc_ok tc" and "tc_ok tc'"
  shows "ConvertToCronExpression tc = ConvertToCronExpression tc'
     \<longleftrightarrow> tcHour tc = tcHour tc' \<and> tcMinute tc = tcMinute tc'"
proof -
  have "ConvertToCronExpression tc = ConvertToCronExpression tc'
     \<longleftrightarrow> show_int (tcMinute tc) = show_int (tcMinute tc') \<and> show_int (tcHour tc) = show_int (tcHour tc')"
    by (simp add: ConvertToCronExpression_def append_sep_eq_iff space_no_digit)
  also have "\<dots> \<longleftrightarrow> tcMinute tc = tcMinute tc' \<and> tcHour tc = tcHour tc'"
    using assms by (simp add: show_int_inj_nonneg tc_ok_def)
  finally show ?thesis by auto
qed

section \<open>Properties\<close>

text \<open>
  the extractor finds the time conditions of a whole rule. When every time node of the
  tree (type \<open>time\<close> with an order or equality operator) names a time of day, the result is
  that of all of them, at any depth, in document order; and every result has an hour of 0 to
  23, a minute of 0 to 59 and one of the three operators.
\<close>

theorem ExtractTimeConditions_all:
  assumes "unmarshal_condition r = Some c"
    and "list_all (\<lambda>f. node_time f \<noteq> None) (filter time_node (nodes c))"
  shows "ExtractTimeConditions r = map (the \<circ> node_time) (filter time_node (nodes c))
    \<and> list_all tc_ok (ExtractTimeConditions r)"
proof -
  have "time_conditions c = map (the \<circ> node_time) (filter time_node (nodes c))"
    using assms(2)
  proof (induction c)
    case (Condition f cs)
    have "time_conditions c = map (the \<circ> node_time) (filter time_node (nodes c))" if "c \<in> set cs" for c
    proof (rule Condition.IH [OF that])
      show "list_all (\<lambda>f. node_time f \<noteq> None) (filter time_node (nodes c))"
        using that Condition.prems by (auto simp: list_all_iff split: if_splits)
    qed
    then have "map time_conditions cs = map (\<lambda>c. map (the \<circ> node_time) (filter time_node (nodes c))) cs"
      by simp
    with Condition.prems show ?case
      by (auto simp: filter_concat map_concat comp_def cong: map_cong)
  qed
  then show ?thesis
    using assms(1) time_conditions_ok [of _ c] by (auto simp: ExtractTimeConditions_eq list_all_iff)
qed

definition demo_times :: condition where
  "demo_times = Condition (zero_fields\<lparr>cOperator := ''AND''\<rparr>)
     [Condition (zero_fields\<lparr>cType := ''time'', cOp := ''>'', cValue := Some (JStr ''18:30'')\<rparr>) [],
      Condition (zero_fields\<lparr>cType := ''sensor'', cOp := ''>'', cValue := Some (JNum 3)\<rparr>) [],
      Condition (zero_fields\<lparr>cType := ''time'', cOp := ''<'', cValue := Some (JStr ''22:00'')\<rparr>) []]"

lemma demo_parse:
  "parse_15_04 ''18:30'' = Some (18, 30)" "parse_15_04 ''22:00'' = Some (22, 0)"
  "parse_15_04 ''8:05'' = Some (8, 5)" "parse_15_04 ''18:5'' = None"
  by (simp_all add: parse_15_04_def getnum_def is_digit_def digit_val_def)

lemma demo_node_time:
  "node_time (zero_fields\<lparr>cType := ''time'', cOp := ''>'', cValue := Some (JStr ''18:30'')\<rparr>)
     = Some \<lparr>tcHour = 18, tcMinute = 30, tcOperator = ''>''\<rparr>"
  "node_time (zero_fields\<lparr>cType := ''time'', cOp := ''<'', cValue := Some (JStr ''22:00'')\<rparr>)
     = Some \<lparr>tcHour = 22, tcMinute = 0, tcOperator = ''<''\<rparr>"
  by (simp_all add: node_time_parse [OF _ demo_parse(1)] node_time_parse [OF _ demo_parse(2)])

lemma ExtractTimeConditions_all_witness:
  "ExtractTimeConditions (Some (enc_condition demo_times))
   = [\<lparr>tcHour = 18, tcMinute = 30, tcOperator = ''>''\<rparr>, \<lparr>tcHour = 22, tcMinute = 0, tcOperator = ''<''\<rparr>]"
proof -
  have "filter time_node (nodes demo_times)
      = [zero_fields\<lparr>cType := ''time'', cOp := ''>'', cValue := Some (JStr ''18:30'')\<rparr>,
         zero_fields\<lparr>cType := ''time'', cOp := ''<'', cValue := Some (JStr ''22:00'')\<rparr>]"
    by (simp add: demo_times_def time_node_def time_op_def zero_fields_def)
  with ExtractTimeConditions_all [of "Some (enc_condition demo_times)" demo_times] show ?thesis
    by (simp add: demo_node_time)
qed

text \<open>
  the two readers of a time text agree where it matters: whenever the evaluator
  (\<open>time.Parse\<close>) accepts a text, the extractor (\<open>fmt.Sscanf\<close>) schedules the same hour and
  minute, and two time conditions get the same cron expression exactly when they name the same
  minute of the day.
\<close>

theorem evaluated_times_scheduled:
  assumes "cValue f = Some (JStr s)" and "parse_15_04 s = Some (h, m)" and "tc_ok tc"
  shows "\<exists>tc0. node_time f = Some tc0
    \<and> (ConvertToCronExpression tc0 = ConvertToCronExpression tc \<longleftrightarrow> int h = tcHour tc \<and> int m = tcMinute tc)"
proof -
  let ?tc0 = "\<lparr>tcHour = int h, tcMinute = int m, tcOperator = ''==''\<rparr>"
  let ?tc1 = "\<lparr>tcHour = int h, tcMinute = int m, tcOperator = cOp f\<rparr>"
  have "ConvertToCronExpression ?tc1 = ConvertToCronExpression ?tc0"
    by (simp add: ConvertToCronExpression_def)
  moreover have "tc_ok ?tc0" using parse_15_04_range [OF assms(2)] by (simp add: tc_ok_def time_op_def)
  ultimately show ?thesis
    using ConvertToCronExpression_inj [OF _ assms(3), of ?tc0] node_time_parse [OF assms(1,2)] by simp
qed

lemma evaluated_times_scheduled_witness:
  "\<exists>tc0. node_time (zero_fields\<lparr>cValue := Some (JStr ''8:05'')\<rparr>) = Some tc0
    \<and> ConvertToCronExpression tc0 = ConvertToCronExpression \<lparr>tcHour = 8, tcMinute = 5, tcOperator = ''=='' \<rparr>"
proof -
  from evaluated_times_scheduled [OF _ demo_parse(3), of "zero_fields\<lparr>cValue := Some (JStr ''8:05'')\<rparr>"
      "\<lparr>tcHour = 8, tcMinute = 5, tcOperator = ''==''\<rparr>"]
  show ?thesis by (simp add: tc_ok_def time_op_def)
qed

text \<open>
  the converse fails: the text \<open>18:5\<close> gets a schedule although the evaluator rejects it, so
  the comparison is false at every clock time and with every operator.
\<close>

theorem scheduled_never_true:
  "node_time (zero_fields\<lparr>cType := ''time'', cOp := op, cValue := Some (JStr ''18:5'')\<rparr>)
     = Some \<lparr>tcHour = 18, tcMinute = 5, tcOperator = op\<rparr>
   \<and> \<not> Compare (TimeV t) op' (JStr ''18:5'')"
proof -
  have "sscanf_d_colon_d ''18:5'' = Some (18, 5)"
    by (simp add: sscanf_d_colon_d_def scan_int_def skip_space_digit scan_sign_digit
        digits_val_def digit_val_def is_digit_def)
  then show ?thesis by (simp add: node_time_def unmarshal_string_def demo_parse zero_fields_def)
qed

end
