(* ===== verification/Engine.thy ===== *)
theory Engine
  imports Scheduler TimeExtractor
begin

text \<open>
  \<open>internal/engine/engine.go\<close>: the engine over its four resources, which its operations
  share: the Redis server, the database, the scheduler and the queue. The Boolean of an
  operation is \<open>err == nil\<close>; the errors the code only logs are dropped here as well.
  \<open>Stop\<close> disconnects the MQTT client and changes none of these.
\<close>

record ('r, 'c) engine =
  e_redis :: 'r
  e_db :: db
  e_sched :: "'c scheduler"
  e_queue :: queue

section \<open>Device updates\<close>

text \<open>The payload of an MQTT message is decoded into a nil map.\<close>

definition onDeviceUpdate :: "string \<Rightarrow> raw \<Rightarrow> queue \<Rightarrow> queue" where
  "onDeviceUpdate topic payload q =
     (let deviceID = ParseDeviceID topic in
      case unmarshal_map payload of
        None \<Rightarrow> q
      | Some state \<Rightarrow> snd (EnqueueDeviceUpdate deviceID state q))"

definition TriggerRuleEvaluation :: "string \<Rightarrow> queue \<Rightarrow> queue" where
  "TriggerRuleEvaluation ruleID q = snd (EnqueueEvaluation ruleID '''' q)"

section \<open>The devices of a rule\<close>

text \<open>
  The id sets are Go maps; \<open>iter\<close> is the order their keys are visited in. The loop over the
  conditions carries the map built so far.
\<close>

fun collect_device_ids :: "(string list \<Rightarrow> string list) \<Rightarrow> condition list \<Rightarrow> string list \<Rightarrow> string list" where
  "collect_device_ids iter [] deviceIDs = deviceIDs"
| "collect_device_ids iter (Condition f cs # rest) deviceIDs =
     (let ids1 = (if cDeviceID f \<noteq> '''' then List.insert (cDeviceID f) deviceIDs else deviceIDs);
          ids2 = (if length cs > 0 then fold List.insert (iter (collect_device_ids iter cs [])) ids1 else ids1)
      in collect_device_ids iter rest ids2)"

definition extractDeviceIDsFromConditions :: "(string list \<Rightarrow> string list) \<Rightarrow> condition list \<Rightarrow> string list" where
  "extractDeviceIDsFromConditions iter conditions = iter (collect_device_ids iter conditions [])"

definition extractDeviceIDsFromConditionTree :: "(string list \<Rightarrow> string list) \<Rightarrow> condition \<Rightarrow> string list" where
  "extractDeviceIDsFromConditionTree iter condition =
     (let ids1 = (if cDeviceID (Fields condition) \<noteq> '''' then [cDeviceID (Fields condition)] else []);
          ids2 = (if length (Children condition) > 0
                  then fold List.insert (extractDeviceIDsFromConditions iter (Children condition)) ids1 else ids1)
      in iter ids2)"

section \<open>Associations\<close>

definition rules_pattern :: string where
  "rules_pattern = ''device:*:rules''"

definition del_keys :: "'r redis_api \<Rightarrow> string list \<Rightarrow> 'r \<Rightarrow> 'r" where
  "del_keys R keys r = fold (\<lambda>key r. snd (rc_del R key r)) keys r"

definition srem_keys :: "'r redis_api \<Rightarrow> string \<Rightarrow> string list \<Rightarrow> 'r \<Rightarrow> 'r" where
  "srem_keys R ruleID keys r = fold (\<lambda>key r. snd (rc_srem R key ruleID r)) keys r"

definition sadd_devices :: "'r redis_api \<Rightarrow> string \<Rightarrow> string list \<Rightarrow> 'r \<Rightarrow> 'r" where
  "sadd_devices R ruleID deviceIDs r = fold (\<lambda>deviceID r. snd (rc_sadd R (rules_key deviceID) ruleID r)) deviceIDs r"

definition associate_rule :: "'r redis_api \<Rightarrow> (string list \<Rightarrow> string list) \<Rightarrow> rule \<Rightarrow> 'r \<Rightarrow> 'r" where
  "associate_rule R iter rule r =
     (if \<not> rEnabled rule then r
      else (case unmarshal_condition (rConditions rule) of
              None \<Rightarrow> r
            | Some condition \<Rightarrow>
                sadd_devices R (rID rule) (extractDeviceIDsFromConditionTree iter condition) r))"

definition populateDeviceRuleAssociations ::
  "'r redis_api \<Rightarrow> (string list \<Rightarrow> string list) \<Rightarrow> ('r, 'c) engine \<Rightarrow> bool \<times> ('r, 'c) engine" where
  "populateDeviceRuleAssociations R iter e =
     (case GetAllRules (e_db e) of
        (Inl _, d1) \<Rightarrow> (False, e\<lparr>e_db := d1\<rparr>)
      | (Inr rules, d1) \<Rightarrow>
          (case rc_keys R (e_redis e) rules_pattern of
             Inl _ \<Rightarrow> (False, e\<lparr>e_db := d1\<rparr>)
           | Inr keys \<Rightarrow>
               (True, e\<lparr>e_db := d1,
                        e_redis := fold (associate_rule R iter) rules (del_keys R keys (e_redis e))\<rparr>)))"

definition RefreshAllRuleAssociations ::
  "'r redis_api \<Rightarrow> (string list \<Rightarrow> string list) \<Rightarrow> ('r, 'c) engine \<Rightarrow> bool \<times> ('r, 'c) engine" where
  "RefreshAllRuleAssociations R iter e = populateDeviceRuleAssociations R iter e"

section \<open>Schedules of a rule\<close>

fun create_schedules ::
  "'c cron_api \<Rightarrow> string \<Rightarrow> bool \<Rightarrow> time_condition list \<Rightarrow> 'c scheduler \<times> db \<Rightarrow> 'c scheduler \<times> db" where
  "create_schedules C ruleID enabled [] sd = sd"
| "create_schedules C ruleID enabled (tc # tcs) (s, d) =
     (let cronExpr = ConvertToCronExpression tc in
      create_schedules C ruleID enabled tcs
        (case GetScheduleByRuleAndCron ruleID cronExpr d of
           (Inl _, d1) \<Rightarrow>
             (case CreateSchedule ruleID cronExpr enabled d1 of
                (Inl _, d2) \<Rightarrow> (s, d2)
              | (Inr scheduleID, d2) \<Rightarrow> (snd (AddOrUpdateSchedule C scheduleID ruleID cronExpr enabled s), d2))
         | (Inr existing, d1) \<Rightarrow>
             (case UpdateSchedule (sID existing) cronExpr enabled d1 of
                (Inl _, d2) \<Rightarrow> (s, d2)
              | (Inr _, d2) \<Rightarrow> (snd (AddOrUpdateSchedule C (sID existing) ruleID cronExpr enabled s), d2))))"

definition createSchedulesFromTimeConditions ::
  "'c cron_api \<Rightarrow> string \<Rightarrow> raw \<Rightarrow> bool \<Rightarrow> 'c scheduler \<times> db \<Rightarrow> 'c scheduler \<times> db" where
  "createSchedulesFromTimeConditions C ruleID conditionsRaw enabled sd =
     (let timeConditions = ExtractTimeConditions conditionsRaw in
      if length timeConditions = 0 then sd else create_schedules C ruleID enabled timeConditions sd)"

definition add_schedules :: "'c cron_api \<Rightarrow> schedule list \<Rightarrow> 'c scheduler \<Rightarrow> 'c scheduler" where
  "add_schedules C schedules s =
     fold (\<lambda>sch s. snd (AddOrUpdateSchedule C (sID sch) (sRuleID sch) (sCronExpression sch) (sEnabled sch) s))
       schedules s"

definition refreshSchedulesForRule :: "'c cron_api \<Rightarrow> string \<Rightarrow> 'c scheduler \<times> db \<Rightarrow> 'c scheduler \<times> db" where
  "refreshSchedulesForRule C ruleID sd =
     (case sd of (s, d) \<Rightarrow>
        (case GetRuleByID ruleID d of
           (Inl _, d1) \<Rightarrow> (s, d1)
         | (Inr rule, d1) \<Rightarrow>
             (case (if HasTimeConditions (rConditions rule)
                    then createSchedulesFromTimeConditions C ruleID (rConditions rule) (rEnabled rule) (s, d1)
                    else (s, d1)) of
                (s2, d2) \<Rightarrow>
                  (case GetSchedulesByRuleID ruleID d2 of
                     (Inl _, d3) \<Rightarrow> (s2, d3)
                   | (Inr schedules, d3) \<Rightarrow> (add_schedules C schedules s2, d3)))))"

definition remove_schedules :: "'c cron_api \<Rightarrow> schedule list \<Rightarrow> 'c scheduler \<times> db \<Rightarrow> 'c scheduler \<times> db" where
  "remove_schedules C schedules sd =
     fold (\<lambda>sch (s, d). (RemoveSchedule C (sID sch) s, snd (DeleteSchedule (sID sch) d))) schedules sd"

definition removeSchedulesForRule :: "'c cron_api \<Rightarrow> string \<Rightarrow> 'c scheduler \<times> db \<Rightarrow> 'c scheduler \<times> db" where
  "removeSchedulesForRule C ruleID sd =
     (case sd of (s, d) \<Rightarrow>
        (case GetSchedulesByRuleID ruleID d of
           (Inl _, d1) \<Rightarrow> (s, d1)
         | (Inr schedules, d1) \<Rightarrow> remove_schedules C schedules (s, d1)))"

section \<open>Rules\<close>

definition on_schedules ::
  "('c scheduler \<times> db \<Rightarrow> 'c scheduler \<times> db) \<Rightarrow> ('r, 'c) engine \<Rightarrow> ('r, 'c) engine" where
  "on_schedules f e = (case f (e_sched e, e_db e) of (s, d) \<Rightarrow> e\<lparr>e_sched := s, e_db := d\<rparr>)"

definition RefreshRuleAssociations ::
  "'r redis_api \<Rightarrow> 'c cron_api \<Rightarrow> (string list \<Rightarrow> string list) \<Rightarrow> string \<Rightarrow> ('r, 'c) engine
     \<Rightarrow> bool \<times> ('r, 'c) engine" where
  "RefreshRuleAssociations R C iter ruleID e =
     (case GetRuleByID ruleID (e_db e) of
        (Inl _, d1) \<Rightarrow> (False, e\<lparr>e_db := d1\<rparr>)
      | (Inr rule, d1) \<Rightarrow>
          (case rc_keys R (e_redis e) rules_pattern of
             Inl _ \<Rightarrow> (False, e\<lparr>e_db := d1\<rparr>)
           | Inr keys \<Rightarrow>
               let e1 = e\<lparr>e_db := d1, e_redis := srem_keys R ruleID keys (e_redis e)\<rparr> in
               if \<not> rEnabled rule then (True, e1)
               else (case unmarshal_condition (rConditions rule) of
                       None \<Rightarrow> (False, e1)
                     | Some condition \<Rightarrow>
                         let deviceIDs = extractDeviceIDsFromConditionTree iter condition;
                             e2 = e1\<lparr>e_redis := sadd_devices R (rID rule) deviceIDs (e_redis e1)\<rparr>
                         in (True, on_schedules (refreshSchedulesForRule C ruleID) e2))))"

definition RemoveRuleAssociations ::
  "'r redis_api \<Rightarrow> 'c cron_api \<Rightarrow> string \<Rightarrow> ('r, 'c) engine \<Rightarrow> bool \<times> ('r, 'c) engine" where
  "RemoveRuleAssociations R C ruleID e =
     (case rc_keys R (e_redis e) rules_pattern of
        Inl _ \<Rightarrow> (False, e)
      | Inr keys \<Rightarrow>
          (True, on_schedules (removeSchedulesForRule C ruleID)
                   (e\<lparr>e_redis := srem_keys R ruleID keys (e_redis e)\<rparr>)))"

definition ReloadAllSchedules ::
  "'c cron_api \<Rightarrow> ((string, nat) gomap \<Rightarrow> (string, nat) gomap) \<Rightarrow> ('r, 'c) engine \<Rightarrow> bool \<times> ('r, 'c) engine" where
  "ReloadAllSchedules C iter e =
     (case ReloadSchedules C iter (e_sched e) (e_db e) of (ok, s, d) \<Rightarrow> (ok, e\<lparr>e_sched := s, e_db := d\<rparr>))"

definition Start ::
  "'r redis_api \<Rightarrow> 'c cron_api \<Rightarrow> (string list \<Rightarrow> string list) \<Rightarrow> ('r, 'c) engine \<Rightarrow> bool \<times> ('r, 'c) engine" where
  "Start R C iter e =
     (case LoadSchedules C (e_sched e) (e_db e) of
        (ok, s, d) \<Rightarrow>
          let e1 = e\<lparr>e_sched := s, e_db := d\<rparr> in
          if \<not> ok then (False, e1) else populateDeviceRuleAssociations R iter e1)"

section \<open>The device ids of a tree\<close>

definition device_ids :: "condition \<Rightarrow> string set" where
  "device_ids c = cDeviceID ` set (nodes c) - {''''}"

lemma device_ids_simps:
  "device_ids (Condition f cs) = (if cDeviceID f \<noteq> '''' then {cDeviceID f} else {}) \<union> (\<Union>c \<in> set cs. device_ids c)"
  by (auto simp: device_ids_def)

lemma set_fold_insert [simp]: "set (fold List.insert xs ys) = set ys \<union> set xs"
  by (induction xs arbitrary: ys) auto

lemma distinct_fold_insert [simp]: "distinct ys \<Longrightarrow> distinct (fold List.insert xs ys)"
  by (induction xs arbitrary: ys) auto

lemma collect_device_ids_set:
  "visit_order iter \<Longrightarrow>
     set (collect_device_ids iter cs ids) = set ids \<union> (\<Union>c \<in> set cs. device_ids c)"
proof (induction iter cs ids rule: collect_device_ids.induct)
  case (2 iter f cs rest ids)
  then show ?case
    by (cases cs) (auto simp: Let_def visit_order_set device_ids_simps)
qed simp

lemma extractDeviceIDs_set:
  assumes "visit_order iter"
  shows "set (extractDeviceIDsFromConditionTree iter c) = device_ids c"
proof (cases c)
  case (Condition f cs)
  with assms show ?thesis
    by (auto simp: extractDeviceIDsFromConditionTree_def extractDeviceIDsFromConditions_def Let_def
        visit_order_set collect_device_ids_set device_ids_simps)
qed

lemma visit_order_distinct: "visit_order iter \<Longrightarrow> distinct m \<Longrightarrow> distinct (iter m)"
  using visit_order_map_fst [of iter "\<lambda>x. x" m] by simp

lemma extractDeviceIDs_distinct:
  "visit_order iter \<Longrightarrow> distinct (extractDeviceIDsFromConditionTree iter c)"
  by (simp add: extractDeviceIDsFromConditionTree_def Let_def visit_order_distinct)

lemma leaves_nodes: "set (leaves c) \<subseteq> set (nodes c)"
proof (induction c)
  case (Condition f cs)
  then show ?case by (simp add: UN_mono subset_insertI2)
qed

definition raw_device_ids :: "raw \<Rightarrow> string set" where
  "raw_device_ids r = (case unmarshal_condition r of None \<Rightarrow> {} | Some c \<Rightarrow> device_ids c)"

section \<open>The associations held by the server\<close>

text \<open>What the rule sets should be, given the rules: the enabled ones that name the device.\<close>

definition wanted :: "rule list \<Rightarrow> string \<Rightarrow> string set" where
  "wanted rules d = {rID x |x. x \<in> set rules \<and> rEnabled x \<and> d \<in> raw_device_ids (rConditions x)}"

definition associations :: "rview \<Rightarrow> string \<Rightarrow> string set" where
  "associations w d = key_members w (rules_key d)"

text \<open>Only keys of the form \<open>device:<id>:rules\<close> differ.\<close>

definition rules_keys_only :: "rview \<Rightarrow> rview \<Rightarrow> bool" where
  "rules_keys_only w w' \<longleftrightarrow> (\<forall>k. k \<notin> range rules_key \<longrightarrow> w' k = w k)"

lemma rules_keys_only_refl [simp]: "rules_keys_only w w"
  by (simp add: rules_keys_only_def)

lemma rules_keys_only_trans: "rules_keys_only w w' \<Longrightarrow> rules_keys_only w' w'' \<Longrightarrow> rules_keys_only w w''"
  by (simp add: rules_keys_only_def)

text \<open>No device state occupies the key of a rule set.\<close>

definition rules_typed :: "rview \<Rightarrow> bool" where
  "rules_typed w \<longleftrightarrow> (\<forall>d. \<not> holds_string w (rules_key d))"

context redis_server begin

lemma rules_keys:
  obtains ks where "rc_keys R r rules_pattern = Inr ks"
    and "set ks = range rules_key \<inter> dom (view r)"
proof -
  have "glob_plain ''device:''" and "glob_plain '':rules''" by (simp_all add: glob_plain_def)
  from keys_star [OF this, of r] obtain ks where
    "rc_keys R r (''device:'' @ ''*'' @ '':rules'') = Inr ks"
    "set ks = {k. view r k \<noteq> None \<and> (\<exists>m. k = ''device:'' @ m @ '':rules'')}" by auto
  then show thesis
    by (intro that) (auto simp: rules_pattern_def rules_key_def)
qed

lemma view_del_keys: "view (del_keys R ks r) k = (if k \<in> set ks then None else view r k)"
  unfolding del_keys_def by (induction ks arbitrary: r) (auto simp: del_view)

lemma sadd_devices_view:
  assumes "rules_typed (view r)"
  shows "rules_typed (view (sadd_devices R i ds r))
    \<and> (\<forall>d. associations (view (sadd_devices R i ds r)) d
           = (if d \<in> set ds then insert i (associations (view r) d) else associations (view r) d))
    \<and> rules_keys_only (view r) (view (sadd_devices R i ds r))"
  using assms
proof (induction ds arbitrary: r)
  case Nil
  then show ?case by (simp add: sadd_devices_def)
next
  case (Cons d ds)
  let ?r1 = "snd (rc_sadd R (rules_key d) i r)"
  have v: "view ?r1 = put_members (rules_key d) (insert i (associations (view r) d)) (key_ttl (view r) (rules_key d)) (view r)"
    using Cons.prems by (simp add: sadd_view rules_typed_def associations_def)
  have "rules_typed (view ?r1)" using Cons.prems by (auto simp: v rules_typed_def)
  moreover have "associations (view ?r1) d' = (if d' = d then insert i (associations (view r) d) else associations (view r) d')" for d'
    by (simp add: v associations_def)
  moreover have "rules_keys_only (view r) (view ?r1)"
    by (auto simp: v rules_keys_only_def put_members_def)
  moreover have "sadd_devices R i (d # ds) r = sadd_devices R i ds ?r1" by (simp add: sadd_devices_def)
  ultimately show ?case
    using Cons.IH [of ?r1] by (auto intro: rules_keys_only_trans)
qed

lemma srem_one:
  "(\<forall>k'. holds_string (view (snd (rc_srem R k i r))) k' = holds_string (view r) k')
   \<and> (\<forall>k'. key_members (view (snd (rc_srem R k i r))) k'
        = (if k' = k then key_members (view r) k' - {i} else key_members (view r) k'))
   \<and> (\<forall>k'. k' \<noteq> k \<longrightarrow> view (snd (rc_srem R k i r)) k' = view r k')"
proof (cases "holds_string (view r) k")
  case True
  then have "key_members (view r) k = {}"
    by (auto simp: holds_string_def key_string_def key_members_def split: option.splits rval.splits)
  with True show ?thesis by (simp add: srem_string)
next
  case False
  then show ?thesis by (auto simp: srem_view put_members_def key_members_def holds_string_def key_string_def)
qed

lemma srem_keys_view:
  "(\<forall>k. holds_string (view (srem_keys R i ks r)) k = holds_string (view r) k)
   \<and> (\<forall>k. key_members (view (srem_keys R i ks r)) k
        = (if k \<in> set ks then key_members (view r) k - {i} else key_members (view r) k))
   \<and> (\<forall>k. k \<notin> set ks \<longrightarrow> view (srem_keys R i ks r) k = view r k)"
proof (induction ks arbitrary: r)
  case Nil
  then show ?case by (simp add: srem_keys_def)
next
  case (Cons k ks)
  have "srem_keys R i (k # ks) r = srem_keys R i ks (snd (rc_srem R k i r))" by (simp add: srem_keys_def)
  with Cons.IH [of "snd (rc_srem R k i r)"] srem_one [of k i r] show ?case by auto
qed

lemma unassociate_view:
  assumes "set ks = range rules_key \<inter> dom (view r)"
  shows "associations (view (srem_keys R i ks r)) d = associations (view r) d - {i}"
    and "rules_typed (view (srem_keys R i ks r)) = rules_typed (view r)"
    and "rules_keys_only (view r) (view (srem_keys R i ks r))"
proof -
  have "key_members (view r) (rules_key d) = {}" if "rules_key d \<notin> set ks"
    using that assms by (auto simp: key_members_def split: option.split)
  then show "associations (view (srem_keys R i ks r)) d = associations (view r) d - {i}"
    using srem_keys_view [of i ks r] by (auto simp: associations_def)
  show "rules_typed (view (srem_keys R i ks r)) = rules_typed (view r)"
    using srem_keys_view [of i ks r] by (simp add: rules_typed_def)
  show "rules_keys_only (view r) (view (srem_keys R i ks r))"
    using srem_keys_view [of i ks r] assms by (simp add: rules_keys_only_def)
qed

lemma associate_rule_view:
  assumes "visit_order iter" and "rules_typed (view r)"
  shows "rules_typed (view (associate_rule R iter x r))
    \<and> (\<forall>d. associations (view (associate_rule R iter x r)) d = associations (view r) d \<union> wanted [x] d)
    \<and> rules_keys_only (view r) (view (associate_rule R iter x r))"
proof (cases "unmarshal_condition (rConditions x)")
  case None
  with assms(2) show ?thesis by (auto simp: associate_rule_def wanted_def raw_device_ids_def)
next
  case (Some c)
  with sadd_devices_view [OF assms(2), of "rID x" "extractDeviceIDsFromConditionTree iter c"] assms(2)
  show ?thesis
    by (auto simp: associate_rule_def wanted_def raw_device_ids_def extractDeviceIDs_set [OF assms(1)])
qed

lemma associate_rules_view:
  assumes "visit_order iter" and "rules_typed (view r)"
  shows "rules_typed (view (fold (associate_rule R iter) xs r))
    \<and> (\<forall>d. associations (view (fold (associate_rule R iter) xs r)) d = associations (view r) d \<union> wanted xs d)
    \<and> rules_keys_only (view r) (view (fold (associate_rule R iter) xs r))"
  using assms(2)
proof (induction xs arbitrary: r)
  case Nil
  then show ?case by (simp add: wanted_def)
next
  case (Cons x xs)
  have split: "wanted (x # xs) d = wanted [x] d \<union> wanted xs d" for d by (auto simp: wanted_def)
  from associate_rule_view [OF assms(1) Cons.prems, of x] Cons.IH [of "associate_rule R iter x r"]
  show ?case by (auto simp: split intro: rules_keys_only_trans)
qed

text \<open>
  Populating rebuilds the rule sets from nothing: whatever the server held under these keys is
  gone, and no other key is touched.
\<close>

lemma populate_associations:
  assumes "visit_order iter" and "fst (GetAllRules (e_db e)) = Inr rules"
  obtains r' where "populateDeviceRuleAssociations R iter e
      = (True, e\<lparr>e_db := tick (e_db e), e_redis := r'\<rparr>)"
    and "rules_typed (view r')" and "\<And>d. associations (view r') d = wanted rules d"
    and "rules_keys_only (view (e_redis e)) (view r')"
proof -
  from rules_keys obtain ks where ks: "rc_keys R (e_redis e) rules_pattern = Inr ks"
    "set ks = range rules_key \<inter> dom (view (e_redis e))" .
  let ?r1 = "del_keys R ks (e_redis e)"
  have none: "view ?r1 (rules_key d) = None" for d
    by (cases "view (e_redis e) (rules_key d)") (auto simp: view_del_keys ks(2))
  then have typed: "rules_typed (view ?r1)" and empty: "associations (view ?r1) d = {}" for d
    by (simp_all add: rules_typed_def associations_def holds_string_def key_string_def key_members_def)
  have "rules_keys_only (view (e_redis e)) (view ?r1)"
    by (auto simp: rules_keys_only_def view_del_keys ks(2))
  moreover have "GetAllRules (e_db e) = (Inr rules, tick (e_db e))"
    using assms(2) by (simp add: prod_eq_iff)
  ultimately show thesis
    using associate_rules_view [OF assms(1) typed, of rules] empty ks(1)
    by (intro that [of "fold (associate_rule R iter) rules ?r1"])
      (auto simp: populateDeviceRuleAssociations_def intro: rules_keys_only_trans)
qed

text \<open>Refreshing one rule, and removing one: the other rules stay where they are.\<close>

lemma refresh_associations:
  assumes "visit_order iter" and "rules_typed (view (e_redis e))"
    and rule: "fst (GetRuleByID i (e_db e)) = Inr rule" and "rID rule = i"
  shows "associations (view (e_redis (snd (RefreshRuleAssociations R C iter i e)))) v
      = associations (view (e_redis e)) v - {i} \<union> wanted [rule] v"
    and "rules_keys_only (view (e_redis e)) (view (e_redis (snd (RefreshRuleAssociations R C iter i e))))"
    and "rules_typed (view (e_redis (snd (RefreshRuleAssociations R C iter i e))))"
    and "fst (RefreshRuleAssociations R C iter i e)
      \<longleftrightarrow> \<not> rEnabled rule \<or> unmarshal_condition (rConditions rule) \<noteq> None"
proof -
  obtain ks where ks: "rc_keys R (e_redis e) rules_pattern = Inr ks"
    "set ks = range rules_key \<inter> dom (view (e_redis e))"
    by (rule rules_keys)
  let ?r1 = "srem_keys R i ks (e_redis e)"
  note un = unassociate_view [OF ks(2), where i = i]
  have get: "GetRuleByID i (e_db e) = (Inr rule, tick (e_db e))" using rule by (simp add: prod_eq_iff)
  have "rules_typed (view ?r1)" using un(2) assms(2) by simp
  note as = associate_rule_view [OF assms(1) this, where x = rule]
  have run: "e_redis (snd (RefreshRuleAssociations R C iter i e)) = associate_rule R iter rule ?r1"
    using get ks(1) assms(4)
    by (auto simp: RefreshRuleAssociations_def associate_rule_def on_schedules_def Let_def
        split: option.split prod.split)
  from run as un show "associations (view (e_redis (snd (RefreshRuleAssociations R C iter i e)))) v
      = associations (view (e_redis e)) v - {i} \<union> wanted [rule] v"
    and "rules_keys_only (view (e_redis e)) (view (e_redis (snd (RefreshRuleAssociations R C iter i e))))"
    and "rules_typed (view (e_redis (snd (RefreshRuleAssociations R C iter i e))))"
    by (auto intro: rules_keys_only_trans)
  show "fst (RefreshRuleAssociations R C iter i e)
      \<longleftrightarrow> \<not> rEnabled rule \<or> unmarshal_condition (rConditions rule) \<noteq> None"
    using get ks(1) by (simp add: RefreshRuleAssociations_def Let_def split: option.split)
qed

lemma remove_associations:
  "fst (RemoveRuleAssociations R C i e)"
  "associations (view (e_redis (snd (RemoveRuleAssociations R C i e)))) v = associations (view (e_redis e)) v - {i}"
  "rules_keys_only (view (e_redis e)) (view (e_redis (snd (RemoveRuleAssociations R C i e))))"
  "e_db (snd (RemoveRuleAssociations R C i e)) = snd (removeSchedulesForRule C i (e_sched e, e_db e))"
  "e_sched (snd (RemoveRuleAssociations R C i e)) = fst (removeSchedulesForRule C i (e_sched e, e_db e))"
proof -
  obtain ks where ks: "rc_keys R (e_redis e) rules_pattern = Inr ks"
    "set ks = range rules_key \<inter> dom (view (e_redis e))"
    by (rule rules_keys)
  have "e_redis (snd (RemoveRuleAssociations R C i e)) = srem_keys R i ks (e_redis e)"
    and run: "RemoveRuleAssociations R C i e
      = (True, on_schedules (removeSchedulesForRule C i) (e\<lparr>e_redis := srem_keys R i ks (e_redis e)\<rparr>))"
    using ks(1) by (simp_all add: RemoveRuleAssociations_def on_schedules_def split: prod.split)
  with unassociate_view [OF ks(2), where i = i]
  show "fst (RemoveRuleAssociations R C i e)"
    and "associations (view (e_redis (snd (RemoveRuleAssociations R C i e)))) v = associations (view (e_redis e)) v - {i}"
    and "rules_keys_only (view (e_redis e)) (view (e_redis (snd (RemoveRuleAssociations R C i e))))"
    by simp_all
  show "e_db (snd (RemoveRuleAssociations R C i e)) = snd (removeSchedulesForRule C i (e_sched e, e_db e))"
    and "e_sched (snd (RemoveRuleAssociations R C i e)) = fst (removeSchedulesForRule C i (e_sched e, e_db e))"
    by (simp_all add: run on_schedules_def case_prod_unfold)
qed

end

section \<open>Properties\<close>

text \<open>
  an MQTT message on the state topic of a device enqueues one update task, whose handler
  reads back that device's id and the reported state; a payload that is not a JSON object (or
  null) enqueues nothing. The topics a device is commanded on parse to the same id.
\<close>

theorem device_message_enqueued:
  assumes "CHR ''/'' \<notin> set i" and "unmarshal_map payload = Some st" and "q_ok q (q_calls q)"
  shows "q_tasks (onDeviceUpdate (''devices/'' @ i @ ''/state'') payload q) = q_tasks q @ [update_task i st]
    \<and> unmarshal_dut (taskPayload (update_task i st)) = Some \<lparr>dutDeviceID = i, dutState = st\<rparr>
    \<and> onDeviceUpdate topic None q = q
    \<and> ParseDeviceID (command_topic i) = i"
proof -
  have "ParseDeviceID (''devices'' @ CHR ''/'' # i @ CHR ''/'' # rest) = i" for rest
    using assms(1) by (intro ParseDeviceID_segment) simp_all
  from this [of "''state''"] this [of "''commands''"]
  have "ParseDeviceID (''devices/'' @ i @ ''/state'') = i" and "ParseDeviceID (command_topic i) = i"
    by (simp_all add: command_topic_def)
  then show ?thesis
    using assms(2,3) unmarshal_map_ok [OF assms(2)] unmarshal_update_task [of st i]
    by (simp add: onDeviceUpdate_def EnqueueDeviceUpdate_def enqueue_def Let_def)
qed

lemma device_message_enqueued_witness:
  "q_tasks (onDeviceUpdate ''devices/lamp/state'' (Some (JObj [(''on'', JBool True)])) demo_queue)
     = [update_task ''lamp'' (Some [(''on'', JBool True)])]"
  using device_message_enqueued [of "''lamp''" "Some (JObj [(''on'', JBool True)])" "Some [(''on'', JBool True)]" demo_queue]
  by (simp add: demo_queue_def obj_map_def)

text \<open>
  a rule is associated with exactly the devices its condition tree names at any depth, each
  once, whatever order Go visits its maps in; the empty id is not a device.
\<close>

theorem rule_devices_exact:
  assumes "visit_order iter"
  shows "set (extractDeviceIDsFromConditionTree iter c) = cDeviceID ` set (nodes c) - {''''}
    \<and> distinct (extractDeviceIDsFromConditionTree iter c)"
  using extractDeviceIDs_set [OF assms, of c] extractDeviceIDs_distinct [OF assms, of c]
  by (simp add: device_ids_def)

lemma rule_devices_exact_witness:
  "set (extractDeviceIDsFromConditionTree rev demo_tree) = {''lamp''}"
proof -
  have "cDeviceID ` set (nodes demo_tree) - {''''} = {''lamp''}" by (simp add: demo_defs) blast
  with rule_devices_exact [OF visit_order_rev, of demo_tree] show ?thesis by simp
qed

text \<open>
  C26: populating the associations makes the rule set of every device exactly the enabled rules
  whose conditions name it, whatever Redis held before (also when a device state sat on a rule
  set's key), and touches no other key.
\<close>

theorem populate_exact:
  assumes "redis_server R view" and "visit_order iter" and "fst (GetAllRules (e_db e)) = Inr rules"
  shows "\<exists>r'. populateDeviceRuleAssociations R iter e = (True, e\<lparr>e_db := tick (e_db e), e_redis := r'\<rparr>)
    \<and> (\<lambda>i. key_members (view r') (rules_key i)) = wanted rules
    \<and> rules_keys_only (view (e_redis e)) (view r')"
  by (rule redis_server.populate_associations [OF assms]) (auto simp: associations_def fun_eq_iff)

definition demo_engine :: "(mem, mem_entries) engine" where
  "demo_engine = \<lparr>e_redis = demo_server, e_db = demo_rules, e_sched = NewScheduler [], e_queue = demo_queue\<rparr>"

lemma wanted_simps:
  "wanted [] v = {}"
  "wanted (x # xs) v = (if rEnabled x \<and> v \<in> raw_device_ids (rConditions x) then insert (rID x) (wanted xs v) else wanted xs v)"
  by (auto simp: wanted_def)

lemma demo_GetAllRules: "fst (GetAllRules demo_rules) = Inr (map rule_of (t_rules demo_rules))"
proof -
  have "\<forall>y \<in> set (t_rules demo_rules). rrEnabled y \<noteq> None"
    by (auto simp: demo_rules_def demo_db_def demo_rule_row_def)
  then have "scan_all scan_rule (t_rules demo_rules) = Inr (map rule_of (t_rules demo_rules))"
    by (simp add: scan_all_Inr)
  then show ?thesis by (simp add: GetAllRules_def query_up demo_rules_ok sum_bind_def)
qed

lemma demo_wanted: "wanted (map rule_of (t_rules demo_rules)) ''lamp'' = {''7'', ''12''}"
proof -
  have "raw_device_ids (Some (enc_condition demo_tree)) = {''lamp''}"
    by (simp add: raw_device_ids_def device_ids_def) (simp add: demo_defs, blast)
  moreover have "t_rules demo_rules = [demo_rule_row ''7'' (enc_condition demo_tree) (demo_actions 1),
      demo_rule_row ''12'' (enc_condition demo_tree) (demo_actions 2)]"
    by (simp add: demo_rules_def demo_db_def)
  ultimately show ?thesis
    by (simp only: list.map wanted_simps rule_of_fields) (simp add: demo_rule_row_def insert_commute)
qed

lemma populate_exact_witness:
  "\<exists>r'. populateDeviceRuleAssociations mem_redis rev demo_engine
      = (True, demo_engine\<lparr>e_db := tick demo_rules, e_redis := r'\<rparr>)
    \<and> key_members (mem_view r') (rules_key ''lamp'') = {''7'', ''12''}"
proof -
  have db: "e_db demo_engine = demo_rules" by (simp add: demo_engine_def)
  from populate_exact [OF mem.redis_server_axioms visit_order_rev, of demo_engine, unfolded db, OF demo_GetAllRules]
  show ?thesis using demo_wanted by metis
qed

text \<open>
  refreshing a rule that can be read corrects its associations and only those: afterwards
  the rule is in the rule set of exactly the devices its conditions name, if it is enabled, and
  in none otherwise; the sets are unchanged as to all other rules, and no other key is touched.
  (No device state may sit on the key of a rule set.)
\<close>

theorem refresh_exact:
  assumes "redis_server R view" and "visit_order iter" and "rules_typed (view (e_redis e))"
    and rule: "fst (GetRuleByID i (e_db e)) = Inr rule" and "rID rule = i"
  shows "(\<lambda>v. key_members (view (e_redis (snd (RefreshRuleAssociations R C iter i e)))) (rules_key v))
      = (\<lambda>v. key_members (view (e_redis e)) (rules_key v) - {i} \<union> wanted [rule] v)
    \<and> rules_keys_only (view (e_redis e)) (view (e_redis (snd (RefreshRuleAssociations R C iter i e))))
    \<and> rules_typed (view (e_redis (snd (RefreshRuleAssociations R C iter i e))))"
  using redis_server.refresh_associations [OF assms(1-5), where C = C]
  by (simp add: associations_def fun_eq_iff)

lemma demo_rules_typed: "rules_typed (mem_view demo_server)"
  by (auto simp: rules_typed_def holds_string_def key_string_def demo_server_def mem_view_def mem_val_def
      rules_key_def)

lemma refresh_exact_witness:
  "key_members (mem_view (e_redis (snd (RefreshRuleAssociations mem_redis mem_cron rev ''12'' demo_engine))))
     (rules_key ''lamp'') = {''7'', ''12''}"
proof -
  have db: "e_db demo_engine = demo_rules" "e_redis demo_engine = demo_server" by (simp_all add: demo_engine_def)
  let ?row = "demo_rule_row ''12'' (enc_condition demo_tree) (demo_actions 2)"
  have row: "?row \<in> set (t_rules demo_rules)" and i: "rrID ?row = ''12''"
    by (simp_all add: demo_rules_def demo_db_def) (simp add: demo_rule_row_def)
  have get: "fst (GetRuleByID ''12'' (e_db demo_engine)) = Inr (rule_of ?row)"
    using GetRuleByID_up [OF demo_rules_ok(2,1) row] by (simp add: db i) (simp add: scan_rule_Inr demo_rule_row_def)
  have "wanted [rule_of ?row] ''lamp'' = {''12''}"
    by (simp add: wanted_def demo_rule_row_def raw_device_ids_def device_ids_def) (simp add: demo_defs)
  with refresh_exact [OF mem.redis_server_axioms visit_order_rev _ get, where C = mem_cron]
  show ?thesis
    by (simp add: db demo_rules_typed fun_eq_iff i demo_members)
      (metis demo_members insert_commute insert_is_Un)
qed

text \<open>
  removing a rule's associations takes it out of the rule set of every device, whatever
  the sets were, leaves the other rules in them, and touches no other key.
\<close>

theorem remove_exact:
  assumes "redis_server R view"
  shows "fst (RemoveRuleAssociations R C i e)
    \<and> (\<lambda>v. key_members (view (e_redis (snd (RemoveRuleAssociations R C i e)))) (rules_key v))
      = (\<lambda>v. key_members (view (e_redis e)) (rules_key v) - {i})
    \<and> rules_keys_only (view (e_redis e)) (view (e_redis (snd (RemoveRuleAssociations R C i e))))"
  using redis_server.remove_associations [OF assms, where C = C and i = i and e = e]
  by (simp add: associations_def fun_eq_iff)

lemma remove_exact_witness:
  "key_members (mem_view (e_redis (snd (RemoveRuleAssociations mem_redis mem_cron ''7'' demo_engine))))
     (rules_key ''lamp'') = {}"
proof -
  have "e_redis demo_engine = demo_server" by (simp add: demo_engine_def)
  with remove_exact [OF mem.redis_server_axioms, of mem_cron "''7''" demo_engine] show ?thesis
    by (simp add: fun_eq_iff) (simp add: demo_members)
qed

text \<open>
  rows the database failed to deliver are taken for rows that do not exist: when the rule
  query breaks off before its first row, populating reports success and leaves every device
  without rules.
\<close>

theorem truncated_rules_unassociate:
  assumes "redis_server R view" and "visit_order iter" and "outcome_of (e_db e) = Cut 0"
  shows "fst (populateDeviceRuleAssociations R iter e)
    \<and> key_members (view (e_redis (snd (populateDeviceRuleAssociations R iter e)))) (rules_key v) = {}"
proof -
  have "fst (GetAllRules (e_db e)) = Inr []"
    using assms(3) by (simp add: GetAllRules_def query_def sum_bind_def)
  then obtain r' where "populateDeviceRuleAssociations R iter e = (True, e\<lparr>e_db := tick (e_db e), e_redis := r'\<rparr>)"
    and "\<And>d. associations (view r') d = wanted [] d"
    by (rule redis_server.populate_associations [OF assms(1,2)]) blast
  then show ?thesis by (simp add: associations_def wanted_def)
qed

lemma truncated_rules_unassociate_witness:
  "key_members (mem_view (e_redis (snd (populateDeviceRuleAssociations mem_redis rev
     (demo_engine\<lparr>e_db := demo_rules\<lparr>db_out := (\<lambda>_. Cut 0)\<rparr>\<rparr>))))) (rules_key ''lamp'') = {}"
  using truncated_rules_unassociate [OF mem.redis_server_axioms visit_order_rev,
      of "demo_engine\<lparr>e_db := demo_rules\<lparr>db_out := (\<lambda>_. Cut 0)\<rparr>\<rparr>" "''lamp''"]
  by (simp add: outcome_of_def)

end
