(* ===== verification/WebRules.thy ===== *)
theory WebRules
  imports WebDevices Engine
begin

text \<open>
  The handlers of \<open>internal/web/api/automation.go\<close>, which write the rules and tell the engine
  about them, and the routes of the server: \<open>serve\<close> is one request, from the router through
  the middleware to the response.
\<close>

section \<open>Rows of rules\<close>

text \<open>
  \<open>Scan\<close> into a \<open>models.Rule\<close> with its owner. NULL scans neither into the \<open>bool\<close> nor into
  the owner's \<open>string\<close>.
\<close>

definition scan_owned_rule :: "rule_row \<Rightarrow> dberr + rule" where
  "scan_owned_rule x =
     (case (rrEnabled x, rrOwnerID x) of
        (Some e, Some owner) \<Rightarrow>
          Inr \<lparr>rID = rrID x, rName = rrName x, rConditions = Some (rrConditions x),
               rActions = Some (rrActions x), rEnabled = e, rOwnerID = owner\<rparr>
      | _ \<Rightarrow> Inl ScanError)"

definition enc_rule :: "rule \<Rightarrow> json" where
  "enc_rule x =
     JObj [(''id'', JStr (rID x)), (''name'', JStr (rName x)), (''conditions'', marshal_raw (rConditions x)),
           (''actions'', marshal_raw (rActions x)), (''enabled'', JBool (rEnabled x)), (''owner_id'', JStr (rOwnerID x))]"

text \<open>
  The loop goes on after a row that does not scan, but a scan error closes the rows (as \<open>pgx\<close>
  documents), so the list ends there.
\<close>

fun scan_until_error :: "rule_row list \<Rightarrow> rule list" where
  "scan_until_error [] = []"
| "scan_until_error (x # xs) = (case scan_owned_rule x of Inl _ \<Rightarrow> [] | Inr y \<Rightarrow> y # scan_until_error xs)"

definition list_rules :: "string \<Rightarrow> db \<Rightarrow> response \<times> db" where
  "list_rules userID d =
     (case query (where_int userID (\<lambda>i d. filter (\<lambda>x. rrOwnerID x = Some i) (t_rules d))) d of
        (Inl _, d1) \<Rightarrow> (gin_error 500 ''Failed to fetch rules'', d1)
      | (Inr rows, d1) \<Rightarrow> (respond 200 (JArr (map enc_rule (scan_until_error rows))), d1))"

section \<open>Requests\<close>

record AddRuleRequest =
  arName :: string
  arConditions :: raw
  arActions :: raw
  arEnabled :: bool

record UpdateRuleRequest =
  urrName :: "string option"
  urrConditions :: "json option"
  urrActions :: "json option"
  urrEnabled :: "bool option"

fun dec_bool :: "bool \<Rightarrow> json \<Rightarrow> bool option" where
  "dec_bool old JNull = Some old"
| "dec_bool old (JBool b) = Some b"
| "dec_bool old _ = None"

definition dec_add_field :: "AddRuleRequest \<Rightarrow> string \<Rightarrow> json \<Rightarrow> AddRuleRequest option" where
  "dec_add_field a k j =
     (if field_is k ''name'' then map_option (\<lambda>s. a\<lparr>arName := s\<rparr>) (dec_string (arName a) j)
      else if field_is k ''conditions'' then Some (a\<lparr>arConditions := Some j\<rparr>)
      else if field_is k ''actions'' then Some (a\<lparr>arActions := Some j\<rparr>)
      else if field_is k ''enabled'' then map_option (\<lambda>b. a\<lparr>arEnabled := b\<rparr>) (dec_bool (arEnabled a) j)
      else Some a)"

text \<open>Pointer fields: null is the nil pointer, any other value goes to a new or the old target.\<close>

definition dec_pointer :: "(json \<Rightarrow> 'a option) \<Rightarrow> json \<Rightarrow> 'a option option" where
  "dec_pointer dec j = (if j = JNull then Some None else map_option Some (dec j))"

definition dec_update_field :: "UpdateRuleRequest \<Rightarrow> string \<Rightarrow> json \<Rightarrow> UpdateRuleRequest option" where
  "dec_update_field a k j =
     (if field_is k ''name'' then map_option (\<lambda>x. a\<lparr>urrName := x\<rparr>) (dec_pointer (dec_string '''') j)
      else if field_is k ''conditions'' then map_option (\<lambda>x. a\<lparr>urrConditions := x\<rparr>) (dec_pointer Some j)
      else if field_is k ''actions'' then map_option (\<lambda>x. a\<lparr>urrActions := x\<rparr>) (dec_pointer Some j)
      else if field_is k ''enabled'' then map_option (\<lambda>x. a\<lparr>urrEnabled := x\<rparr>) (dec_pointer (dec_bool False) j)
      else Some a)"

section \<open>Writing rules\<close>

text \<open>
  A jsonb parameter: \<open>None\<close> is refused with the statement, \<open>Some None\<close> is NULL (a nil
  \<open>json.RawMessage\<close>).
\<close>

definition jsonb_param :: "web_env \<Rightarrow> raw \<Rightarrow> json option option" where
  "jsonb_param W x = (case x of None \<Rightarrow> Some None | Some j \<Rightarrow> map_option Some (w_jsonb W j))"

text \<open>\<open>INSERT INTO rules\<close>: NOT NULL columns, the identity sequence, the owner's foreign key.\<close>

definition insert_rule :: "web_env \<Rightarrow> string \<Rightarrow> AddRuleRequest \<Rightarrow> db \<Rightarrow> (dberr + unit) \<times> db" where
  "insert_rule W userID req =
     exec (exec_int userID (\<lambda>owner d.
       case (jsonb_param W (arConditions req), jsonb_param W (arActions req)) of
         (Some conditions, Some actions) \<Rightarrow>
           if rules_seq d > 2147483647 then (Inl PgError, d)
           else
             let i = show_nat (rules_seq d); d' = d\<lparr>rules_seq := Suc (rules_seq d)\<rparr> in
             (case (conditions, actions) of
                (Some c, Some a) \<Rightarrow>
                  if i \<in> rrID ` set (t_rules d) \<or> owner \<notin> urID ` set (t_users d) then (Inl PgError, d')
                  else (Inr (), d'\<lparr>t_rules := t_rules d @
                         [\<lparr>rrID = i, rrName = arName req, rrConditions = c, rrActions = a,
                           rrEnabled = Some (arEnabled req), rrOwnerID = Some owner\<rparr>]\<rparr>)
              | _ \<Rightarrow> (Inl PgError, d'))
       | _ \<Rightarrow> (Inl PgError, d)))"

text \<open>\<open>ORDER BY id DESC LIMIT 1\<close>: the row with the greatest id.\<close>

fun newest :: "rule_row list \<Rightarrow> rule_row option" where
  "newest [] = None"
| "newest (x # xs) =
     (case newest xs of
        None \<Rightarrow> Some x
      | Some y \<Rightarrow> if digits_val (rrID x) < digits_val (rrID y) then Some y else Some x)"

definition select_newest :: "string \<Rightarrow> string \<Rightarrow> db \<Rightarrow> (dberr + rule) \<times> db" where
  "select_newest name userID d =
     (case query_row (where_int userID (\<lambda>i d.
             case newest (filter (\<lambda>x. rrName x = name \<and> rrOwnerID x = Some i) (t_rules d)) of
               None \<Rightarrow> [] | Some x \<Rightarrow> [x])) d of
        (res, d1) \<Rightarrow> (sum_bind res scan_owned_rule, d1))"

text \<open>What both writers do with the engine afterwards.\<close>

definition notify_engine ::
  "'r redis_api \<Rightarrow> 'c cron_api \<Rightarrow> (string list \<Rightarrow> string list) \<Rightarrow> rule \<Rightarrow> ('r, 'c) engine \<Rightarrow> ('r, 'c) engine" where
  "notify_engine R C iter x e =
     (case RefreshRuleAssociations R C iter (rID x) e of
        (ok, e1) \<Rightarrow>
          if \<not> ok then e1
          else if rEnabled x then e1\<lparr>e_queue := TriggerRuleEvaluation (rID x) (e_queue e1)\<rparr> else e1)"

definition post_rule ::
  "web_env \<Rightarrow> 'r redis_api \<Rightarrow> 'c cron_api \<Rightarrow> (string list \<Rightarrow> string list) \<Rightarrow> string \<Rightarrow> raw \<Rightarrow> ('r, 'c) engine
     \<Rightarrow> response \<times> ('r, 'c) engine" where
  "post_rule W R C iter userID body e =
     (case bind_json dec_add_field \<lparr>arName = '''', arConditions = None, arActions = None, arEnabled = False\<rparr> body of
        None \<Rightarrow> (gin_error 400 ''Invalid request'', e)
      | Some req \<Rightarrow>
          (case insert_rule W userID req (e_db e) of
             (Inl _, d1) \<Rightarrow> (gin_error 500 ''Failed to create rule'', e\<lparr>e_db := d1\<rparr>)
           | (Inr _, d1) \<Rightarrow>
               (case select_newest (arName req) userID d1 of
                  (Inl _, d2) \<Rightarrow> (gin_error 500 ''Failed to fetch created rule'', e\<lparr>e_db := d2\<rparr>)
                | (Inr created, d2) \<Rightarrow>
                    (respond 201 (enc_rule created), notify_engine R C iter created (e\<lparr>e_db := d2\<rparr>)))))"

text \<open>\<open>DELETE FROM rules\<close>: schedules and the history refer to rules.\<close>

definition delete_rule :: "string \<Rightarrow> string \<Rightarrow> db \<Rightarrow> (dberr + unit) \<times> db" where
  "delete_rule ruleID userID =
     exec (exec_int ruleID (\<lambda>i. exec_int userID (\<lambda>owner d.
       let gone = (\<lambda>x. rrID x = i \<and> rrOwnerID x = Some owner) in
       if (\<exists>x \<in> set (t_rules d). gone x)
          \<and> (i \<in> sRuleID ` set (t_schedules d) \<or> Some i \<in> hrRuleID ` set (t_history d))
       then (Inl PgError, d)
       else (Inr (), d\<lparr>t_rules := filter (\<lambda>x. \<not> gone x) (t_rules d)\<rparr>))))"

definition delete_rule_route ::
  "'r redis_api \<Rightarrow> 'c cron_api \<Rightarrow> string \<Rightarrow> string \<Rightarrow> ('r, 'c) engine \<Rightarrow> response \<times> ('r, 'c) engine" where
  "delete_rule_route R C userID ruleID e =
     (case RemoveRuleAssociations R C ruleID e of
        (_, e1) \<Rightarrow>
          (case delete_rule ruleID userID (e_db e1) of
             (Inl _, d1) \<Rightarrow> (gin_error 500 ''Failed to delete rule'', e1\<lparr>e_db := d1\<rparr>)
           | (Inr _, d1) \<Rightarrow> (gin_status ''Rule deleted successfully'', e1\<lparr>e_db := d1\<rparr>)))"

definition select_owned :: "string \<Rightarrow> string \<Rightarrow> db \<Rightarrow> (dberr + rule) \<times> db" where
  "select_owned ruleID userID d =
     (case query_row (\<lambda>d. case (db_int d ruleID, db_int d userID) of
             (Some i, Some owner) \<Rightarrow> Some (filter (\<lambda>x. rrID x = i \<and> rrOwnerID x = Some owner) (t_rules d))
           | _ \<Rightarrow> None) d of
        (res, d1) \<Rightarrow> (sum_bind res scan_owned_rule, d1))"

definition merge_rule :: "UpdateRuleRequest \<Rightarrow> rule \<Rightarrow> rule" where
  "merge_rule req x =
     x\<lparr>rName := (case urrName req of None \<Rightarrow> rName x | Some n \<Rightarrow> n),
       rConditions := (case urrConditions req of None \<Rightarrow> rConditions x | Some j \<Rightarrow> Some j),
       rActions := (case urrActions req of None \<Rightarrow> rActions x | Some j \<Rightarrow> Some j),
       rEnabled := (case urrEnabled req of None \<Rightarrow> rEnabled x | Some b \<Rightarrow> b)\<rparr>"

definition update_rule :: "web_env \<Rightarrow> rule \<Rightarrow> db \<Rightarrow> (dberr + unit) \<times> db" where
  "update_rule W x =
     exec (exec_int (rID x) (\<lambda>i. exec_int (rOwnerID x) (\<lambda>owner d.
       case (jsonb_param W (rConditions x), jsonb_param W (rActions x)) of
         (Some (Some c), Some (Some a)) \<Rightarrow>
           (Inr (), d\<lparr>t_rules := map_rows (\<lambda>y. rrID y = i \<and> rrOwnerID y = Some owner)
              (\<lambda>y. y\<lparr>rrName := rName x, rrConditions := c, rrActions := a, rrEnabled := Some (rEnabled x)\<rparr>)
              (t_rules d)\<rparr>)
       | _ \<Rightarrow> (Inl PgError, d))))"

definition patch_rule ::
  "web_env \<Rightarrow> 'r redis_api \<Rightarrow> 'c cron_api \<Rightarrow> (string list \<Rightarrow> string list) \<Rightarrow> string \<Rightarrow> string \<Rightarrow> raw
     \<Rightarrow> ('r, 'c) engine \<Rightarrow> response \<times> ('r, 'c) engine" where
  "patch_rule W R C iter userID ruleID body e =
     (case bind_json dec_update_field
             \<lparr>urrName = None, urrConditions = None, urrActions = None, urrEnabled = None\<rparr> body of
        None \<Rightarrow> (gin_error 400 ''Invalid request'', e)
      | Some req \<Rightarrow>
          (case select_owned ruleID userID (e_db e) of
             (Inl _, d1) \<Rightarrow> (gin_error 404 ''Rule not found'', e\<lparr>e_db := d1\<rparr>)
           | (Inr existing, d1) \<Rightarrow>
               let updated = merge_rule req existing in
               (case update_rule W updated d1 of
                  (Inl _, d2) \<Rightarrow> (gin_error 500 ''Failed to update rule'', e\<lparr>e_db := d2\<rparr>)
                | (Inr _, d2) \<Rightarrow>
                    (respond 200 (enc_rule updated), notify_engine R C iter updated (e\<lparr>e_db := d2\<rparr>)))))"

section \<open>The server\<close>

datatype request =
    Login raw
  | Register raw
  | Me
  | ListDevices
  | ListPending
  | Accept string
  | SetOwner string
  | Command string raw
  | Rename string raw
  | RemoveDevice string
  | ListRules
  | AddRule raw
  | RemoveRule string
  | PatchRule string raw

definition on_db ::
  "(db \<Rightarrow> response \<times> db) \<Rightarrow> ('r, 'c) engine \<Rightarrow> (response \<times> publish list) \<times> ('r, 'c) engine" where
  "on_db h e = (case h (e_db e) of (rs, d) \<Rightarrow> ((rs, []), e\<lparr>e_db := d\<rparr>))"

definition quiet :: "response \<times> 's \<Rightarrow> (response \<times> publish list) \<times> 's" where
  "quiet x = ((fst x, []), snd x)"

fun handle ::
  "web_env \<Rightarrow> 'r redis_api \<Rightarrow> 'c cron_api \<Rightarrow> (string list \<Rightarrow> string list) \<Rightarrow> request \<Rightarrow> string
     \<Rightarrow> ('r, 'c) engine \<Rightarrow> (response \<times> publish list) \<times> ('r, 'c) engine" where
  "handle W R C iter Me uid e = on_db (get_me uid) e"
| "handle W R C iter ListDevices uid e = on_db (list_devices uid) e"
| "handle W R C iter ListPending uid e = on_db list_pending e"
| "handle W R C iter (Accept i) uid e = on_db (accept_device uid i) e"
| "handle W R C iter (SetOwner i) uid e = on_db (set_owner uid i) e"
| "handle W R C iter (Command i body) uid e =
     (case command_device W uid i body (e_db e) of (out, d) \<Rightarrow> (out, e\<lparr>e_db := d\<rparr>))"
| "handle W R C iter (Rename i body) uid e = on_db (rename_device uid i body) e"
| "handle W R C iter (RemoveDevice i) uid e = on_db (remove_device uid i) e"
| "handle W R C iter ListRules uid e = on_db (list_rules uid) e"
| "handle W R C iter (AddRule body) uid e = quiet (post_rule W R C iter uid body e)"
| "handle W R C iter (RemoveRule i) uid e = quiet (delete_rule_route R C uid i e)"
| "handle W R C iter (PatchRule i body) uid e = quiet (patch_rule W R C iter uid i body e)"
| "handle W R C iter _ uid e = ((gin_error 404 '''', []), e)"

definition serve ::
  "web_env \<Rightarrow> 'r redis_api \<Rightarrow> 'c cron_api \<Rightarrow> (string list \<Rightarrow> string list) \<Rightarrow> draws \<Rightarrow> string \<Rightarrow> request
     \<Rightarrow> ('r, 'c) engine \<Rightarrow> (response \<times> publish list) \<times> ('r, 'c) engine" where
  "serve W R C iter dr authorization req e =
     (case req of
        Login body \<Rightarrow> on_db (post_login W dr body) e
      | Register body \<Rightarrow> on_db (post_register W dr body) e
      | _ \<Rightarrow> RequireAuth W (dr_now dr) authorization (handle W R C iter req) e)"

end
