(* ===== verification/ScheduleSync.thy ===== *)
theory ScheduleSync
  imports Engine
begin

text \<open>
  The scheduler against the table of schedules, under the engine's operations and any failure
  of the database. Abstractly, the table says which schedules are live (\<open>live\<close>: enabled,
  with an expression the cron service accepts); the scheduler is \<open>synced\<close> when it runs
  exactly those, and \<open>backed\<close> when it runs none but those.
\<close>

section \<open>Live schedules\<close>

definition row_of :: "string \<Rightarrow> schedule list \<Rightarrow> schedule option" where
  "row_of sid rows = find (\<lambda>s. sID s = sid) rows"

definition live_row :: "(string \<Rightarrow> bool) \<Rightarrow> schedule \<Rightarrow> (string \<times> string) option" where
  "live_row valid s =
     (if sEnabled s \<and> valid (sCronExpression s) then Some (sRuleID s, sCronExpression s) else None)"

definition live :: "(string \<Rightarrow> bool) \<Rightarrow> schedule list \<Rightarrow> string \<rightharpoonup> string \<times> string" where
  "live valid rows sid = (case row_of sid rows of None \<Rightarrow> None | Some s \<Rightarrow> live_row valid s)"

lemma row_of_Nil [simp]: "row_of sid [] = None"
  by (simp add: row_of_def)

lemma row_of_Cons: "row_of sid (s # rows) = (if sID s = sid then Some s else row_of sid rows)"
  by (simp add: row_of_def)

lemma row_of_None: "row_of sid rows = None \<longleftrightarrow> sid \<notin> sID ` set rows"
  by (auto simp: row_of_def find_None_iff)

lemma row_of_mem: "distinct (map sID rows) \<Longrightarrow> s \<in> set rows \<Longrightarrow> row_of (sID s) rows = Some s"
  by (induction rows) (auto simp: row_of_Cons rev_image_eqI)

lemma row_of_SomeD: "row_of sid rows = Some s \<Longrightarrow> s \<in> set rows \<and> sID s = sid"
  by (auto simp: row_of_def find_Some_iff)

lemma row_of_append: "row_of sid (xs @ ys) = (case row_of sid xs of None \<Rightarrow> row_of sid ys | Some s \<Rightarrow> Some s)"
  by (induction xs) (auto simp: row_of_Cons)

lemma row_of_map_rows:
  "(\<And>s. sID (f s) = sID s) \<Longrightarrow>
     row_of sid (map_rows (\<lambda>s. sID s = i) f rows) = map_option (if sid = i then f else id) (row_of sid rows)"
  by (induction rows) (auto simp: row_of_Cons map_rows_def)

lemma row_of_filter: "row_of sid (filter (\<lambda>s. sID s \<noteq> i) rows) = (if sid = i then None else row_of sid rows)"
  by (induction rows) (auto simp: row_of_Cons)

lemma live_append:
  assumes "sID s \<notin> sID ` set rows"
  shows "live valid (rows @ [s]) = (live valid rows)(sID s := live_row valid s)"
proof
  fix sid
  have "row_of (sID s) rows = None" using assms by (simp add: row_of_None)
  then show "live valid (rows @ [s]) sid = ((live valid rows)(sID s := live_row valid s)) sid"
    by (auto simp: live_def row_of_append row_of_Cons split: option.split)
qed

lemma live_update:
  assumes "distinct (map sID rows)" and "s \<in> set rows" and "\<And>s. sID (f s) = sID s"
  shows "live valid (map_rows (\<lambda>x. sID x = sID s) f rows) = (live valid rows)(sID s := live_row valid (f s))"
  using row_of_mem [OF assms(1,2)] assms(3)
  by (auto simp: live_def row_of_map_rows fun_eq_iff split: option.split)

lemma live_remove: "live valid (filter (\<lambda>s. sID s \<noteq> i) rows) = (live valid rows)(i := None)"
  by (auto simp: live_def row_of_filter fun_eq_iff)

lemma live_mem: "distinct (map sID rows) \<Longrightarrow> s \<in> set rows \<Longrightarrow> live valid rows (sID s) = live_row valid s"
  by (simp add: live_def row_of_mem)

lemma live_map_of:
  "distinct (map sID rows) \<Longrightarrow>
     map_of (map (\<lambda>s. (sID s, (sRuleID s, sCronExpression s)))
                 (filter (\<lambda>s. sEnabled s \<and> valid (sCronExpression s)) rows)) = live valid rows"
proof (induction rows)
  case Nil
  then show ?case by (simp add: live_def fun_eq_iff)
next
  case (Cons s rows)
  from Cons.prems have "row_of (sID s) rows = None" by (simp add: row_of_None)
  then have "live valid rows (sID s) = None" by (simp add: live_def)
  moreover have "live valid (s # rows) = (live valid rows)(sID s := live_row valid s)"
    by (auto simp: live_def row_of_Cons fun_eq_iff)
  ultimately show ?case
    using Cons by (auto simp: live_row_def fun_upd_idem)
qed

lemma live_take: "live valid (take n rows) \<subseteq>\<^sub>m live valid rows"
proof -
  have "live valid xs \<subseteq>\<^sub>m live valid (xs @ ys)" for xs ys
    by (auto simp: map_le_def live_def row_of_append split: option.splits)
  from this [of "take n rows" "drop n rows"] show ?thesis by (simp only: append_take_drop_id)
qed

section \<open>Agreement\<close>

text \<open>
  The relation between the two is equality or inclusion. Both are kept when the scheduler and
  the table change in the same way at one id.
\<close>

type_synonym job_view = "string \<rightharpoonup> string \<times> string"

definition keeps_updates :: "(job_view \<Rightarrow> job_view \<Rightarrow> bool) \<Rightarrow> bool" where
  "keeps_updates le \<longleftrightarrow> (\<forall>v l i x. le v l \<longrightarrow> le (v(i := x)) (l(i := x)))"

lemma keeps_updates_eq [simp]: "keeps_updates (=)"
  by (simp add: keeps_updates_def)

lemma keeps_updates_map_le [simp]: "keeps_updates (\<subseteq>\<^sub>m)"
  by (simp add: keeps_updates_def)

lemma keeps_updatesD: "keeps_updates le \<Longrightarrow> le v l \<Longrightarrow> le (v(i := x)) (l(i := x))"
  by (simp add: keeps_updates_def)

definition agree ::
  "(job_view \<Rightarrow> job_view \<Rightarrow> bool) \<Rightarrow> ('c \<Rightarrow> cron_view) \<Rightarrow> (string \<Rightarrow> bool) \<Rightarrow> 'c scheduler \<times> db \<Rightarrow> bool" where
  "agree le entries valid sd \<longleftrightarrow>
     sched_ok entries (fst sd) \<and> db_ok (snd sd)
     \<and> le (sched_view entries (fst sd)) (live valid (t_schedules (snd sd)))"

definition synced :: "('c \<Rightarrow> cron_view) \<Rightarrow> (string \<Rightarrow> bool) \<Rightarrow> 'c scheduler \<times> db \<Rightarrow> bool" where
  "synced entries valid sd \<longleftrightarrow> agree (=) entries valid sd"

definition backed :: "('c \<Rightarrow> cron_view) \<Rightarrow> (string \<Rightarrow> bool) \<Rightarrow> 'c scheduler \<times> db \<Rightarrow> bool" where
  "backed entries valid sd \<longleftrightarrow> agree (\<subseteq>\<^sub>m) entries valid sd"

lemma synced_backed: "synced entries valid sd \<Longrightarrow> backed entries valid sd"
  by (simp add: synced_def backed_def agree_def)

lemma agree_same:
  "agree le entries valid (s, d) \<Longrightarrow> schedules_only d d' \<Longrightarrow> t_schedules d' = t_schedules d \<Longrightarrow>
     agree le entries valid (s, d')"
  by (simp add: agree_def db_ok_same_schedules)

lemma agree_tick [simp]: "agree le entries valid (s, tick d) = agree le entries valid (s, d)"
  by (simp add: agree_def)

context cron_service begin

text \<open>One schedule is put into the scheduler the way its row now is.\<close>

lemma agree_put:
  assumes le: "keeps_updates le" and ok: "agree le entries valid (s, d)" and "db_ok d'"
    and row: "live valid (t_schedules d')
         = (live valid (t_schedules d))(i := live_row valid \<lparr>sID = i, sRuleID = r, sCronExpression = c, sEnabled = e\<rparr>)"
  shows "agree le entries valid (snd (AddOrUpdateSchedule C i r c e s), d')"
proof -
  from ok have "sched_ok entries s" by (simp add: agree_def)
  then obtain s' where s': "AddOrUpdateSchedule C i r c e s = (e \<longrightarrow> valid c, s')" "sched_ok entries s'"
    "sched_view entries s' = (sched_view entries s)(i := if e \<and> valid c then Some (r, c) else None)"
    by (rule AddOrUpdateSchedule_correct)
  with ok row \<open>db_ok d'\<close> keeps_updatesD [OF le] show ?thesis by (simp add: agree_def live_row_def)
qed

lemma agree_create:
  assumes "keeps_updates le"
  shows "agree le entries valid (s, d) \<Longrightarrow> db_int d i = Some i \<Longrightarrow>
     agree le entries valid (create_schedules C i e tcs (s, d))
     \<and> schedules_only d (snd (create_schedules C i e tcs (s, d)))"
proof (induction tcs arbitrary: s d)
  case Nil
  then show ?case by simp
next
  case (Cons tc tcs)
  let ?c = "ConvertToCronExpression tc"
  obtain found where lookup: "GetScheduleByRuleAndCron i ?c d = (found, tick d)"
    by (metis prod.collapse read_only(8))
  have ok: "db_ok d" using Cons.prems by (simp add: agree_def)
  have step: ?case if "agree le entries valid (s', d')" "schedules_only d d'"
      "create_schedules C i e (tc # tcs) (s, d) = create_schedules C i e tcs (s', d')" for s' d'
    using that Cons.IH [of s' d'] Cons.prems(2) schedules_only_trans [OF that(2)]
    by (simp add: schedules_only_def)
  show ?case
  proof (cases found)
    case (Inl x)
    show ?thesis
    proof (cases rule: CreateSchedule_cases [of i ?c e "tick d"])
      case (failed y d')
      with Inl lookup Cons.prems(1) show ?thesis
        by (intro step [of s d'])
          (auto intro: agree_same schedules_only_trans [OF schedules_only_tick] simp: Let_def)
    next
      case (created n rule d')
      from created(4) Cons.prems(2) have rule: "rule = i" by simp
      have "db_ok d'" using db_ok_append [of "tick d" d'] ok created by auto
      moreover have "live valid (t_schedules d') = (live valid (t_schedules d))(show_nat n := live_row valid
          \<lparr>sID = show_nat n, sRuleID = i, sCronExpression = ?c, sEnabled = e\<rparr>)"
        using created(6,7) rule live_append [of "\<lparr>sID = show_nat n, sRuleID = i, sCronExpression = ?c, sEnabled = e\<rparr>"]
        by simp
      ultimately have "agree le entries valid (snd (AddOrUpdateSchedule C (show_nat n) i ?c e s), d')"
        by (rule agree_put [OF assms Cons.prems(1)])
      then show ?thesis
        using Inl lookup created schedules_only_trans [OF schedules_only_tick created(2)]
        by (intro step) (auto simp: Let_def)
    qed
  next
    case (Inr sch)
    from lookup Inr have "fst (GetScheduleByRuleAndCron i ?c d) = Inr sch" by simp
    note sch = GetScheduleByRuleAndCron_Inr [OF this]
    with ok have "db_int (tick d) (sID sch) = Some (sID sch)" by (auto simp: db_ok_def)
    then show ?thesis
    proof (cases rule: UpdateSchedule_cases [where c = ?c and e = e])
      case (failed x)
      with Inr lookup Cons.prems(1) show ?thesis
        by (intro step [of s "tick (tick d)"])
          (auto intro: schedules_only_trans [OF schedules_only_tick schedules_only_tick] simp: Let_def)
    next
      case (updated d')
      have "db_ok d'" using db_ok_map_rows [of "tick d" d'] ok updated by simp
      moreover have "live valid (t_schedules d') = (live valid (t_schedules d))(sID sch := live_row valid
          \<lparr>sID = sID sch, sRuleID = i, sCronExpression = ?c, sEnabled = e\<rparr>)"
        using updated(3) sch Cons.prems(2) ok
          live_update [of "t_schedules d" sch "\<lambda>s. s\<lparr>sCronExpression := ?c, sEnabled := e\<rparr>"]
        by (simp add: db_ok_def live_row_def)
      ultimately have "agree le entries valid (snd (AddOrUpdateSchedule C (sID sch) i ?c e s), d')"
        by (rule agree_put [OF assms Cons.prems(1)])
      then show ?thesis
        using Inr lookup updated schedules_only_trans [OF schedules_only_tick updated(2)]
        by (intro step) (auto simp: Let_def)
    qed
  qed
qed

lemma agree_add_schedules:
  assumes "keeps_updates le"
  shows "agree le entries valid (s, d) \<Longrightarrow> set schs \<subseteq> set (t_schedules d) \<Longrightarrow>
     agree le entries valid (add_schedules C schs s, d)"
proof (induction schs arbitrary: s)
  case Nil
  then show ?case by (simp add: add_schedules_def)
next
  case (Cons sch schs)
  let ?s1 = "snd (AddOrUpdateSchedule C (sID sch) (sRuleID sch) (sCronExpression sch) (sEnabled sch) s)"
  from Cons.prems have ok: "db_ok d" by (simp add: agree_def)
  with Cons.prems have "live valid (t_schedules d) (sID sch) = live_row valid sch"
    by (simp add: db_ok_def live_mem)
  then have "agree le entries valid (?s1, d)"
    by (intro agree_put [OF assms Cons.prems(1) ok]) (simp add: live_row_def fun_upd_idem)
  with Cons show ?case by (simp add: add_schedules_def)
qed

text \<open>Refreshing a rule's schedules keeps the agreement, whatever the database answers.\<close>

lemma agree_refresh:
  assumes le: "keeps_updates le" and ok: "agree le entries valid (s, d)" and i: "db_int d i = Some i"
  shows "agree le entries valid (refreshSchedulesForRule C i (s, d))
     \<and> schedules_only d (snd (refreshSchedulesForRule C i (s, d)))"
proof -
  obtain res where rule: "GetRuleByID i d = (res, tick d)" by (metis prod.collapse read_only(1))
  show ?thesis
  proof (cases res)
    case (Inl x)
    with rule ok show ?thesis by (simp add: refreshSchedulesForRule_def)
  next
    case (Inr x)
    let ?sd2 = "if HasTimeConditions (rConditions x)
      then createSchedulesFromTimeConditions C i (rConditions x) (rEnabled x) (s, tick d) else (s, tick d)"
    obtain s2 d2 where sd2: "?sd2 = (s2, d2)" by (cases ?sd2)
    have "agree le entries valid ?sd2 \<and> schedules_only (tick d) (snd ?sd2)"
      using agree_create [OF le, of s "tick d"] ok i
      by (auto simp: createSchedulesFromTimeConditions_def Let_def)
    with sd2 have two: "agree le entries valid (s2, d2)" "schedules_only d d2"
      by (auto intro: schedules_only_trans [OF schedules_only_tick])
    obtain found where lookup: "GetSchedulesByRuleID i d2 = (found, tick d2)"
      by (metis prod.collapse read_only(6))
    have eq: "refreshSchedulesForRule C i (s, d)
        = (case found of Inl _ \<Rightarrow> (s2, tick d2) | Inr schs \<Rightarrow> (add_schedules C schs s2, tick d2))"
      using rule Inr sd2 lookup unfolding refreshSchedulesForRule_def by (simp split: sum.split)
    show ?thesis
    proof (cases found)
      case (Inl y)
      with eq two show ?thesis by (auto intro: schedules_only_trans)
    next
      case (Inr schs)
      with lookup GetSchedulesByRuleID_sub [of i d2 schs] have "set schs \<subseteq> set (t_schedules d2)" by auto
      with Inr eq two agree_add_schedules [OF le two(1)] show ?thesis by (auto intro: schedules_only_trans)
    qed
  qed
qed

text \<open>
  Removing a rule's schedules takes each out of the scheduler first. If the row then cannot be
  deleted, the scheduler runs less than the table says.
\<close>

lemma agree_remove_one:
  assumes le: "keeps_updates le" and ok: "agree le entries valid (s, d)" and i: "db_int d i = Some i"
    and drop: "db_up d \<or> (\<forall>v l. le v l \<longrightarrow> le (v(i := None)) l)"
  shows "agree le entries valid (RemoveSchedule C i s, snd (DeleteSchedule i d))
    \<and> schedules_only d (snd (DeleteSchedule i d))"
  using i
proof (cases rule: DeleteSchedule_cases)
  case failed
  from ok have s: "sched_ok entries s" "db_ok d" "le (sched_view entries s) (live valid (t_schedules d))"
    by (simp_all add: agree_def)
  with drop failed(2) have "le ((sched_view entries s)(i := None)) (live valid (t_schedules d))" by blast
  with s failed(1) show ?thesis
    by (simp only: agree_def fst_conv snd_conv RemoveSchedule_ok RemoveSchedule_view db_ok_tick
        tick_fields schedules_only_tick simp_thms)
next
  case (deleted d')
  from ok have s: "sched_ok entries s" "db_ok d" "le (sched_view entries s) (live valid (t_schedules d))"
    by (simp_all add: agree_def)
  note db_ok_filter [OF s(2) deleted(2,3)] keeps_updatesD [OF le s(3), of i None]
  with s deleted show ?thesis
    by (simp only: agree_def fst_conv snd_conv RemoveSchedule_ok RemoveSchedule_view live_remove simp_thms)
qed

lemma agree_remove:
  assumes le: "keeps_updates le"
  shows "agree le entries valid (s, d) \<Longrightarrow> \<forall>sch \<in> set schs. db_int d (sID sch) = Some (sID sch) \<Longrightarrow>
     db_up d \<or> (\<forall>v l i. le v l \<longrightarrow> le (v(i := None)) l) \<Longrightarrow>
     agree le entries valid (remove_schedules C schs (s, d))
     \<and> schedules_only d (snd (remove_schedules C schs (s, d)))"
proof (induction schs arbitrary: s d)
  case Nil
  then show ?case by (simp add: remove_schedules_def)
next
  case (Cons sch schs)
  let ?s1 = "RemoveSchedule C (sID sch) s" and ?d1 = "snd (DeleteSchedule (sID sch) d)"
  have one: "agree le entries valid (?s1, ?d1)" "schedules_only d ?d1"
    using agree_remove_one [OF le Cons.prems(1), of "sID sch"] Cons.prems(2,3) by auto
  moreover from one(2) have "db_int ?d1 = db_int d" by (simp add: schedules_only_def)
  ultimately have "agree le entries valid (remove_schedules C schs (?s1, ?d1))"
    and "schedules_only ?d1 (snd (remove_schedules C schs (?s1, ?d1)))"
    using Cons.prems(2,3) schedules_only_up [OF one(2)] Cons.IH [of ?s1 ?d1] by simp_all
  moreover have "remove_schedules C (sch # schs) (s, d) = remove_schedules C schs (?s1, ?d1)"
    by (simp add: remove_schedules_def)
  ultimately show ?case using schedules_only_trans [OF one(2)] by simp
qed

lemma agree_remove_rule:
  assumes le: "keeps_updates le" and ok: "agree le entries valid (s, d)"
    and drop: "db_up d \<or> (\<forall>v l i. le v l \<longrightarrow> le (v(i := None)) l)"
  shows "agree le entries valid (removeSchedulesForRule C i (s, d))
     \<and> schedules_only d (snd (removeSchedulesForRule C i (s, d)))"
proof -
  obtain found where lookup: "GetSchedulesByRuleID i d = (found, tick d)"
    by (metis prod.collapse read_only(6))
  show ?thesis
  proof (cases found)
    case (Inl x)
    with lookup ok show ?thesis by (simp add: removeSchedulesForRule_def)
  next
    case (Inr schs)
    with lookup GetSchedulesByRuleID_sub [of i d schs] ok
    have "\<forall>sch \<in> set schs. db_int d (sID sch) = Some (sID sch)"
      by (auto simp: agree_def db_ok_def)
    with agree_remove [OF le, of s "tick d" schs] ok drop
    have "agree le entries valid (remove_schedules C schs (s, tick d))"
      "schedules_only (tick d) (snd (remove_schedules C schs (s, tick d)))" by simp_all
    with Inr lookup schedules_only_trans [OF schedules_only_tick] show ?thesis
      by (simp add: removeSchedulesForRule_def)
  qed
qed

text \<open>With a working database nothing of the rule is left, in the table or in the scheduler.\<close>

lemma remove_schedules_up:
  "db_up d \<Longrightarrow> sched_ok entries s \<Longrightarrow> \<forall>sch \<in> set schs. db_int d (sID sch) = Some (sID sch) \<Longrightarrow>
     t_schedules (snd (remove_schedules C schs (s, d)))
       = filter (\<lambda>x. sID x \<notin> sID ` set schs) (t_schedules d)
     \<and> sched_view entries (fst (remove_schedules C schs (s, d)))
       = (\<lambda>sid. if sid \<in> sID ` set schs then None else sched_view entries s sid)"
proof (induction schs arbitrary: s d)
  case Nil
  then show ?case by (simp add: remove_schedules_def)
next
  case (Cons sch schs)
  let ?d1 = "snd (DeleteSchedule (sID sch) d)"
  have d1: "db_up ?d1" "db_int ?d1 = db_int d" "t_schedules ?d1 = filter (\<lambda>x. sID x \<noteq> sID sch) (t_schedules d)"
    using Cons.prems by (simp_all add: DeleteSchedule_def exec_up exec_int_eq db_up_def)
  have "remove_schedules C (sch # schs) (s, d) = remove_schedules C schs (RemoveSchedule C (sID sch) s, ?d1)"
    by (simp add: remove_schedules_def)
  with Cons.IH [of ?d1 "RemoveSchedule C (sID sch) s"] Cons.prems d1 show ?case
    by (auto simp: RemoveSchedule_ok RemoveSchedule_view fun_eq_iff intro: filter_cong)
qed

lemma remove_rule_up:
  assumes "db_up d" and "db_ok d" and "sched_ok entries s" and i: "db_int d i = Some i"
  shows "t_schedules (snd (removeSchedulesForRule C i (s, d))) = filter (\<lambda>x. sRuleID x \<noteq> i) (t_schedules d)"
    and "sched_view entries (fst (removeSchedulesForRule C i (s, d)))
         = (\<lambda>sid. if \<exists>x \<in> set (t_schedules d). sRuleID x = i \<and> sID x = sid then None else sched_view entries s sid)"
proof -
  let ?schs = "filter (\<lambda>x. sRuleID x = i) (t_schedules d)"
  have run: "removeSchedulesForRule C i (s, d) = remove_schedules C ?schs (s, tick d)"
    using assms by (simp add: removeSchedulesForRule_def GetSchedulesByRuleID_up)
  have "\<forall>sch \<in> set ?schs. db_int (tick d) (sID sch) = Some (sID sch)"
    using assms(2) by (auto simp: db_ok_def)
  with assms remove_schedules_up [of "tick d" s ?schs]
  have *: "t_schedules (snd (remove_schedules C ?schs (s, tick d)))
       = filter (\<lambda>x. sID x \<notin> sID ` set ?schs) (t_schedules d)"
    "sched_view entries (fst (remove_schedules C ?schs (s, tick d)))
       = (\<lambda>sid. if sid \<in> sID ` set ?schs then None else sched_view entries s sid)"
    by simp_all
  have "sID x \<in> sID ` set ?schs \<longleftrightarrow> sRuleID x = i" if "x \<in> set (t_schedules d)" for x
    using that assms(2) by (auto simp: db_ok_def dest: inj_onD [OF distinct_map [THEN iffD1, THEN conjunct2]])
  with run *(1) show "t_schedules (snd (removeSchedulesForRule C i (s, d))) = filter (\<lambda>x. sRuleID x \<noteq> i) (t_schedules d)"
    by (simp cong: filter_cong)
  show "sched_view entries (fst (removeSchedulesForRule C i (s, d)))
         = (\<lambda>sid. if \<exists>x \<in> set (t_schedules d). sRuleID x = i \<and> sID x = sid then None else sched_view entries s sid)"
    using run *(2) by (auto simp: fun_eq_iff)
qed

section \<open>Loading\<close>

text \<open>
  Loading into a scheduler that runs nothing: all live schedules, or, when the rows break off,
  some of them, and no error is reported.
\<close>

lemma LoadSchedules_agree:
  assumes "sched_ok entries s" and "sched_view entries s = Map.empty" and "db_ok d"
  shows "backed entries valid (snd (LoadSchedules C s d))"
    and "db_up d \<Longrightarrow> fst (LoadSchedules C s d) \<and> synced entries valid (snd (LoadSchedules C s d))"
    and "schedules_only d (snd (snd (LoadSchedules C s d)))"
    and "t_schedules (snd (snd (LoadSchedules C s d))) = t_schedules d"
proof -
  obtain res where res: "GetAllSchedules d = (res, tick d)" by (metis prod.collapse read_only(5))
  have "map_of (s_jobMap s) sid = None" for sid
  proof (cases "map_of (s_jobMap s) sid")
    case (Some i)
    with assms(1) have "entry_owner (entries (s_cron s)) i = Some sid"
      by (simp add: sched_ok_def jobs_ok_def)
    with Some have "sched_view entries s sid \<noteq> None"
      by (auto simp: sched_view_def jobs_view_def entry_owner_def)
    with assms(2) show ?thesis by simp
  qed
  then have load: "sched_ok entries (load_schedules C schs s)
      \<and> sched_view entries (load_schedules C schs s) = live valid schs" if "distinct (map sID schs)" for schs
    using load_schedules_correct [OF assms(1) that] assms(2) live_map_of [OF that] by simp
  have dist: "distinct (map sID (t_schedules d))" using assms(3) by (simp add: db_ok_def)
  then have dist': "distinct (map sID (take n (t_schedules d)))" for n
    by (simp add: take_map [symmetric] distinct_take)
  show "backed entries valid (snd (LoadSchedules C s d))"
  proof (cases res)
    case (Inl x)
    with res assms show ?thesis by (simp add: LoadSchedules_def backed_def agree_def)
  next
    case (Inr schs)
    with res GetAllSchedules_sub [of d schs] obtain n where "schs = take n (t_schedules d)" by auto
    with Inr res load [OF dist', of n] assms(3) live_take show ?thesis
      by (simp add: LoadSchedules_def backed_def agree_def)
  qed
  show "fst (LoadSchedules C s d) \<and> synced entries valid (snd (LoadSchedules C s d))" if "db_up d"
    using load [OF dist] assms(3) that
    by (simp add: LoadSchedules_def GetAllSchedules_up synced_def agree_def)
  show "schedules_only d (snd (snd (LoadSchedules C s d)))"
    and "t_schedules (snd (snd (LoadSchedules C s d))) = t_schedules d"
    using res by (simp_all add: LoadSchedules_def split: sum.split)
qed

lemma ReloadSchedules_agree:
  assumes "sched_ok entries s" and "visit_order iter" and "db_ok d"
  shows "backed entries valid (snd (ReloadSchedules C iter s d))"
    and "db_up d \<Longrightarrow> fst (ReloadSchedules C iter s d) \<and> synced entries valid (snd (ReloadSchedules C iter s d))"
    and "schedules_only d (snd (snd (ReloadSchedules C iter s d)))"
    and "t_schedules (snd (snd (ReloadSchedules C iter s d))) = t_schedules d"
  unfolding ReloadSchedules_def
  using LoadSchedules_agree [OF clear_ok [OF assms(1,2)] assms(3)] by blast+

end

section \<open>The rows a refresh leaves\<close>

text \<open>
  With a working database, creating the schedules of a rule is \<open>ensure\<close>, once per time
  condition, on the table and the sequence that numbers it: the first row of the rule with that
  expression gets the rule's state, or a row is appended. Ids are numbers below the sequence,
  which must not run out (the column is 32 bits wide).
\<close>

definition ensure :: "string \<Rightarrow> bool \<Rightarrow> time_condition \<Rightarrow> nat \<times> schedule list \<Rightarrow> nat \<times> schedule list" where
  "ensure i e tc nr =
     (case nr of (n, rows) \<Rightarrow>
        (case find (\<lambda>s. sRuleID s = i \<and> sCronExpression s = ConvertToCronExpression tc) rows of
           Some sch \<Rightarrow> (n, map_rows (\<lambda>s. sID s = sID sch) (\<lambda>s. s\<lparr>sEnabled := e\<rparr>) rows)
         | None \<Rightarrow> (Suc n, rows @ [\<lparr>sID = show_nat n, sRuleID = i,
                                     sCronExpression = ConvertToCronExpression tc, sEnabled = e\<rparr>])))"

definition seq_ok :: "db \<Rightarrow> bool" where
  "seq_ok d \<longleftrightarrow> (\<forall>s \<in> set (t_schedules d). \<exists>m < schedules_seq d. sID s = show_nat m)"

lemma seq_fresh: "seq_ok d \<Longrightarrow> show_nat (schedules_seq d) \<notin> sID ` set (t_schedules d)"
  by (auto simp: seq_ok_def)

lemma find_filter_hd: "find p xs = (case filter p xs of [] \<Rightarrow> None | x # _ \<Rightarrow> Some x)"
  by (induction xs) auto

lemma GetScheduleByRuleAndCron_up:
  "db_up d \<Longrightarrow> db_int d i = Some i \<Longrightarrow> GetScheduleByRuleAndCron i c d =
     ((case find (\<lambda>s. sRuleID s = i \<and> sCronExpression s = c) (t_schedules d) of
         None \<Rightarrow> Inl NoRows | Some s \<Rightarrow> Inr s), tick d)"
  by (simp add: GetScheduleByRuleAndCron_def query_row_up where_int_def find_filter_hd split: list.split)

lemma map_rows_cong: "(\<And>x. x \<in> set rows \<Longrightarrow> p x \<Longrightarrow> f x = g x) \<Longrightarrow> map_rows p f rows = map_rows p g rows"
  by (simp add: map_rows_def)

definition table_of :: "db \<Rightarrow> nat \<times> schedule list" where
  "table_of d = (schedules_seq d, t_schedules d)"

definition ready :: "string \<Rightarrow> nat \<Rightarrow> db \<Rightarrow> bool" where
  "ready i k d \<longleftrightarrow> db_up d \<and> db_ok d \<and> seq_ok d \<and> i \<in> rrID ` set (t_rules d) \<and> schedules_seq d + k \<le> 2147483648"

lemma create_step:
  assumes ready: "ready i (Suc k) d"
  obtains s' d' where "create_schedules C i e (tc # tcs) (s, d) = create_schedules C i e tcs (s', d')"
    and "table_of d' = ensure i e tc (table_of d)" and "ready i k d'"
proof -
  let ?c = "ConvertToCronExpression tc"
  from ready have up: "db_up d" and ok: "db_ok d" and seq: "seq_ok d" and rule: "i \<in> rrID ` set (t_rules d)"
    and room: "schedules_seq d + Suc k \<le> 2147483648" by (simp_all add: ready_def)
  from ok rule have i: "db_int d i = Some i" by (auto simp: db_ok_def)
  show thesis
  proof (cases "find (\<lambda>s. sRuleID s = i \<and> sCronExpression s = ?c) (t_schedules d)")
    case None
    let ?d' = "(tick (tick d))\<lparr>schedules_seq := Suc (schedules_seq d), t_schedules := t_schedules d
         @ [\<lparr>sID = show_nat (schedules_seq d), sRuleID = i, sCronExpression = ?c, sEnabled = e\<rparr>]\<rparr>"
    have new: "CreateSchedule i ?c e (tick d) = (Inr (show_nat (schedules_seq d)), ?d')"
      using up i rule room seq_fresh [OF seq]
      by (simp add: CreateSchedule_def exec_up exec_int_eq Let_def)
    have "db_ok ?d'"
      using db_ok_append [of "tick d" ?d' "schedules_seq d" i ?c e] ok room rule seq_fresh [OF seq]
      by (simp add: schedules_only_def)
    moreover have "seq_ok ?d'" using seq by (auto simp: seq_ok_def less_Suc_eq)
    ultimately have "ready i k ?d'"
      using up rule room by (simp add: ready_def db_up_def)
    then show thesis
      using None up i new
      by (intro that [of "snd (AddOrUpdateSchedule C (show_nat (schedules_seq d)) i ?c e s)" ?d'])
        (simp_all add: GetScheduleByRuleAndCron_up table_of_def ensure_def Let_def)
  next
    case (Some sch)
    then have sch: "sch \<in> set (t_schedules d)" "sRuleID sch = i" "sCronExpression sch = ?c"
      by (auto simp: find_Some_iff)
    let ?rows = "map_rows (\<lambda>s. sID s = sID sch) (\<lambda>s. s\<lparr>sEnabled := e\<rparr>) (t_schedules d)"
    let ?d' = "(tick (tick d))\<lparr>t_schedules := ?rows\<rparr>"
    have "s\<lparr>sCronExpression := ?c, sEnabled := e\<rparr> = s\<lparr>sEnabled := e\<rparr>"
      if "s \<in> set (t_schedules d)" "sID s = sID sch" for s
    proof -
      from that sch ok have "s = sch" by (auto simp: db_ok_def distinct_map inj_on_def)
      with sch(3) show ?thesis by simp
    qed
    then have rows: "map_rows (\<lambda>s. sID s = sID sch) (\<lambda>s. s\<lparr>sCronExpression := ?c, sEnabled := e\<rparr>) (t_schedules d) = ?rows"
      by (intro map_rows_cong) blast
    from sch(1) ok have "db_int d (sID sch) = Some (sID sch)" unfolding db_ok_def by blast
    with up have "UpdateSchedule (sID sch) ?c e (tick d) = (Inr (), (tick (tick d))\<lparr>t_schedules :=
        map_rows (\<lambda>s. sID s = sID sch) (\<lambda>s. s\<lparr>sCronExpression := ?c, sEnabled := e\<rparr>) (t_schedules d)\<rparr>)"
      by (simp add: UpdateSchedule_def exec_up exec_int_eq)
    then have upd: "UpdateSchedule (sID sch) ?c e (tick d) = (Inr (), ?d')" by (simp only: rows)
    have "db_ok ?d'" by (rule db_ok_map_rows [OF ok, where f = "\<lambda>s. s\<lparr>sEnabled := e\<rparr>"]) (simp_all add: schedules_only_def)
    moreover have "seq_ok ?d'" using seq by (auto simp: seq_ok_def map_rows_def) metis
    ultimately have "ready i k ?d'"
      using up rule room by (simp add: ready_def db_up_def)
    then show thesis
      using Some up i upd
      by (intro that [of "snd (AddOrUpdateSchedule C (sID sch) i ?c e s)" ?d'])
        (simp_all add: GetScheduleByRuleAndCron_up table_of_def ensure_def Let_def)
  qed
qed

lemma create_schedules_ensure:
  "ready i (length tcs) d \<Longrightarrow>
     table_of (snd (create_schedules C i e tcs (s, d))) = fold (ensure i e) tcs (table_of d)
     \<and> ready i 0 (snd (create_schedules C i e tcs (s, d)))"
proof (induction tcs arbitrary: s d)
  case Nil
  then show ?case by simp
next
  case (Cons tc tcs)
  then have "ready i (Suc (length tcs)) d" by simp
  then obtain s' d' where "create_schedules C i e (tc # tcs) (s, d) = create_schedules C i e tcs (s', d')"
    "table_of d' = ensure i e tc (table_of d)" "ready i (length tcs) d'"
    by (rule create_step)
  with Cons.IH [of d' s'] show ?case by simp
qed

text \<open>What \<open>ensure\<close> does to the rows, by rule and expression.\<close>

definition has_row :: "string \<Rightarrow> bool \<Rightarrow> string \<Rightarrow> schedule list \<Rightarrow> bool" where
  "has_row i e c rows \<longleftrightarrow> (\<exists>s \<in> set rows. sRuleID s = i \<and> sCronExpression s = c \<and> sEnabled s = e)"

definition rows_ok :: "nat \<times> schedule list \<Rightarrow> bool" where
  "rows_ok nr \<longleftrightarrow> distinct (map sID (snd nr)) \<and> (\<forall>s \<in> set (snd nr). \<exists>m < fst nr. sID s = show_nat m)"

definition crons_of :: "string \<Rightarrow> schedule list \<Rightarrow> string list" where
  "crons_of i rows = map sCronExpression (filter (\<lambda>s. sRuleID s = i) rows)"

lemma ready_rows_ok: "ready i k d \<Longrightarrow> rows_ok (table_of d)"
  by (simp add: ready_def rows_ok_def table_of_def db_ok_def seq_ok_def)

lemma map_rows_id: "(\<And>x. x \<in> set rows \<Longrightarrow> p x \<Longrightarrow> f x = x) \<Longrightarrow> map_rows p f rows = rows"
  by (simp add: map_rows_def map_idI)

lemma crons_of_map_rows: "crons_of i (map_rows p (\<lambda>s. s\<lparr>sEnabled := e\<rparr>) rows) = crons_of i rows"
  by (induction rows) (auto simp: crons_of_def map_rows_def)

lemma ensure_cases:
  obtains (found) sch n rows where "nr = (n, rows)" and "sch \<in> set rows" and "sRuleID sch = i"
      and "sCronExpression sch = ConvertToCronExpression tc"
      and "ensure i e tc nr = (n, map_rows (\<lambda>s. sID s = sID sch) (\<lambda>s. s\<lparr>sEnabled := e\<rparr>) rows)"
    | (absent) n rows where "nr = (n, rows)" and "ConvertToCronExpression tc \<notin> set (crons_of i rows)"
      and "ensure i e tc nr = (Suc n, rows @ [\<lparr>sID = show_nat n, sRuleID = i,
             sCronExpression = ConvertToCronExpression tc, sEnabled = e\<rparr>])"
proof -
  obtain n rows where nr: "nr = (n, rows)" by (cases nr)
  show thesis
  proof (cases "find (\<lambda>s. sRuleID s = i \<and> sCronExpression s = ConvertToCronExpression tc) rows")
    case None
    then have "ConvertToCronExpression tc \<notin> set (crons_of i rows)"
      by (auto simp: crons_of_def find_None_iff)
    with None show thesis by (intro absent [OF nr]) (simp_all add: nr ensure_def)
  next
    case (Some sch)
    then have "sch \<in> set rows" "sRuleID sch = i" "sCronExpression sch = ConvertToCronExpression tc"
      by (auto simp: find_Some_iff)
    with Some show thesis by (intro found [OF nr, of sch]) (simp_all add: nr ensure_def)
  qed
qed

lemma ensure_rows_ok: "rows_ok nr \<Longrightarrow> rows_ok (ensure i e tc nr)"
  by (cases rule: ensure_cases [of nr i tc e])
    (auto simp: rows_ok_def map_rows_map less_Suc_eq, auto simp: map_rows_def)

lemma ensure_crons:
  "crons_of j (snd (ensure i e tc nr)) =
     (if j = i \<and> ConvertToCronExpression tc \<notin> set (crons_of i (snd nr))
      then crons_of j (snd nr) @ [ConvertToCronExpression tc] else crons_of j (snd nr))"
proof (cases rule: ensure_cases [of nr i tc e])
  case (found sch n rows)
  then have "ConvertToCronExpression tc \<in> set (crons_of i rows)" by (auto simp: crons_of_def image_iff)
  with found show ?thesis by (simp add: crons_of_map_rows)
next
  case (absent n rows)
  then show ?thesis by (auto simp: crons_of_def)
qed

lemma ensure_makes_row: "has_row i e (ConvertToCronExpression tc) (snd (ensure i e tc nr))"
proof (cases rule: ensure_cases [of nr i tc e])
  case (found sch n rows)
  then have "sch\<lparr>sEnabled := e\<rparr> \<in> set (map_rows (\<lambda>s. sID s = sID sch) (\<lambda>s. s\<lparr>sEnabled := e\<rparr>) rows)"
    by (force simp: map_rows_def)
  with found show ?thesis by (auto simp: has_row_def intro: bexI [of _ "sch\<lparr>sEnabled := e\<rparr>"])
next
  case (absent n rows)
  then show ?thesis by (simp add: has_row_def)
qed

lemma ensure_keeps_row:
  assumes "has_row i e c (snd nr)"
  shows "has_row i e c (snd (ensure i e tc nr))"
proof (cases rule: ensure_cases [of nr i tc e])
  case (found sch n rows)
  with assms obtain s where "s \<in> set rows" "sRuleID s = i" "sCronExpression s = c" "sEnabled s = e"
    by (auto simp: has_row_def)
  then have "\<exists>x \<in> set (map_rows (\<lambda>s. sID s = sID sch) (\<lambda>s. s\<lparr>sEnabled := e\<rparr>) rows).
      sRuleID x = i \<and> sCronExpression x = c \<and> sEnabled x = e"
    by (force simp: map_rows_def)
  with found show ?thesis by (simp add: has_row_def)
next
  case (absent n rows)
  with assms show ?thesis by (auto simp: has_row_def)
qed

lemma filter_map_rows:
  "(\<And>x. x \<in> set rows \<Longrightarrow> p x \<Longrightarrow> \<not> q x \<and> \<not> q (f x)) \<Longrightarrow> filter q (map_rows p f rows) = filter q rows"
  by (induction rows) (auto simp: map_rows_def)

lemma rows_ok_same:
  "rows_ok (n, rows) \<Longrightarrow> x \<in> set rows \<Longrightarrow> y \<in> set rows \<Longrightarrow> sID x = sID y \<Longrightarrow> x = y"
  by (auto simp: rows_ok_def distinct_map inj_on_def)

lemma ensure_other_rules:
  assumes "rows_ok nr"
  shows "filter (\<lambda>s. sRuleID s \<noteq> i) (snd (ensure i e tc nr)) = filter (\<lambda>s. sRuleID s \<noteq> i) (snd nr)"
proof (cases rule: ensure_cases [of nr i tc e])
  case (found sch n rows)
  with assms have "x = sch" if "x \<in> set rows" "sID x = sID sch" for x
    using that rows_ok_same by blast
  then have "filter (\<lambda>s. sRuleID s \<noteq> i) (map_rows (\<lambda>s. sID s = sID sch) (\<lambda>s. s\<lparr>sEnabled := e\<rparr>) rows)
      = filter (\<lambda>s. sRuleID s \<noteq> i) rows"
    using found(3) by (intro filter_map_rows) auto
  then show ?thesis using found by simp
qed simp

lemma ensure_idle:
  assumes ok: "rows_ok nr" and row: "has_row i e (ConvertToCronExpression tc) (snd nr)"
    and once: "distinct (crons_of i (snd nr))"
  shows "ensure i e tc nr = nr"
proof (cases rule: ensure_cases [of nr i tc e])
  case (found sch n rows)
  from row found(1) obtain s where s: "s \<in> set rows" "sRuleID s = i"
    "sCronExpression s = ConvertToCronExpression tc" "sEnabled s = e" by (auto simp: has_row_def)
  with once found(1-4) have "s = sch" by (auto simp: crons_of_def distinct_map inj_on_def)
  moreover have "x = sch" if "x \<in> set rows" "sID x = sID sch" for x
    using that ok found(1,2) rows_ok_same by blast
  moreover from s(4) have "s\<lparr>sEnabled := e\<rparr> = s" by (cases s) simp
  ultimately have "map_rows (\<lambda>x. sID x = sID sch) (\<lambda>x. x\<lparr>sEnabled := e\<rparr>) rows = rows"
    by (intro map_rows_id) metis
  with found show ?thesis by simp
next
  case (absent n rows)
  with row show ?thesis by (auto simp: has_row_def crons_of_def image_iff)
qed

text \<open>The same for all time conditions of a rule.\<close>

lemma fold_ensure:
  assumes "rows_ok nr"
  shows "rows_ok (fold (ensure i e) tcs nr)"
    and "filter (\<lambda>s. sRuleID s \<noteq> i) (snd (fold (ensure i e) tcs nr)) = filter (\<lambda>s. sRuleID s \<noteq> i) (snd nr)"
    and "set (crons_of i (snd (fold (ensure i e) tcs nr)))
         = set (crons_of i (snd nr)) \<union> ConvertToCronExpression ` set tcs"
    and "distinct (crons_of i (snd nr)) \<Longrightarrow> distinct (crons_of i (snd (fold (ensure i e) tcs nr)))"
    and "has_row i e c (snd nr) \<Longrightarrow> has_row i e c (snd (fold (ensure i e) tcs nr))"
    and "tc \<in> set tcs \<Longrightarrow> has_row i e (ConvertToCronExpression tc) (snd (fold (ensure i e) tcs nr))"
proof -
  show "rows_ok (fold (ensure i e) tcs nr)"
    using assms by (induction tcs arbitrary: nr) (simp_all add: ensure_rows_ok)
  show "filter (\<lambda>s. sRuleID s \<noteq> i) (snd (fold (ensure i e) tcs nr)) = filter (\<lambda>s. sRuleID s \<noteq> i) (snd nr)"
    using assms by (induction tcs arbitrary: nr) (simp_all add: ensure_rows_ok ensure_other_rules)
  show "set (crons_of i (snd (fold (ensure i e) tcs nr)))
         = set (crons_of i (snd nr)) \<union> ConvertToCronExpression ` set tcs"
    by (induction tcs arbitrary: nr) (auto simp: ensure_crons)
  show "distinct (crons_of i (snd (fold (ensure i e) tcs nr)))" if "distinct (crons_of i (snd nr))"
    using that by (induction tcs arbitrary: nr) (simp_all add: ensure_crons)
  have keep: "has_row i e c (snd (fold (ensure i e) ts nr))" if "has_row i e c (snd nr)" for c ts nr
    using that by (induction ts arbitrary: nr) (simp_all add: ensure_keeps_row)
  then show "has_row i e c (snd nr) \<Longrightarrow> has_row i e c (snd (fold (ensure i e) tcs nr))" .
  show "has_row i e (ConvertToCronExpression tc) (snd (fold (ensure i e) tcs nr))" if "tc \<in> set tcs"
    using that
  proof (induction tcs arbitrary: nr)
    case (Cons a tcs)
    then show ?case by (cases "tc = a") (simp_all add: keep ensure_makes_row)
  qed simp
qed

lemma fold_ensure_again:
  assumes "rows_ok nr" and "distinct (crons_of i (snd nr))"
  shows "fold (ensure i e) tcs (fold (ensure i e) tcs nr) = fold (ensure i e) tcs nr"
proof -
  let ?nr = "fold (ensure i e) tcs nr"
  have "ensure i e tc ?nr = ?nr" if "tc \<in> set tcs" for tc
    using that by (intro ensure_idle fold_ensure assms)
  then have "fold (ensure i e) ts ?nr = ?nr" if "set ts \<subseteq> set tcs" for ts
    using that by (induction ts) auto
  then show ?thesis by simp
qed

section \<open>Properties\<close>

lemma snd_table_of: "snd (table_of d) = t_schedules d"
  by (simp add: table_of_def)

lemma refresh_table:
  assumes up: "db_up d" and ok: "db_ok d" and "seq_ok d" and row: "row \<in> set (t_rules d)" and en: "rrEnabled row = Some e"
    and room: "schedules_seq d + length (ExtractTimeConditions (Some (rrConditions row))) \<le> 2147483648"
  shows "table_of (snd (refreshSchedulesForRule C (rrID row) (s, d)))
    = fold (ensure (rrID row) e) (ExtractTimeConditions (Some (rrConditions row))) (table_of d)"
proof -
  let ?i = "rrID row" and ?tcs = "ExtractTimeConditions (Some (rrConditions row))"
  let ?sd2 = "create_schedules C ?i e ?tcs (s, tick d)"
  have get: "GetRuleByID ?i d = (Inr (rule_of row), tick d)"
    using GetRuleByID_up [OF up ok row] en by (simp add: scan_rule_Inr [THEN iffD2])
  have "ready ?i (length ?tcs) (tick d)"
    using assms by (auto simp: ready_def seq_ok_def)
  note created = create_schedules_ensure [OF this, of C e s]
  have "(if HasTimeConditions (rConditions (rule_of row))
      then createSchedulesFromTimeConditions C ?i (rConditions (rule_of row)) (rEnabled (rule_of row)) (s, tick d)
      else (s, tick d)) = ?sd2"
    using en by (cases ?tcs) (simp_all add: HasTimeConditions_def createSchedulesFromTimeConditions_def Let_def)
  moreover obtain s2 d2 where sd2: "?sd2 = (s2, d2)" by (cases ?sd2)
  moreover obtain found where "GetSchedulesByRuleID ?i d2 = (found, tick d2)" by (metis prod.collapse read_only(6))
  ultimately have "snd (refreshSchedulesForRule C ?i (s, d)) = tick (snd ?sd2)"
    using get unfolding refreshSchedulesForRule_def by (cases found) simp_all
  with created show ?thesis by (simp add: table_of_def)
qed

text \<open>
  C10: the scheduler never runs a job that the schedule table does not back: if it runs exactly
  the enabled schedules with a valid expression, it still does after refreshing any rule, and
  if it runs some of them, it still runs only such; whatever the database answers on the way,
  statement by statement.
\<close>

theorem refresh_keeps_sync:
  assumes "cron_service C entries valid" and "db_int d i = Some i" and "backed entries valid (s, d)"
  shows "backed entries valid (refreshSchedulesForRule C i (s, d))
    \<and> (synced entries valid (s, d) \<longrightarrow> synced entries valid (refreshSchedulesForRule C i (s, d)))"
proof -
  note refresh = cron_service.agree_refresh [OF assms(1)]
  have "backed entries valid (refreshSchedulesForRule C i (s, d))"
    using refresh [OF keeps_updates_map_le _ assms(2)] assms(3) by (simp add: backed_def)
  moreover have "synced entries valid (refreshSchedulesForRule C i (s, d))" if "synced entries valid (s, d)"
    using refresh [OF keeps_updates_eq _ assms(2)] that by (simp add: synced_def)
  ultimately show ?thesis by blast
qed

lemma demo_rules_int: "db_int demo_rules ''7'' = Some ''7''"
  by (simp add: demo_rules_def demo_db_def pg_int_demo)

lemma demo_synced: "synced map_of mem_valid (NewScheduler [], demo_rules)"
  using demo_scheduler_ok demo_rules_ok(1)
  by (simp add: synced_def agree_def)
    (simp add: sched_view_def jobs_view_def NewScheduler_def demo_rules_def demo_db_def live_def fun_eq_iff)

lemma refresh_keeps_sync_witness:
  "synced map_of mem_valid (refreshSchedulesForRule mem_cron ''7'' (NewScheduler [], demo_rules))"
  using refresh_keeps_sync [OF mc.cron_service_axioms demo_rules_int synced_backed [OF demo_synced]] demo_synced
  by blast

text \<open>
  C27: refreshing a rule's schedules does to the table what \<open>ensure\<close> does for each time condition
  of the rule in turn, and doing it again changes nothing, if the rule has no two schedules with
  one expression.
\<close>

theorem refresh_refines_ensure:
  assumes "db_up d" and "db_ok d" and "seq_ok d" and "row \<in> set (t_rules d)" and "rrEnabled row = Some e"
    and "schedules_seq d + length (ExtractTimeConditions (Some (rrConditions row))) \<le> 2147483648"
    and "distinct (crons_of (rrID row) (t_schedules d))"
  shows "table_of (snd (refreshSchedulesForRule C (rrID row) (s, d)))
      = fold (ensure (rrID row) e) (ExtractTimeConditions (Some (rrConditions row))) (table_of d)
    \<and> fold (ensure (rrID row) e) (ExtractTimeConditions (Some (rrConditions row)))
        (table_of (snd (refreshSchedulesForRule C (rrID row) (s, d))))
      = table_of (snd (refreshSchedulesForRule C (rrID row) (s, d)))"
proof -
  have "rows_ok (table_of d)"
    using assms(2,3) by (simp add: rows_ok_def table_of_def db_ok_def seq_ok_def)
  from fold_ensure_again [OF this] assms(7) refresh_table [OF assms(1-6), of C s] show ?thesis
    by (simp add: table_of_def [of d])
qed

lemma demo_row:
  "demo_rule_row ''7'' (enc_condition demo_tree) (demo_actions 1) \<in> set (t_rules demo_rules)"
  "rrID (demo_rule_row i c a) = i" "rrConditions (demo_rule_row i c a) = c" "rrEnabled (demo_rule_row i c a) = Some True"
  "seq_ok demo_rules" "schedules_seq demo_rules = 100" "t_schedules demo_rules = []"
  by (simp_all add: demo_rules_def demo_db_def seq_ok_def) (simp_all add: demo_rule_row_def)

lemma demo_tree_times:
  "ExtractTimeConditions (Some (enc_condition demo_tree)) = [\<lparr>tcHour = 18, tcMinute = 30, tcOperator = ''==''\<rparr>]"
proof -
  have "node_time demo_time = Some \<lparr>tcHour = 18, tcMinute = 30, tcOperator = cOp demo_time\<rparr>"
    by (subst node_time_parse [OF _ demo_parse_1830]) (simp_all add: demo_time_def)
  moreover have "time_node demo_time" "\<not> time_node demo_level" "cOp demo_time = ''==''"
    by (simp_all add: time_node_def demo_time_def demo_level_def zero_fields_def time_op_def)
  ultimately have "time_conditions demo_tree = [\<lparr>tcHour = 18, tcMinute = 30, tcOperator = ''==''\<rparr>]"
    by (simp add: demo_tree_def) (simp add: time_node_def zero_fields_def)
  then show ?thesis by (simp add: ExtractTimeConditions_eq)
qed

lemma refresh_refines_ensure_witness:
  "table_of (snd (refreshSchedulesForRule mem_cron ''7'' (NewScheduler [], demo_rules)))
     = (101, [\<lparr>sID = ''100'', sRuleID = ''7'', sCronExpression = ''30 18 * * *'', sEnabled = True\<rparr>])"
  using refresh_refines_ensure [OF demo_rules_ok(2,1) demo_row(5,1,4), of mem_cron "NewScheduler []"]
  by (simp add: demo_row demo_tree_times crons_of_def table_of_def ensure_def ConvertToCronExpression_def
      show_int_def show_nat.simps digit_char_def)

text \<open>
  C6: with a working database, refreshing an enabled rule leaves, for each of its time
  conditions, a live job in the scheduler that evaluates the rule at that minute, provided the
  cron service accepts the expression; and the schedules of all other rules are untouched.
\<close>

theorem time_conditions_scheduled:
  assumes "cron_service C entries valid" and "synced entries valid (s, d)"
    and "db_up d" and "seq_ok d" and "row \<in> set (t_rules d)" and "rrEnabled row = Some True"
    and "schedules_seq d + length (ExtractTimeConditions (Some (rrConditions row))) \<le> 2147483648"
    and "tc \<in> set (ExtractTimeConditions (Some (rrConditions row)))" and "valid (ConvertToCronExpression tc)"
  shows "(\<exists>sid. sched_view entries (fst (refreshSchedulesForRule C (rrID row) (s, d))) sid
        = Some (rrID row, ConvertToCronExpression tc))
    \<and> filter (\<lambda>x. sRuleID x \<noteq> rrID row) (t_schedules (snd (refreshSchedulesForRule C (rrID row) (s, d))))
      = filter (\<lambda>x. sRuleID x \<noteq> rrID row) (t_schedules d)"
proof -
  let ?tcs = "ExtractTimeConditions (Some (rrConditions row))"
  from assms(2) have ok: "db_ok d" by (simp add: synced_def agree_def)
  with assms(5) have i: "db_int d (rrID row) = Some (rrID row)" by (auto simp: db_ok_def)
  have rows: "rows_ok (table_of d)"
    using ok assms(4) by (simp add: rows_ok_def table_of_def db_ok_def seq_ok_def)
  obtain s' d' where run: "refreshSchedulesForRule C (rrID row) (s, d) = (s', d')" by (metis surj_pair)
  have table: "table_of d' = fold (ensure (rrID row) True) ?tcs (table_of d)"
    using refresh_table [OF assms(3) ok assms(4-7), of C s] run by simp
  have "has_row (rrID row) True (ConvertToCronExpression tc) (t_schedules d')"
    using fold_ensure(6) [OF rows assms(8), of "rrID row" True] unfolding table [symmetric] snd_table_of .
  then obtain sch where sch: "sch \<in> set (t_schedules d')" "sRuleID sch = rrID row"
    "sCronExpression sch = ConvertToCronExpression tc" "sEnabled sch" by (auto simp: has_row_def)
  have "synced entries valid (s', d')"
    using cron_service.agree_refresh [OF assms(1) keeps_updates_eq assms(2) [unfolded synced_def] i]
    unfolding run synced_def by (rule conjunct1)
  then have "sched_view entries s' = live valid (t_schedules d')" and "distinct (map sID (t_schedules d'))"
    by (simp_all add: synced_def agree_def db_ok_def)
  with sch assms(9) have "sched_view entries s' (sID sch) = Some (rrID row, ConvertToCronExpression tc)"
    by (simp add: live_mem live_row_def)
  moreover have "filter (\<lambda>x. sRuleID x \<noteq> rrID row) (t_schedules d') = filter (\<lambda>x. sRuleID x \<noteq> rrID row) (t_schedules d)"
    using fold_ensure(2) [OF rows, of "rrID row" True ?tcs] unfolding table [symmetric] snd_table_of .
  ultimately show ?thesis using run by auto
qed

lemma time_conditions_scheduled_witness:
  "\<exists>sid. sched_view map_of (fst (refreshSchedulesForRule mem_cron ''7'' (NewScheduler [], demo_rules))) sid
     = Some (''7'', ''30 18 * * *'')"
  using time_conditions_scheduled [OF mc.cron_service_axioms demo_synced demo_rules_ok(2) demo_row(5,1,4),
      of "\<lparr>tcHour = 18, tcMinute = 30, tcOperator = ''==''\<rparr>"]
  by (simp add: demo_row demo_tree_times ConvertToCronExpression_def mem_valid_def show_int_def show_nat.simps digit_char_def)

text \<open>
  nothing retires a schedule whose time condition is gone. When a rule's condition moves
  from one time to another, refreshing it keeps the old schedule, enabled, and the scheduler
  goes on evaluating the rule at the old time as well.
\<close>

theorem stale_schedules_kept:
  assumes "cron_service C entries valid" and "synced entries valid (s, d)"
    and "db_up d" and "seq_ok d" and "row \<in> set (t_rules d)" and "rrEnabled row = Some True"
    and "schedules_seq d + length (ExtractTimeConditions (Some (rrConditions row))) \<le> 2147483648"
    and old: "has_row (rrID row) True c (t_schedules d)" and "valid c"
  shows "has_row (rrID row) True c (t_schedules (snd (refreshSchedulesForRule C (rrID row) (s, d))))
    \<and> (\<exists>sid. sched_view entries (fst (refreshSchedulesForRule C (rrID row) (s, d))) sid = Some (rrID row, c))"
proof -
  let ?tcs = "ExtractTimeConditions (Some (rrConditions row))"
  from assms(2) have ok: "db_ok d" by (simp add: synced_def agree_def)
  with assms(5) have i: "db_int d (rrID row) = Some (rrID row)" by (auto simp: db_ok_def)
  have rows: "rows_ok (table_of d)"
    using ok assms(4) by (simp add: rows_ok_def table_of_def db_ok_def seq_ok_def)
  obtain s' d' where run: "refreshSchedulesForRule C (rrID row) (s, d) = (s', d')" by (metis surj_pair)
  have table: "table_of d' = fold (ensure (rrID row) True) ?tcs (table_of d)"
    using refresh_table [OF assms(3) ok assms(4-7), of C s] run by simp
  have kept: "has_row (rrID row) True c (t_schedules d')"
    using fold_ensure(5) [OF rows, of "rrID row" True c ?tcs] old unfolding table [symmetric] snd_table_of by simp
  then obtain sch where sch: "sch \<in> set (t_schedules d')" "sRuleID sch = rrID row" "sCronExpression sch = c" "sEnabled sch"
    by (auto simp: has_row_def)
  have "synced entries valid (s', d')"
    using cron_service.agree_refresh [OF assms(1) keeps_updates_eq assms(2) [unfolded synced_def] i]
    unfolding run synced_def by (rule conjunct1)
  then have "sched_view entries s' = live valid (t_schedules d')" and "distinct (map sID (t_schedules d'))"
    by (simp_all add: synced_def agree_def db_ok_def)
  with sch assms(9) have "sched_view entries s' (sID sch) = Some (rrID row, c)"
    by (simp add: live_mem live_row_def)
  with kept run show ?thesis by auto
qed

definition demo_stale :: db where
  "demo_stale = demo_rules\<lparr>t_schedules :=
     [\<lparr>sID = ''3'', sRuleID = ''7'', sCronExpression = ''0 8 * * *'', sEnabled = True\<rparr>]\<rparr>"

lemma demo_stale_ok:
  "db_ok demo_stale" "db_up demo_stale" "seq_ok demo_stale" "schedules_seq demo_stale = 100"
  "t_rules demo_stale = t_rules demo_rules"
  "t_schedules demo_stale = [\<lparr>sID = ''3'', sRuleID = ''7'', sCronExpression = ''0 8 * * *'', sEnabled = True\<rparr>]"
proof -
  have three: "show_nat 3 = ''3''" by (simp add: show_nat.simps digit_char_def)
  then have int: "db_int demo_rules ''3'' = Some ''3''"
    using pg_int_show_nat [of 3] by (simp add: demo_rules_def demo_db_def)
  show "db_ok demo_stale"
    using demo_rules_ok(1) demo_row(1) int by (auto simp: db_ok_def demo_stale_def demo_row(2) rev_image_eqI)
  show "db_up demo_stale" using demo_rules_ok(2) by (simp add: demo_stale_def db_up_def)
  show "seq_ok demo_stale" using three by (auto simp: seq_ok_def demo_stale_def demo_row intro!: exI [of _ 3])
qed (simp_all add: demo_stale_def demo_row)

lemma stale_schedules_kept_witness:
  "\<exists>s. synced map_of mem_valid (s, demo_stale)
    \<and> (\<exists>sid. sched_view map_of (fst (refreshSchedulesForRule mem_cron ''7'' (s, demo_stale))) sid = Some (''7'', ''0 8 * * *''))"
proof -
  let ?s = "fst (snd (LoadSchedules mem_cron (NewScheduler []) demo_stale))"
  have "sched_view map_of (NewScheduler []) = Map.empty"
    by (simp add: sched_view_def jobs_view_def NewScheduler_def fun_eq_iff)
  from mc.LoadSchedules_agree(2) [OF demo_scheduler_ok this demo_stale_ok(1,2)]
  have "synced map_of mem_valid (?s, tick demo_stale)"
    by (simp add: LoadSchedules_def GetAllSchedules_up demo_stale_ok)
  then have s: "synced map_of mem_valid (?s, demo_stale)" by (simp add: synced_def)
  have row: "demo_rule_row ''7'' (enc_condition demo_tree) (demo_actions 1) \<in> set (t_rules demo_stale)"
    using demo_row(1) by (simp add: demo_stale_ok)
  from stale_schedules_kept [OF mc.cron_service_axioms s demo_stale_ok(2,3) row demo_row(4), of "''0 8 * * *''"]
  have "\<exists>sid. sched_view map_of (fst (refreshSchedulesForRule mem_cron ''7'' (?s, demo_stale))) sid = Some (''7'', ''0 8 * * *'')"
    by (simp add: demo_row demo_tree_times demo_stale_ok has_row_def mem_valid_def)
  with s show ?thesis by blast
qed

lemma rule_removed:
  assumes "cron_service C entries valid" and "db_int d i = Some i"
  shows "backed entries valid (s, d) \<Longrightarrow> backed entries valid (removeSchedulesForRule C i (s, d))"
    and "backed entries valid (s, d) \<Longrightarrow> db_up d \<Longrightarrow>
      t_schedules (snd (removeSchedulesForRule C i (s, d))) = filter (\<lambda>x. sRuleID x \<noteq> i) (t_schedules d)"
    and "backed entries valid (s, d) \<Longrightarrow> db_up d \<Longrightarrow>
      \<forall>sid c. sched_view entries (fst (removeSchedulesForRule C i (s, d))) sid \<noteq> Some (i, c)"
    and "synced entries valid (s, d) \<Longrightarrow> db_up d \<Longrightarrow> synced entries valid (removeSchedulesForRule C i (s, d))"
proof -
  show still: "backed entries valid (removeSchedulesForRule C i (s, d))" if "backed entries valid (s, d)"
    using cron_service.agree_remove_rule [OF assms(1) keeps_updates_map_le] that
    by (auto simp: backed_def map_le_def)
  show gone: "t_schedules (snd (removeSchedulesForRule C i (s, d))) = filter (\<lambda>x. sRuleID x \<noteq> i) (t_schedules d)"
    if "backed entries valid (s, d)" "db_up d"
    using cron_service.remove_rule_up(1) [OF assms(1) that(2) _ _ assms(2)] that(1)
    by (simp add: backed_def agree_def)
  show "\<forall>sid c. sched_view entries (fst (removeSchedulesForRule C i (s, d))) sid \<noteq> Some (i, c)"
    if "backed entries valid (s, d)" "db_up d"
  proof (intro allI notI)
    fix sid c
    assume "sched_view entries (fst (removeSchedulesForRule C i (s, d))) sid = Some (i, c)"
    with still [OF that(1)] have "live valid (t_schedules (snd (removeSchedulesForRule C i (s, d)))) sid = Some (i, c)"
      unfolding backed_def agree_def map_le_def by (metis domI)
    then obtain x where "row_of sid (t_schedules (snd (removeSchedulesForRule C i (s, d)))) = Some x" "sRuleID x = i"
      by (auto simp: live_def live_row_def split: option.splits if_splits)
    with row_of_SomeD gone [OF that] show False by fastforce
  qed
  show "synced entries valid (removeSchedulesForRule C i (s, d))" if "synced entries valid (s, d)" "db_up d"
    using cron_service.agree_remove_rule [OF assms(1) keeps_updates_eq] that by (simp add: synced_def)
qed

text \<open>
  with a working database, removing a rule's schedules leaves none of them, in the table or
  in the scheduler, keeps all others, and keeps the two in step. With a failing one, the
  scheduler still runs nothing the table does not back.
\<close>

theorem rule_schedules_removed:
  assumes "cron_service C entries valid" and "backed entries valid (s, d)" and "db_int d i = Some i"
  shows "backed entries valid (removeSchedulesForRule C i (s, d))
    \<and> (db_up d \<longrightarrow>
        t_schedules (snd (removeSchedulesForRule C i (s, d))) = filter (\<lambda>x. sRuleID x \<noteq> i) (t_schedules d)
        \<and> (\<forall>sid c. sched_view entries (fst (removeSchedulesForRule C i (s, d))) sid \<noteq> Some (i, c))
        \<and> (synced entries valid (s, d) \<longrightarrow> synced entries valid (removeSchedulesForRule C i (s, d))))"
  using rule_removed(1-3) [OF assms(1,3,2)] rule_removed(4) [OF assms(1,3)] by blast

lemma rule_schedules_removed_witness:
  "synced map_of mem_valid (removeSchedulesForRule mem_cron ''7'' (NewScheduler [], demo_rules))"
  using rule_schedules_removed [OF mc.cron_service_axioms synced_backed [OF demo_synced] demo_rules_int]
    demo_synced demo_rules_ok(2) by blast

text \<open>
  reloading brings the scheduler back in step from any consistent state: with a working
  database it runs exactly the live schedules and nothing else; with a failing one it runs some
  of them; jobs from before never survive.
\<close>

theorem reload_resyncs:
  assumes "cron_service C entries valid" and "visit_order iter" and "sched_ok entries s" and "db_ok d"
  shows "backed entries valid (snd (ReloadSchedules C iter s d))
    \<and> (db_up d \<longrightarrow> fst (ReloadSchedules C iter s d) \<and> synced entries valid (snd (ReloadSchedules C iter s d)))"
  using cron_service.ReloadSchedules_agree [OF assms(1,3,2,4)] by blast

lemma reload_resyncs_witness:
  "synced map_of mem_valid (snd (ReloadSchedules mem_cron rev (NewScheduler []) demo_rules))"
  using reload_resyncs [OF mc.cron_service_axioms visit_order_rev demo_scheduler_ok demo_rules_ok(1)]
    demo_rules_ok(2) by blast

end
