(* ===== verification/System.thy ===== *)
theory System
  imports ScheduleSync
begin

text \<open>
  The components together: what a device report means for the rules that were not evaluated,
  what the engine has established once it is started, and what happens at the minute a time
  condition is scheduled for.
\<close>

section \<open>Rules a report does not concern\<close>

context redis_server begin

lemma leaf_unaffected:
  assumes "view r' = (view r)(device_key v \<mapsto> x)" and "cDeviceID f \<noteq> v"
  shows "leaf_value E R r' f = leaf_value E R r f"
  using assms by (intro leaf_value_cong) (simp_all add: key_string_def)

lemma holds_unaffected:
  assumes "view r' = (view r)(device_key v \<mapsto> x)" and "v \<noteq> ''''" and "v \<notin> raw_device_ids c"
  shows "holds_raw E R r' c = holds_raw E R r c"
proof (cases "unmarshal_condition c")
  case None
  then show ?thesis by (simp add: holds_raw_def)
next
  case (Some t)
  have "leaf_value E R r' f = leaf_value E R r f" if "f \<in> set (leaves t)" for f
  proof (rule leaf_unaffected [OF assms(1)])
    from that leaves_nodes [of t] have "f \<in> set (nodes t)" by blast
    with assms(2,3) Some show "cDeviceID f \<noteq> v" by (auto simp: raw_device_ids_def device_ids_def)
  qed
  then have "holds (leaf_value E R r') t = holds (leaf_value E R r) t" by (rule holds_cong)
  with Some show ?thesis by (simp add: holds_raw_def)
qed

end

text \<open>
  no evaluation is missed. When the associations are those of the rules (as after
  populating them) and an accepted device reports, every enabled rule whose conditions change
  their truth by the report is among the rules the report gets evaluated. The empty device id
  is excluded: conditions can name it, but it is never associated.
\<close>

theorem no_missed_evaluation:
  assumes "redis_server R view" and "fst (GetDeviceByID v d) = Inr dev" and "dev_Accepted dev" and "v \<noteq> ''''"
    and assoc: "(\<lambda>i. key_members (view r) (rules_key i)) = wanted rules"
    and "ProcessDeviceUpdate E0 R v st r d = (ids, r', d', later)"
    and "x \<in> set rules" and "rEnabled x" and "holds_raw E R r' (rConditions x) \<noteq> holds_raw E R r (rConditions x)"
  shows "rID x \<in> set ids"
proof (rule redis_server.update_accepted [OF assms(1-3), where E = E0 and st = st and r = r])
  fix ids0 r0
  assume "ProcessDeviceUpdate E0 R v st r d = (ids0, r0, tick d, Some (UpdateStateLater v (marshal_map st)))"
    and ids: "set ids0 = key_members (view r) (rules_key v)"
    and r0: "view r0 = (view r)(device_key v \<mapsto> (RStr (VDoc (marshal_map st)), Some 3600))"
  with assms(6) have same: "ids0 = ids" "r0 = r'" by simp_all
  have "v \<in> raw_device_ids (rConditions x)"
    using redis_server.holds_unaffected [OF assms(1) r0 [unfolded same] assms(4)] assms(9) by blast
  with assms(7,8) have "rID x \<in> wanted rules v" by (auto simp: wanted_def)
  with assoc ids same show ?thesis by (metis (mono_tags))
qed

lemma demo_unassociated: "key_members (mem_view demo_server) (rules_key i) = (if i = ''lamp'' then {''7''} else {})"
  by (auto simp: demo_server_def mem_view_def mem_val_def key_members_def rules_key_def)

lemma no_missed_evaluation_witness:
  "let row = rule_of (demo_rule_row ''7'' (enc_condition demo_tree) (demo_actions 1));
       run = ProcessDeviceUpdate (demo_env 18 30) mem_redis ''lamp'' (Some [(''level'', JNum 1)]) demo_server
               (demo_db [] [] [demo_lamp True])
   in holds_raw (demo_env 18 30) mem_redis (fst (snd run)) (rConditions row) = False \<and> ''7'' \<in> set (fst run)"
proof -
  let ?E = "demo_env 18 30" and ?d = "demo_db [] [] [demo_lamp True]" and ?st = "Some [(''level'', JNum 1)]"
  let ?x = "rule_of (demo_rule_row ''7'' (enc_condition demo_tree) (demo_actions 1))"
  obtain ids r' d' later where run: "ProcessDeviceUpdate ?E mem_redis ''lamp'' ?st demo_server ?d = (ids, r', d', later)"
    by (metis surj_pair)
  have x: "rConditions ?x = Some (enc_condition demo_tree)" "rID ?x = ''7''" "rEnabled ?x"
    by (simp_all add: demo_rule_row_def)
  have "key_members (mem_view demo_server) (rules_key i) = wanted [?x] i" for i
  proof -
    have "raw_device_ids (Some (enc_condition demo_tree)) = {''lamp''}"
      by (simp add: raw_device_ids_def device_ids_def) (simp add: demo_defs, blast)
    then show ?thesis by (simp add: demo_unassociated wanted_simps demo_row)
  qed
  then have assoc: "(\<lambda>i. key_members (mem_view demo_server) (rules_key i)) = wanted [?x]" by (simp add: fun_eq_iff)
  have level: "leaf_value ?E mem_redis r' demo_level = False"
  proof (rule mem.update_accepted [OF demo_lamp_get demo_lamp_accepted [THEN iffD2, OF TrueI], where E = ?E and st = ?st
        and r = demo_server])
    fix ids0 r0
    assume run0: "ProcessDeviceUpdate ?E mem_redis ''lamp'' ?st demo_server ?d
        = (ids0, r0, tick ?d, Some (UpdateStateLater ''lamp'' (marshal_map ?st)))"
      and v: "mem_view r0 = (mem_view demo_server)(device_key ''lamp'' \<mapsto> (RStr (VDoc (marshal_map ?st)), Some 3600))"
    have "leaf_value ?E mem_redis r0 demo_level = Compare (JV (or_nil (mget ?st (cKey demo_level)))) (cOp demo_level) (JNum 3)"
      by (rule mem.leaf_of_stored_state [where ttl = "Some 3600"])
        (simp_all add: v demo_level_def zero_fields_def jmap_ok_def)
    with run run0 show ?thesis by (simp add: demo_level_def zero_fields_def or_nil_def)
  qed
  then have now: "holds_raw ?E mem_redis r' (rConditions ?x) = False"
  proof -
    have "cOperator demo_level = ''''" by (simp add: demo_level_def zero_fields_def)
    with level show ?thesis by (simp add: holds_raw_def demo_row demo_tree_def del: enc_condition.simps)
  qed
  then have "holds_raw ?E mem_redis r' (rConditions ?x) \<noteq> holds_raw ?E mem_redis demo_server (rConditions ?x)"
    using demo_holds by (simp add: demo_row)
  from no_missed_evaluation [OF mem.redis_server_axioms demo_lamp_get _ _ assoc run _ x(3) this]
  have "''7'' \<in> set ids" by (simp add: demo_row)
  with now run show ?thesis by (simp add: Let_def)
qed

section \<open>Start\<close>

text \<open>
  a successful start on a fresh scheduler establishes what the running system relies on:
  the scheduler runs exactly the live schedules of the database, and every device's rule set
  holds exactly the enabled rules that name the device.
\<close>

theorem start_establishes:
  assumes "redis_server R view" and "cron_service C entries valid" and "visit_order iter"
    and "db_up (e_db e)" and "db_ok (e_db e)" and "\<forall>y \<in> set (t_rules (e_db e)). rrEnabled y \<noteq> None"
    and "e_sched e = NewScheduler c" and "entries c = Map.empty"
  shows "fst (Start R C iter e)
    \<and> synced entries valid (e_sched (snd (Start R C iter e)), e_db (snd (Start R C iter e)))
    \<and> (\<lambda>v. key_members (view (e_redis (snd (Start R C iter e)))) (rules_key v))
        = wanted (map rule_of (t_rules (e_db e)))"
proof -
  have fresh: "sched_ok entries (e_sched e)" "sched_view entries (e_sched e) = Map.empty"
    using assms(7,8) cron_service.NewScheduler_ok [OF assms(2,8)]
    by (simp_all add: sched_view_def jobs_view_def NewScheduler_def fun_eq_iff)
  obtain ok s d where load: "LoadSchedules C (e_sched e) (e_db e) = (ok, s, d)" by (metis surj_pair)
  note agree = cron_service.LoadSchedules_agree [OF assms(2) fresh assms(5), unfolded load snd_conv fst_conv]
  from agree(2) [OF assms(4)] have ok and sync: "synced entries valid (s, d)" by simp_all
  have same: "t_rules d = t_rules (e_db e)" "db_up d" using agree(3) assms(4) by (auto simp: schedules_only_def db_up_def)
  let ?e1 = "e\<lparr>e_sched := s, e_db := d\<rparr>"
  have "scan_all scan_rule (t_rules d) = Inr (map rule_of (t_rules (e_db e)))"
    using assms(6) same(1) by (simp add: scan_all_Inr)
  then have "fst (GetAllRules (e_db ?e1)) = Inr (map rule_of (t_rules (e_db e)))"
    using same(2) by (simp add: GetAllRules_def query_up sum_bind_def)
  then obtain r' where pop: "populateDeviceRuleAssociations R iter ?e1 = (True, ?e1\<lparr>e_db := tick d, e_redis := r'\<rparr>)"
    and assoc: "\<And>v. associations (view r') v = wanted (map rule_of (t_rules (e_db e))) v"
    by (rule redis_server.populate_associations [OF assms(1,3)]) auto
  have "Start R C iter e = (True, ?e1\<lparr>e_db := tick d, e_redis := r'\<rparr>)"
    using load \<open>ok\<close> pop by (simp add: Start_def Let_def)
  with sync assoc show ?thesis by (simp add: synced_def associations_def fun_eq_iff)
qed

lemma start_establishes_witness:
  "fst (Start mem_redis mem_cron rev demo_engine)
    \<and> key_members (mem_view (e_redis (snd (Start mem_redis mem_cron rev demo_engine)))) (rules_key ''lamp'') = {''7'', ''12''}"
proof -
  have e: "e_db demo_engine = demo_rules" "e_sched demo_engine = NewScheduler []" by (simp_all add: demo_engine_def)
  have "\<forall>y \<in> set (t_rules demo_rules). rrEnabled y \<noteq> None"
    by (auto simp: demo_rules_def demo_db_def demo_rule_row_def)
  from start_establishes [OF mem.redis_server_axioms mc.cron_service_axioms visit_order_rev, of demo_engine,
      unfolded e, OF demo_rules_ok(2,1) this refl]
  show ?thesis using demo_wanted by (metis map_of.simps(1))
qed

section \<open>The scheduled minute\<close>

text \<open>
  at the minute a time condition is scheduled for, an uncached evaluation finds it true
  exactly when its operator is \<open>==\<close>. A \<open><\<close> or \<open>>\<close> condition is false at its only scheduled
  evaluation, although the schedule exists for it.
\<close>

theorem scheduled_minute:
  assumes "redis_server R view" and "cType f = ''time''" and "time_op (cOp f)" and "cValue f = Some (JStr s)"
    and "parse_15_04 s = Some (h, m)" and "e_now E = \<lparr>Hour = h, Minute = m\<rparr>"
    and "view r (time_key E (cOp f) (cValue f)) = None"
  shows "leaf_value E R r f = (cOp f = ''=='')
    \<and> node_time f = Some \<lparr>tcHour = int h, tcMinute = int m, tcOperator = cOp f\<rparr>"
proof -
  have "rc_get R r (time_key E (cOp f) (cValue f)) = Inl RNil"
    using redis_server.get_missing [OF assms(1,7)] .
  then have "leaf_value E R r f = Compare (TimeV (e_now E)) (cOp f) (JStr s)"
    using assms(2,4) by (simp add: leaf_value_def eval_leaf_def eval_time_def text_or_empty_def Let_def)
  then show ?thesis
    using assms(3-6) node_time_parse [OF assms(4,5)] by (auto simp: time_op_def)
qed

lemma scheduled_minute_witness:
  "\<not> leaf_value (demo_env 18 30) mem_redis demo_server (demo_time\<lparr>cOp := ''>''\<rparr>)"
proof -
  have "mem_view demo_server (time_key (demo_env 18 30) ''>'' (Some (JStr ''18:30''))) = None"
    by (simp add: mem_view_def demo_server_def time_key_def)
  with scheduled_minute [OF mem.redis_server_axioms, of "demo_time\<lparr>cOp := ''>''\<rparr>" "''18:30''" 18 30 "demo_env 18 30" demo_server]
  show ?thesis by (simp add: demo_time_def zero_fields_def time_op_def demo_parse_1830) (simp add: demo_env_def)
qed

end
