(* ===== verification/Web.thy ===== *)
theory Web
  imports WebRules System
begin

text \<open>
  What the HTTP server keeps and what it allows: every request leaves the tables well formed
  and the scheduler backed by them, nothing happens without a valid token, commands go to the
  caller's own devices, and rules are written by their owners only. Two handlers are weaker
  than that: \<open>setowner\<close> hands any device to any caller, and \<open>DELETE\<close> of a rule switches it off
  before it looks at the owner.
\<close>

section \<open>Well-formed tables\<close>

text \<open>The foreign keys on the owner columns.\<close>

definition owners_ok :: "db \<Rightarrow> bool" where
  "owners_ok d \<longleftrightarrow>
     (\<forall>x \<in> set (t_devices d). dev_OwnerID x \<in> insert None (Some ` urID ` set (t_users d)))
     \<and> (\<forall>x \<in> set (t_rules d). rrOwnerID x \<in> insert None (Some ` urID ` set (t_users d)))"

definition tables_ok :: "db \<Rightarrow> bool" where
  "tables_ok d \<longleftrightarrow> db_ok d \<and> users_ok d \<and> owners_ok d"

text \<open>What a handler does to the tables, seen from the schedules: nothing, and it keeps the rest in order.\<close>

definition keeps :: "db \<Rightarrow> db \<Rightarrow> bool" where
  "keeps d d' \<longleftrightarrow> t_schedules d' = t_schedules d \<and> db_int d' = db_int d \<and> (tables_ok d \<longrightarrow> tables_ok d')"

lemma keeps_refl [simp]: "keeps d d"
  by (simp add: keeps_def)

lemma keeps_trans: "keeps d d' \<Longrightarrow> keeps d' d'' \<Longrightarrow> keeps d d''"
  by (simp add: keeps_def)

lemma tables_ok_tick [simp]: "tables_ok (tick d) = tables_ok d"
  by (simp add: tables_ok_def owners_ok_def)

lemma keeps_tick [simp]: "keeps d (tick d)" "keeps (tick d) d' = keeps d d'"
  by (simp_all add: keeps_def)

lemma keeps_exec: "(\<And>d. keeps d (snd (stmt d))) \<Longrightarrow> keeps d (snd (exec stmt d))"
  by (simp add: exec_def split: outcome.split) (metis keeps_tick(2))

lemma keeps_exec_int: "(\<And>i d. keeps d (snd (stmt i d))) \<Longrightarrow> keeps d (snd (exec_int x stmt d))"
  by (simp add: exec_int_def split: option.split)

lemma keeps_devices:
  assumes "tables_ok d \<Longrightarrow> distinct (map dev_ID devs)"
    and "tables_ok d \<Longrightarrow> \<forall>x \<in> set devs. dev_OwnerID x \<in> insert None (Some ` urID ` set (t_users d))"
  shows "keeps d (d\<lparr>t_devices := devs\<rparr>)"
  using assms by (simp add: keeps_def tables_ok_def db_ok_def users_ok_def owners_ok_def)

lemma tables_ok_devices:
  "tables_ok d \<Longrightarrow> distinct (map dev_ID (t_devices d))"
  "tables_ok d \<Longrightarrow> x \<in> set (t_devices d) \<Longrightarrow> dev_OwnerID x \<in> insert None (Some ` urID ` set (t_users d))"
  by (simp_all add: tables_ok_def db_ok_def owners_ok_def)

lemma keeps_update_device:
  assumes "\<And>x. dev_ID (f x) = dev_ID x"
    and "\<And>x. x \<in> set (matching i d) \<Longrightarrow> dev_OwnerID (f x) \<in> insert (dev_OwnerID x) (Some ` urID ` set (t_users d))"
  shows "keeps d (snd (update_device i f d))"
  unfolding update_device_def snd_conv
proof (rule keeps_devices)
  assume ok: "tables_ok d"
  show "distinct (map dev_ID (map_rows (\<lambda>x. dev_ID x = i) f (t_devices d)))"
    using tables_ok_devices(1) [OF ok] assms(1) by (simp add: map_rows_map)
  show "\<forall>x \<in> set (map_rows (\<lambda>x. dev_ID x = i) f (t_devices d)).
      dev_OwnerID x \<in> insert None (Some ` urID ` set (t_users d))"
    using tables_ok_devices(2) [OF ok] assms(2) by (fastforce simp: map_rows_def matching_def)
qed

lemma keeps_update_owner:
  assumes "\<And>owner x. dev_ID (f owner x) = dev_ID x" and "\<And>owner x. dev_OwnerID (f owner x) = Some owner"
  shows "keeps d (snd (update_owner uid i f d))"
  unfolding update_owner_def
proof (intro keeps_exec keeps_exec_int)
  fix owner d
  show "keeps d (snd (if matching i d \<noteq> [] \<and> owner \<notin> urID ` set (t_users d) then (Inl PgError, d)
      else update_device i (f owner) d))"
    using keeps_update_device [of "f owner" i d] assms by (cases "matching i d") auto
qed

lemma keeps_delete_device: "keeps d (snd (delete_device i d))"
  unfolding delete_device_def
  by (intro keeps_exec) (auto intro!: keeps_devices dest: tables_ok_devices simp: distinct_map_filter)

lemma snd_select_device [simp]: "snd (select_device i d) = tick d"
  by (simp add: select_device_def)

lemma keeps_insert_user: "keeps d (snd (insert_user u p m d))"
  unfolding insert_user_def
proof (intro keeps_exec)
  fix d :: db
  let ?u = "\<lparr>urID = show_nat (users_seq d), urUsername = u, urPassword = p, urEmail = m\<rparr>"
  have "users_ok d \<Longrightarrow> users_ok (d\<lparr>users_seq := Suc (users_seq d)\<rparr>)"
    by (auto simp: users_ok_def intro: less_SucI)
  then show "keeps d (snd (if users_seq d > 2147483647 then (Inl PgError, d)
       else let i = show_nat (users_seq d); d' = d\<lparr>users_seq := Suc (users_seq d)\<rparr>
         in if i \<in> urID ` set (t_users d) then (Inl PgError, d')
            else (Inr (int (users_seq d)), d'\<lparr>t_users := t_users d @ [\<lparr>urID = i, urUsername = u, urPassword = p, urEmail = m\<rparr>]\<rparr>)))"
    using users_ok_insert(1) [of d ?u]
    by (auto simp: keeps_def tables_ok_def db_ok_def owners_ok_def Let_def)
qed

lemma keeps_createUser: "keeps d (snd (createUser K dr u p m d))"
proof -
  have "snd (username_taken u d) = tick d" by (simp add: username_taken_def)
  then show ?thesis
    using keeps_insert_user [of "tick d"]
    by (auto simp: createUser_def prod_eq_iff split: sum.split prod.split option.split)
qed

lemma keeps_authenticateUser: "snd (authenticateUser K u p d) = tick d"
  by (auto simp: authenticateUser_def split: prod.splits sum.splits dest: arg_cong [where f = snd])

section \<open>Handlers on the tables\<close>

named_theorems handler_keeps \<open>handlers keep the tables in order\<close>

lemma keeps_reads [handler_keeps]:
  "keeps d (snd (list_devices uid d))" "keeps d (snd (list_pending d))" "keeps d (snd (get_me uid d))"
  "keeps d (snd (list_rules uid d))"
  by (auto simp: list_devices_def list_pending_def get_me_def list_rules_def
      split: prod.split sum.split dest!: arg_cong [where f = snd])

lemma keeps_owner_writes [handler_keeps]:
  "keeps d (snd (accept_device uid i d))" "keeps d (snd (set_owner uid i d))"
  using keeps_update_owner [of "\<lambda>owner x. x\<lparr>dev_Accepted := True, dev_OwnerID := Some owner\<rparr>" d uid i]
    keeps_update_owner [of "\<lambda>owner x. x\<lparr>dev_OwnerID := Some owner\<rparr>" d uid i]
  by (auto simp: accept_device_def set_owner_def split: prod.split sum.split)

lemma select_deviceE:
  obtains (missing) x where "select_device i d = (Inl x, tick d)"
    | (found) dev where "select_device i d = (Inr dev, tick d)" and "dev \<in> set (matching i d)"
proof (cases "fst (select_device i d)")
  case (Inl x)
  then show thesis by (intro missing [of x]) (simp add: prod_eq_iff)
next
  case (Inr dev)
  then show thesis
    using query_row_Inr [OF Inr [unfolded select_device_def]]
    by (intro found [of dev]) (simp_all add: prod_eq_iff)
qed

lemma keeps_command [handler_keeps]: "keeps d (snd (command_device W uid i body d))"
  by (cases rule: select_deviceE [of i d]) (simp_all add: command_device_def Let_def split: option.split)

lemma keeps_rename [handler_keeps]: "keeps d (snd (rename_device uid i body d))"
proof -
  have "keeps d (snd (exec (update_device i (\<lambda>x. x\<lparr>dev_Name := n\<rparr>)) (tick d)))" for n
    using keeps_exec [of "update_device i (\<lambda>x. x\<lparr>dev_Name := n\<rparr>)" "tick d"] keeps_update_device by simp
  then show ?thesis
    by (cases rule: select_deviceE [of i d])
      (auto simp: rename_device_def case_prod_unfold split: option.split sum.split)
qed

lemma keeps_remove [handler_keeps]: "keeps d (snd (remove_device uid i d))"
  using keeps_delete_device [of "tick d" i]
  by (cases rule: select_deviceE [of i d])
    (auto simp: remove_device_def split: prod.split sum.split)

lemma keeps_accounts [handler_keeps]:
  "keeps d (snd (post_login W dr body d))" "keeps d (snd (post_register W dr body d))"
proof -
  have "keeps d (snd (LoginWithJWT K key dr u p d))" for K key u p
    using keeps_authenticateUser [of K u p d]
    by (auto simp: LoginWithJWT_def split: prod.split sum.split)
  then show "keeps d (snd (post_login W dr body d))"
    by (simp add: post_login_def split: option.split prod.split sum.split) (metis snd_conv)
  have "keeps d (snd (RegisterWithJWT K key dr u p m d))" for K key u p m
    using keeps_createUser [of d K dr u p m]
    by (auto simp: RegisterWithJWT_def split: prod.split sum.split)
  then show "keeps d (snd (post_register W dr body d))"
    by (simp add: post_register_def split: option.split prod.split sum.split) (metis snd_conv)
qed

section \<open>Rules\<close>

lemma keeps_rules:
  assumes "tables_ok d \<Longrightarrow> distinct (map rrID rows)"
    and "tables_ok d \<Longrightarrow> sRuleID ` set (t_schedules d) \<subseteq> rrID ` set rows"
    and "tables_ok d \<Longrightarrow> \<forall>x \<in> set rows. db_int d (rrID x) = Some (rrID x)"
    and "tables_ok d \<Longrightarrow> \<forall>x \<in> set rows. rrOwnerID x \<in> insert None (Some ` urID ` set (t_users d))"
  shows "keeps d (d\<lparr>t_rules := rows\<rparr>)"
  using assms by (auto simp: keeps_def tables_ok_def db_ok_def users_ok_def owners_ok_def)

lemma tables_ok_rules:
  assumes "tables_ok d"
  shows "distinct (map rrID (t_rules d))" "sRuleID ` set (t_schedules d) \<subseteq> rrID ` set (t_rules d)"
    "\<forall>x \<in> set (t_rules d). db_int d (rrID x) = Some (rrID x)"
    "\<forall>x \<in> set (t_rules d). rrOwnerID x \<in> insert None (Some ` urID ` set (t_users d))"
    "n \<le> 2147483647 \<Longrightarrow> db_int d (show_nat n) = Some (show_nat n)"
  using assms by (simp_all add: tables_ok_def db_ok_def owners_ok_def)

lemma keeps_rules_seq [simp]: "keeps d (d\<lparr>rules_seq := n\<rparr>)" "keeps (d\<lparr>rules_seq := n\<rparr>) d' = keeps d d'"
  by (simp_all add: keeps_def tables_ok_def db_ok_def users_ok_def owners_ok_def)

lemma keeps_append_rule:
  assumes "n \<le> 2147483647" and "rrID x = show_nat n" and "rrID x \<notin> rrID ` set (t_rules d)"
    and "rrOwnerID x = Some owner" and "owner \<in> urID ` set (t_users d)"
  shows "keeps d (d\<lparr>t_rules := t_rules d @ [x]\<rparr>)"
proof (rule keeps_rules)
  assume ok: "tables_ok d"
  note rows = tables_ok_rules [OF ok]
  show "distinct (map rrID (t_rules d @ [x]))" using rows(1) assms(3) by simp
  show "sRuleID ` set (t_schedules d) \<subseteq> rrID ` set (t_rules d @ [x])" using rows(2) by auto
  show "\<forall>y \<in> set (t_rules d @ [x]). db_int d (rrID y) = Some (rrID y)"
    using rows(3) rows(5) [OF assms(1)] assms(2) by simp
  show "\<forall>y \<in> set (t_rules d @ [x]). rrOwnerID y \<in> insert None (Some ` urID ` set (t_users d))"
    using rows(4) assms(4,5) by auto
qed

lemma keeps_insert_rule: "keeps d (snd (insert_rule W uid req d))"
  unfolding insert_rule_def
proof (intro keeps_exec keeps_exec_int)
  fix owner and d :: db
  let ?i = "show_nat (rules_seq d)"
  have "keeps d (d\<lparr>rules_seq := Suc (rules_seq d), t_rules := t_rules d @
      [\<lparr>rrID = ?i, rrName = arName req, rrConditions = c, rrActions = a,
        rrEnabled = Some (arEnabled req), rrOwnerID = Some owner\<rparr>]\<rparr>)"
    if "?i \<notin> rrID ` set (t_rules d)" "owner \<in> urID ` set (t_users d)" "\<not> rules_seq d > 2147483647" for c a
    using keeps_append_rule [of "rules_seq d" _ "d\<lparr>rules_seq := Suc (rules_seq d)\<rparr>" owner] that by simp
  then show "keeps d (snd (case (jsonb_param W (arConditions req), jsonb_param W (arActions req)) of
         (Some conditions, Some actions) \<Rightarrow>
           if rules_seq d > 2147483647 then (Inl PgError, d)
           else
             let i = show_nat (rules_seq d); d' = d\<lparr>rules_seq := Suc (rules_seq d)\<rparr> in
             (case (conditions, actions) of
                (Some c, Some a) \<Rightarrow>
                  if i \<in> rrID ` set (t_rules d) \<or> owner \<notin> urID ` set (t_users d) then (Inl PgError, d')
                  else (Inr (), d'\<lparr>t_rules := t_rules d @
                         [\<lparr>rrID = i, rrName = arName req, rrConditions = c, rrActions = a,
                           rrEnabled = Some (arEnabled req), rrOwnerID = Some owner\<rparr>]\<rparr>)
              | _ \<Rightarrow> (Inl PgError, d'))
       | _ \<Rightarrow> (Inl PgError, d)))"
    by (auto simp: Let_def split: option.split)
qed

lemma keeps_delete_rule: "keeps d (snd (delete_rule i uid d))"
  unfolding delete_rule_def
proof (intro keeps_exec keeps_exec_int)
  fix i owner and d :: db
  let ?gone = "\<lambda>x. rrID x = i \<and> rrOwnerID x = Some owner"
  have "keeps d (d\<lparr>t_rules := filter (\<lambda>x. \<not> ?gone x) (t_rules d)\<rparr>)"
    if "(\<exists>x \<in> set (t_rules d). ?gone x) \<longrightarrow> i \<notin> sRuleID ` set (t_schedules d)"
  proof (rule keeps_rules)
    assume ok: "tables_ok d"
    note rows = tables_ok_rules [OF ok]
    show "distinct (map rrID (filter (\<lambda>x. \<not> ?gone x) (t_rules d)))"
      using rows(1) by (rule distinct_map_filter)
    show "sRuleID ` set (t_schedules d) \<subseteq> rrID ` set (filter (\<lambda>x. \<not> ?gone x) (t_rules d))"
    proof (rule image_subsetI)
      fix s assume s: "s \<in> set (t_schedules d)"
      with rows(2) obtain x where x: "x \<in> set (t_rules d)" "rrID x = sRuleID s" by force
      have "\<not> ?gone x" using that s x by (metis imageI)
      with x show "sRuleID s \<in> rrID ` set (filter (\<lambda>x. \<not> ?gone x) (t_rules d))"
        by (intro image_eqI [of _ _ x]) simp_all
    qed
    show "\<forall>x \<in> set (filter (\<lambda>x. \<not> ?gone x) (t_rules d)). db_int d (rrID x) = Some (rrID x)"
      and "\<forall>x \<in> set (filter (\<lambda>x. \<not> ?gone x) (t_rules d)). rrOwnerID x \<in> insert None (Some ` urID ` set (t_users d))"
      using rows(3,4) by simp_all
  qed
  then show "keeps d (snd (let gone = ?gone in
       if (\<exists>x \<in> set (t_rules d). gone x)
          \<and> (i \<in> sRuleID ` set (t_schedules d) \<or> Some i \<in> hrRuleID ` set (t_history d))
       then (Inl PgError, d)
       else (Inr (), d\<lparr>t_rules := filter (\<lambda>x. \<not> gone x) (t_rules d)\<rparr>)))"
    by (simp add: Let_def)
qed

lemma keeps_update_rule: "keeps d (snd (update_rule W x d))"
  unfolding update_rule_def
proof (intro keeps_exec keeps_exec_int)
  fix i owner and d :: db
  let ?f = "\<lambda>c a y. y\<lparr>rrName := rName x, rrConditions := c, rrActions := a, rrEnabled := Some (rEnabled x)\<rparr>"
  have "keeps d (d\<lparr>t_rules := map_rows p (?f c a) (t_rules d)\<rparr>)" for c a p
  proof (rule keeps_rules)
    assume ok: "tables_ok d"
    note rows = tables_ok_rules [OF ok]
    have ids: "map rrID (map_rows p (?f c a) (t_rules d)) = map rrID (t_rules d)" by (simp add: map_rows_map)
    with rows(1) show "distinct (map rrID (map_rows p (?f c a) (t_rules d)))" by simp
    from ids have "rrID ` set (map_rows p (?f c a) (t_rules d)) = rrID ` set (t_rules d)" by (metis list.set_map)
    with rows(2) show "sRuleID ` set (t_schedules d) \<subseteq> rrID ` set (map_rows p (?f c a) (t_rules d))" by simp
    show "\<forall>x \<in> set (map_rows p (?f c a) (t_rules d)). db_int d (rrID x) = Some (rrID x)"
      and "\<forall>x \<in> set (map_rows p (?f c a) (t_rules d)). rrOwnerID x \<in> insert None (Some ` urID ` set (t_users d))"
      using rows(3,4) by (auto simp: map_rows_def)
  qed
  then show "keeps d (snd (case (jsonb_param W (rConditions x), jsonb_param W (rActions x)) of
         (Some (Some c), Some (Some a)) \<Rightarrow>
           (Inr (), d\<lparr>t_rules := map_rows (\<lambda>y. rrID y = i \<and> rrOwnerID y = Some owner)
              (?f c a) (t_rules d)\<rparr>)
       | _ \<Rightarrow> (Inl PgError, d)))"
    by (auto split: option.split)
qed

section \<open>The engine behind the handlers\<close>

definition engine_ok :: "('c \<Rightarrow> cron_view) \<Rightarrow> (string \<Rightarrow> bool) \<Rightarrow> ('r, 'c) engine \<Rightarrow> bool" where
  "engine_ok entries valid e \<longleftrightarrow> backed entries valid (e_sched e, e_db e) \<and> tables_ok (e_db e)"

lemma engine_ok_keeps:
  assumes "engine_ok entries valid e" and "keeps (e_db e) d"
  shows "engine_ok entries valid (e\<lparr>e_db := d\<rparr>)"
  using assms by (simp add: engine_ok_def backed_def agree_def keeps_def tables_ok_def)

lemma engine_ok_queue [simp]: "engine_ok entries valid (e\<lparr>e_queue := q\<rparr>) = engine_ok entries valid e"
  by (simp add: engine_ok_def)

lemma engine_ok_redis [simp]: "engine_ok entries valid (e\<lparr>e_redis := r\<rparr>) = engine_ok entries valid e"
  by (simp add: engine_ok_def)

lemma tables_ok_schedules:
  "tables_ok d \<Longrightarrow> schedules_only d d' \<Longrightarrow> db_ok d' \<Longrightarrow> tables_ok d'"
  by (simp add: tables_ok_def schedules_only_def users_ok_def owners_ok_def)

lemma engine_ok_schedules:
  assumes "engine_ok entries valid e"
    and "agree (\<subseteq>\<^sub>m) entries valid (f (e_sched e, e_db e)) \<and> schedules_only (e_db e) (snd (f (e_sched e, e_db e)))"
  shows "engine_ok entries valid (on_schedules f e) \<and> schedules_only (e_db e) (e_db (on_schedules f e))"
proof -
  obtain s d where "f (e_sched e, e_db e) = (s, d)" by (cases "f (e_sched e, e_db e)")
  with assms tables_ok_schedules [of "e_db e" d] show ?thesis
    by (simp add: engine_ok_def backed_def on_schedules_def agree_def)
qed

text \<open>What the web server makes the engine do: both are kept, and of the tables only schedules change.\<close>

lemma refresh_engine:
  fixes e :: "('r, 'c) engine"
  assumes "cron_service C entries valid" and ok: "engine_ok entries valid e" and i: "db_int (e_db e) i = Some i"
  shows "engine_ok entries valid (snd (RefreshRuleAssociations R C iter i e))
    \<and> schedules_only (e_db e) (e_db (snd (RefreshRuleAssociations R C iter i e)))"
proof -
  have sched: "engine_ok entries valid (on_schedules (refreshSchedulesForRule C i) e1)
      \<and> schedules_only (e_db e1) (e_db (on_schedules (refreshSchedulesForRule C i) e1))"
    if "engine_ok entries valid e1" "db_int (e_db e1) i = Some i" for e1 :: "('r, 'c) engine"
    using cron_service.agree_refresh [OF assms(1) keeps_updates_map_le, of "e_sched e1" "e_db e1" i] that
    by (intro engine_ok_schedules) (simp_all add: engine_ok_def backed_def)
  obtain res where get: "GetRuleByID i (e_db e) = (res, tick (e_db e))" by (metis prod.collapse read_only(1))
  have tick: "engine_ok entries valid (e\<lparr>e_db := tick (e_db e)\<rparr>)"
    using engine_ok_keeps [OF ok] by simp
  have redis: "engine_ok entries valid (e\<lparr>e_db := tick (e_db e), e_redis := r\<rparr>)" for r
    using tick engine_ok_redis by metis
  from sched [OF redis] i have "engine_ok entries valid (on_schedules (refreshSchedulesForRule C i) (e\<lparr>e_db := tick (e_db e), e_redis := r\<rparr>))
      \<and> schedules_only (e_db e) (e_db (on_schedules (refreshSchedulesForRule C i) (e\<lparr>e_db := tick (e_db e), e_redis := r\<rparr>)))" for r
    by (auto intro: schedules_only_trans [OF schedules_only_tick])
  then show ?thesis
    using get tick redis by (simp add: RefreshRuleAssociations_def Let_def split: sum.split option.split)
qed

lemma remove_engine:
  fixes e :: "('r, 'c) engine"
  assumes "cron_service C entries valid" and ok: "engine_ok entries valid e"
  shows "engine_ok entries valid (snd (RemoveRuleAssociations R C i e))
    \<and> schedules_only (e_db e) (e_db (snd (RemoveRuleAssociations R C i e)))"
proof -
  have "engine_ok entries valid (on_schedules (removeSchedulesForRule C i) e1)
      \<and> schedules_only (e_db e1) (e_db (on_schedules (removeSchedulesForRule C i) e1))"
    if "engine_ok entries valid e1" for e1 :: "('r, 'c) engine"
    using cron_service.agree_remove_rule [OF assms(1) keeps_updates_map_le, where s = "e_sched e1" and d = "e_db e1" and i = i] that
    by (intro engine_ok_schedules)
      (auto simp: engine_ok_def backed_def map_le_def)
  from this [of "e\<lparr>e_redis := r\<rparr>" for r] ok show ?thesis by (simp add: RemoveRuleAssociations_def split: sum.split)
qed

lemma notify_ok:
  assumes "cron_service C entries valid" and "engine_ok entries valid e" and "db_int (e_db e) (rID x) = Some (rID x)"
  shows "engine_ok entries valid (notify_engine R C iter x e)
    \<and> schedules_only (e_db e) (e_db (notify_engine R C iter x e))"
  using refresh_engine [OF assms, of R iter] by (auto simp: notify_engine_def split: prod.split)

lemma newest_mem: "newest xs = Some x \<Longrightarrow> x \<in> set xs"
  by (induction xs arbitrary: x) (auto split: option.splits if_splits)

lemma scan_owned_id: "scan_owned_rule x = Inr y \<Longrightarrow> rID y = rrID x"
  by (auto simp: scan_owned_rule_def split: option.splits)

lemma sum_bind_Inr: "sum_bind x f = Inr y \<longleftrightarrow> (\<exists>a. x = Inr a \<and> f a = Inr y)"
  by (simp add: sum_bind_def split: sum.split)

lemma selected_rule:
  "select_newest name uid d = (Inr x, d1) \<Longrightarrow> d1 = tick d \<and> (\<exists>row \<in> set (t_rules d). rID x = rrID row)"
  "select_owned i uid d = (Inr x, d1) \<Longrightarrow> d1 = tick d \<and> (\<exists>row \<in> set (t_rules d). rID x = rrID row)"
proof -
  assume sel: "select_newest name uid d = (Inr x, d1)"
  then show "d1 = tick d \<and> (\<exists>row \<in> set (t_rules d). rID x = rrID row)"
    by (auto simp: select_newest_def sum_bind_Inr prod_eq_iff where_int_def dest!: query_row_Inr scan_owned_id newest_mem
        split: prod.splits option.splits) blast
next
  assume sel: "select_owned i uid d = (Inr x, d1)"
  then show "d1 = tick d \<and> (\<exists>row \<in> set (t_rules d). rID x = rrID row)"
    by (auto simp: select_owned_def sum_bind_Inr prod_eq_iff dest!: query_row_Inr scan_owned_id
        split: prod.splits option.splits) blast
qed

lemma on_db_ok:
  "engine_ok entries valid e \<Longrightarrow> keeps (e_db e) (snd (h (e_db e))) \<Longrightarrow> engine_ok entries valid (snd (on_db h e))"
  by (auto simp: on_db_def engine_ok_keeps split: prod.split)

lemma rule_id_read:
  assumes "engine_ok entries valid e" and "row \<in> set (t_rules (e_db e))"
  shows "db_int (e_db e) (rrID row) = Some (rrID row)"
  using assms tables_ok_rules(3) by (auto simp: engine_ok_def)

lemma post_rule_ok:
  assumes C: "cron_service C entries valid" and ok: "engine_ok entries valid e"
  shows "engine_ok entries valid (snd (post_rule W R C iter uid body e))"
proof -
  have sel: "engine_ok entries valid (notify_engine R C iter x (e\<lparr>e_db := d2\<rparr>))"
    if "select_newest name uid d1 = (Inr x, d2)" and d1: "keeps (e_db e) d1" for name d1 x d2
  proof -
    from selected_rule(1) [OF that(1)] obtain row where row: "d2 = tick d1" "row \<in> set (t_rules d1)" "rID x = rrID row"
      by blast
    have e2: "engine_ok entries valid (e\<lparr>e_db := d2\<rparr>)" using ok d1 row(1) by (intro engine_ok_keeps) (auto simp: keeps_def)
    then show ?thesis using rule_id_read [OF e2, of row] row by (intro notify_ok [OF C, THEN conjunct1]) simp_all
  qed
  have other: "engine_ok entries valid (e\<lparr>e_db := tick d1\<rparr>)" if "keeps (e_db e) d1" for d1
    using engine_ok_keeps [OF ok, of "tick d1"] that by (simp add: keeps_def)
  have snd_sel: "snd (select_newest name uid d1) = tick d1" for name d1
    by (simp add: select_newest_def case_prod_unfold)
  show ?thesis
  proof (cases "bind_json dec_add_field \<lparr>arName = '''', arConditions = None, arActions = None, arEnabled = False\<rparr> body")
    case (Some req)
    obtain res d1 where ins: "insert_rule W uid req (e_db e) = (res, d1)" by fastforce
    with keeps_insert_rule [of "e_db e" W uid req] have d1: "keeps (e_db e) d1" by simp
    obtain sel2 where "select_newest (arName req) uid d1 = (sel2, tick d1)" using snd_sel by (metis prod.collapse)
    note s = this
    show ?thesis
    proof (cases res)
      case (Inl y)
      with Some ins engine_ok_keeps [OF ok d1] show ?thesis by (simp add: post_rule_def)
    next
      case (Inr u)
      note r = this
      show ?thesis
      proof (cases sel2)
        case (Inl y)
        with Some ins r s other [OF d1] show ?thesis by (simp add: post_rule_def)
      next
        case (Inr created)
        with s have "select_newest (arName req) uid d1 = (Inr created, tick d1)" by simp
        from sel [OF this d1] Some ins r s Inr show ?thesis by (simp add: post_rule_def)
      qed
    qed
  qed (simp add: post_rule_def ok)
qed

lemma delete_rule_ok:
  assumes C: "cron_service C entries valid" and ok: "engine_ok entries valid e"
  shows "engine_ok entries valid (snd (delete_rule_route R C uid i e))"
proof -
  obtain res e1 where rem: "RemoveRuleAssociations R C i e = (res, e1)" by fastforce
  with remove_engine [OF C ok, of R i] have "engine_ok entries valid e1" by simp
  from engine_ok_keeps [OF this keeps_delete_rule [of _ i uid]] rem show ?thesis
    by (auto simp: delete_rule_route_def split: prod.split sum.split)
qed

lemma patch_rule_ok:
  assumes C: "cron_service C entries valid" and ok: "engine_ok entries valid e"
  shows "engine_ok entries valid (snd (patch_rule W R C iter uid i body e))"
proof (cases "bind_json dec_update_field \<lparr>urrName = None, urrConditions = None, urrActions = None, urrEnabled = None\<rparr> body")
  case (Some req)
  have snd_sel: "snd (select_owned i uid d1) = tick d1" for d1
    by (simp add: select_owned_def case_prod_unfold)
  then obtain sel where sel: "select_owned i uid (e_db e) = (sel, tick (e_db e))" by (metis prod.collapse)
  show ?thesis
  proof (cases sel)
    case (Inl y)
    then show ?thesis using Some sel engine_ok_keeps [OF ok, of "tick (e_db e)"] by (simp add: patch_rule_def)
  next
    case (Inr x)
    let ?x = "merge_rule req x"
    from selected_rule(2) [of i uid "e_db e" x] sel Inr obtain row where
      row: "row \<in> set (t_rules (e_db e))" "rID x = rrID row" by blast
    obtain res d2 where upd: "update_rule W ?x (tick (e_db e)) = (res, d2)" by fastforce
    with keeps_update_rule [of "tick (e_db e)" W ?x] have d2: "keeps (e_db e) d2" by simp
    have "engine_ok entries valid (e\<lparr>e_db := d2\<rparr>)" by (rule engine_ok_keeps [OF ok d2])
    moreover have "db_int d2 (rID ?x) = Some (rID ?x)"
      using rule_id_read [OF ok row(1)] row(2) d2 by (simp add: merge_rule_def keeps_def)
    ultimately have "engine_ok entries valid (notify_engine R C iter ?x (e\<lparr>e_db := d2\<rparr>))"
      and fail: "engine_ok entries valid (e\<lparr>e_db := d2\<rparr>)"
      by (simp_all add: notify_ok [OF C])
    then show ?thesis
      using Some sel Inr upd by (cases res) (simp_all add: patch_rule_def Let_def)
  qed
qed (simp add: patch_rule_def ok)

lemma command_ok:
  assumes "engine_ok entries valid e" and "command_device W uid i body (e_db e) = (out, d)"
  shows "engine_ok entries valid (e\<lparr>e_db := d\<rparr>)"
  using assms(1) keeps_command [of "e_db e" W uid i body] by (intro engine_ok_keeps) (simp_all add: assms(2))

lemma handle_ok:
  assumes "cron_service C entries valid" and "engine_ok entries valid e"
  shows "engine_ok entries valid (snd (handle W R C iter req uid e))"
  using assms
  by (cases req)
    (auto intro!: on_db_ok handler_keeps simp: quiet_def post_rule_ok delete_rule_ok patch_rule_ok
      split: prod.split dest: command_ok)

text \<open>
  every request, whoever sends it and whatever the database answers, statement by statement,
  leaves the tables well formed (keys, foreign keys, ids) and the scheduler running nothing but
  live schedules of the table.
\<close>

theorem requests_keep_engine:
  assumes "cron_service C entries valid" and "engine_ok entries valid e"
  shows "engine_ok entries valid (snd (serve W R C iter dr authorization req e))"
proof -
  have "engine_ok entries valid (snd (RequireAuth W now authorization (handle W R C iter req) e))" for now
    using handle_ok [OF assms] assms(2) by (simp add: RequireAuth_def split: sum.split)
  then show ?thesis
    using assms(2) by (cases req) (auto simp: serve_def intro!: on_db_ok handler_keeps)
qed

definition web_db :: db where
  "web_db = demo_rules\<lparr>t_devices := [demo_lamp True], users_seq := 3,
     t_users := [demo_user ''1'' ''ann'' ''0$pw'', demo_user ''2'' ''bob'' ''0$x'']\<rparr>"

definition web_engine :: "(mem, mem_entries) engine" where
  "web_engine = demo_engine\<lparr>e_db := web_db\<rparr>"

definition demo_web :: web_env where
  "demo_web = \<lparr>w_auth = toy_auth, w_secret = ''key'', w_agent = ''agent'', w_client = True,
     w_confirmed = (\<lambda>_. True), w_text = (\<lambda>_. ''error''), w_jsonb = Some\<rparr>"

lemma web_db_fields [simp]:
  "t_rules web_db = t_rules demo_rules" "t_schedules web_db = []" "db_int web_db = pg_int" "db_up web_db"
  "t_devices web_db = [demo_lamp True]" "rules_seq web_db = 100" "t_history web_db = []"
  "t_users web_db = [demo_user ''1'' ''ann'' ''0$pw'', demo_user ''2'' ''bob'' ''0$x'']"
  by (simp_all add: web_db_def demo_rules_def demo_db_def db_up_def)

lemma web_engine_fields [simp]:
  "e_db web_engine = web_db" "e_sched web_engine = NewScheduler []" "e_redis web_engine = demo_server"
  "e_queue web_engine = demo_queue"
  by (simp_all add: web_engine_def demo_engine_def)

lemma web_tables_ok: "tables_ok web_db"
proof -
  have "db_ok web_db" using demo_rules_ok(1) by (simp add: db_ok_def web_db_def)
  moreover have "users_ok web_db"
    using demo_two_users(1) [where d = "demo_rules\<lparr>t_devices := [demo_lamp True]\<rparr>"] by (simp add: web_db_def users_ok_def)
  moreover have "owners_ok web_db"
    by (simp add: owners_ok_def) (simp add: demo_lamp_def demo_user_def demo_rules_def demo_db_def demo_rule_row_def)
  ultimately show ?thesis by (simp add: tables_ok_def)
qed

lemma web_engine_ok: "engine_ok map_of mem_valid web_engine"
proof -
  have "sched_view map_of (NewScheduler []) = Map.empty"
    by (simp add: sched_view_def jobs_view_def NewScheduler_def fun_eq_iff)
  with web_tables_ok demo_scheduler_ok show ?thesis
    by (simp add: engine_ok_def backed_def agree_def tables_ok_def)
qed

lemma requests_keep_engine_witness:
  "engine_ok map_of mem_valid
     (snd (serve demo_web mem_redis mem_cron rev demo_draws (toy_token ''key'' 1 5000 0) (RemoveRule ''7'') web_engine))"
  by (rule requests_keep_engine [OF mc.cron_service_axioms web_engine_ok])

section \<open>Who may do what\<close>

fun open_to_all :: "request \<Rightarrow> bool" where
  "open_to_all (Login _) = True"
| "open_to_all (Register _) = True"
| "open_to_all _ = False"

lemma serve_authorized:
  "\<not> open_to_all req \<Longrightarrow>
     serve W R C iter dr authorization req e = RequireAuth W (dr_now dr) authorization (handle W R C iter req) e"
  by (cases req) (simp_all add: serve_def)

lemma open_requests_quiet: "open_to_all req \<Longrightarrow> snd (fst (serve W R C iter dr authorization req e)) = []"
  by (cases req) (simp_all add: serve_def on_db_def split: prod.split)

text \<open>
  C32: without a token that validates, a request other than logging in or registering is answered 401
  and has no effect at all: no publish, and tables, Redis, scheduler and queue are as they were.
\<close>

theorem unauthorized_refused:
  assumes "ValidateTokenJWT (w_auth W) (w_secret W) (dr_now dr) authorization = Inl x" and "\<not> open_to_all req"
  shows "serve W R C iter dr authorization req e
    = ((\<lparr>rs_status = 401, rs_body = JObj [(''error'', JStr ''Unauthorized'')]\<rparr>, []), e)"
  using assms by (simp add: serve_authorized RequireAuth_def gin_error_def respond_def)

lemma unauthorized_refused_witness:
  "serve demo_web mem_redis mem_cron rev demo_draws ''nonsense'' (RemoveRule ''7'') web_engine
     = ((\<lparr>rs_status = 401, rs_body = JObj [(''error'', JStr ''Unauthorized'')]\<rparr>, []), web_engine)"
proof -
  have "ValidateTokenJWT (w_auth demo_web) (w_secret demo_web) (dr_now demo_draws) ''nonsense'' = Inl AuthJwt"
    by (simp add: ValidateTokenJWT_def demo_web_def toy_auth_def toy_parse_def)
  then show ?thesis by (rule unauthorized_refused) simp
qed

lemma web_publishes:
  assumes "p \<in> set (snd (fst (serve W R C iter dr authorization req e)))"
  shows "\<exists>uid i body dev ps. req = Command i body
    \<and> ValidateTokenJWT (w_auth W) (w_secret W) (dr_now dr) authorization = Inr uid
    \<and> dev \<in> set (t_devices (e_db e)) \<and> dev_ID dev = i \<and> dev_Accepted dev \<and> dev_OwnerID dev = Some uid
    \<and> unmarshal_map body = Some ps \<and> p = command i (marshal_map ps)"
proof -
  have closed: "\<not> open_to_all req" using assms open_requests_quiet [of req W R C iter dr authorization e] by auto
  with assms obtain uid where uid: "ValidateTokenJWT (w_auth W) (w_secret W) (dr_now dr) authorization = Inr uid"
    and p: "p \<in> set (snd (fst (handle W R C iter req uid e)))"
    by (auto simp: serve_authorized RequireAuth_def split: sum.splits)
  from p obtain i body where req: "req = Command i body"
    by (cases req) (auto simp: on_db_def quiet_def split: prod.splits)
  from p req have "p \<in> set (snd (fst (command_device W uid i body (e_db e))))"
    by (auto split: prod.splits)
  then obtain dev ps where "dev \<in> set (matching i (e_db e))" "dev_Accepted dev" "dev_OwnerID dev = Some uid"
    "unmarshal_map body = Some ps" "p = command i (marshal_map ps)"
    by (cases rule: select_deviceE [of i "e_db e"])
      (auto simp: command_device_def Let_def split: if_splits option.splits)
  with uid req show ?thesis by (auto simp: matching_def)
qed

text \<open>
  the only publishes of the web server are commands, and each goes to the device named in the
  path, which is accepted and belongs to the user of a valid token, with the parameters of the
  body.
\<close>

theorem commands_authorized:
  assumes "p \<in> set (snd (fst (serve W R C iter dr authorization req e)))"
  shows "\<exists>uid i body dev ps. req = Command i body
    \<and> ValidateTokenJWT (w_auth W) (w_secret W) (dr_now dr) authorization = Inr uid
    \<and> dev \<in> set (t_devices (e_db e)) \<and> dev_ID dev = i \<and> dev_Accepted dev \<and> dev_OwnerID dev = Some uid
    \<and> unmarshal_map body = Some ps \<and> p = command i (marshal_map ps)"
  by (rule web_publishes [OF assms])

lemma token_of_user: "n < 2 ^ 63 \<Longrightarrow> now < e \<Longrightarrow>
    ValidateTokenJWT toy_auth key now (toy_token key n e i) = Inr (show_nat n)"
  using toy.signed_token [of key "int n" e i "toy_token key n e i" now] toy_sign_jwt [of key n e i]
  by (simp add: toy_auth_def)

text \<open>A device of user 1, for the examples.\<close>

definition own_engine :: "(mem, mem_entries) engine" where
  "own_engine = web_engine\<lparr>e_db := web_db\<lparr>t_devices := [(demo_lamp True)\<lparr>dev_OwnerID := Some ''1''\<rparr>]\<rparr>\<rparr>"

lemma show_1: "show_nat 1 = ''1''" "show_nat 2 = ''2''" "show_nat 7 = ''7''"
  by (simp_all add: show_nat.simps digit_char_def)

lemma demo_token:
  "ValidateTokenJWT (w_auth demo_web) (w_secret demo_web) (dr_now demo_draws) (toy_token ''key'' 1 5000 0) = Inr ''1''"
  "ValidateTokenJWT (w_auth demo_web) (w_secret demo_web) (dr_now demo_draws) (toy_token ''key'' 2 5000 0) = Inr ''2''"
  using token_of_user [of 1 1000 5000 "''key''" 0] token_of_user [of 2 1000 5000 "''key''" 0]
  by (simp_all add: demo_web_def demo_draws_def show_1 show_1(1) [simplified])

lemma command_sent:
  assumes "db_up d" and "matching i d = [dev]" and "dev_Accepted dev" and "dev_OwnerID dev = Some uid"
    and "unmarshal_map body = Some ps" and "w_client W"
  shows "snd (fst (command_device W uid i body d)) = [command i (marshal_map ps)]"
  using assms by (simp add: command_device_def select_device_def query_row_up Let_def)

lemma serve_command:
  assumes "ValidateTokenJWT (w_auth W) (w_secret W) (dr_now dr) authorization = Inr uid"
  shows "fst (serve W R C iter dr authorization (Command i body) e) = fst (command_device W uid i body (e_db e))"
  using assms by (simp add: serve_authorized RequireAuth_def split: prod.split)

lemma commands_authorized_witness:
  "\<exists>dev \<in> set (t_devices (e_db own_engine)). dev_OwnerID dev = Some ''1''
    \<and> command ''lamp'' (JObj []) \<in> set (snd (fst (serve demo_web mem_redis mem_cron rev demo_draws
        (toy_token ''key'' 1 5000 0) (Command ''lamp'' (Some (JObj []))) own_engine)))"
proof -
  have "snd (fst (command_device demo_web ''1'' ''lamp'' (Some (JObj [])) (e_db own_engine))) = [command ''lamp'' (JObj [])]"
    using command_sent [of "e_db own_engine" "''lamp''" "(demo_lamp True)\<lparr>dev_OwnerID := Some ''1''\<rparr>" "''1''" "Some (JObj [])" "Some []" demo_web]
    by (simp add: own_engine_def db_up_def matching_def obj_map_def marshal_map_def demo_web_def)
      (simp add: demo_lamp_def web_db_def demo_rules_def demo_db_def)
  then have p: "command ''lamp'' (JObj []) \<in> set (snd (fst (serve demo_web mem_redis mem_cron rev demo_draws
        (toy_token ''key'' 1 5000 0) (Command ''lamp'' (Some (JObj []))) own_engine)))"
    unfolding serve_command [OF demo_token(1)] by simp
  from commands_authorized [OF p] demo_token(1) p show ?thesis by auto
qed

text \<open>
  C36: owning a device protects it from nobody. Whoever is logged in can make any device his own, by
  accepting it, whether it is pending or another user's; the next command of his reaches it.
\<close>

theorem devices_up_for_grabs:
  assumes "ValidateTokenJWT (w_auth W) (w_secret W) (dr_now dr) authorization = Inr uid"
    and "db_up (e_db e)" and "tables_ok (e_db e)" and "db_int (e_db e) uid = Some uid" and "uid \<in> urID ` set (t_users (e_db e))"
    and "dev \<in> set (t_devices (e_db e))" and "w_client W" and "unmarshal_map body = Some ps"
  shows "snd (fst (serve W R C iter dr authorization (Command (dev_ID dev) body)
      (snd (serve W R C iter dr authorization (Accept (dev_ID dev)) e)))) = [command (dev_ID dev) (marshal_map ps)]"
proof -
  let ?f = "\<lambda>x. x\<lparr>dev_Accepted := True, dev_OwnerID := Some uid\<rparr>"
  let ?d = "(tick (e_db e))\<lparr>t_devices := map_rows (\<lambda>x. dev_ID x = dev_ID dev) ?f (t_devices (e_db e))\<rparr>"
  have one: "matching (dev_ID dev) (e_db e) = [dev]"
    using tables_ok_devices(1) [OF assms(3)] assms(6) by (simp add: matching_def filter_key_unique)
  then have "e_db (snd (serve W R C iter dr authorization (Accept (dev_ID dev)) e)) = ?d"
    using assms(1,2,4,5)
    by (simp add: serve_authorized RequireAuth_def on_db_def accept_device_def update_owner_def exec_up exec_int_eq
        update_device_def matching_def)
  moreover have "matching (dev_ID dev) ?d = [?f dev]"
    using one by (simp add: matching_def map_rows_def filter_map comp_def if_distrib cong: if_cong filter_cong)
  moreover have "db_up ?d" using assms(2) by (simp add: db_up_def)
  ultimately show ?thesis
    using command_sent [of ?d "dev_ID dev" "?f dev" uid body ps W] assms(7,8)
    by (simp add: serve_command [OF assms(1)])
qed

lemma devices_up_for_grabs_witness:
  "snd (fst (serve demo_web mem_redis mem_cron rev demo_draws (toy_token ''key'' 2 5000 0) (Command ''lamp'' (Some (JObj [])))
      (snd (serve demo_web mem_redis mem_cron rev demo_draws (toy_token ''key'' 2 5000 0) (Accept ''lamp'') own_engine))))
    = [command ''lamp'' (JObj [])]"
proof -
  let ?dev = "(demo_lamp True)\<lparr>dev_OwnerID := Some ''1''\<rparr>"
  have "keeps web_db (web_db\<lparr>t_devices := [?dev]\<rparr>)"
    by (rule keeps_devices) (simp_all add: demo_user_def)
  then have ok: "tables_ok (e_db own_engine)" using web_tables_ok by (simp add: own_engine_def keeps_def)
  have "pg_int ''2'' = Some ''2''" using pg_int_show_nat [of 2] by (simp add: show_1)
  with devices_up_for_grabs [OF demo_token(2) _ ok, of ?dev "Some (JObj [])" "Some []"]
  show ?thesis
    by (simp add: own_engine_def db_up_def obj_map_def marshal_map_def demo_user_def demo_web_def)
      (simp add: demo_lamp_def web_db_def demo_rules_def demo_db_def)
qed

end
