(* ===== verification/Ownership.thy ===== *)
theory Ownership
  imports Web
begin

text \<open>
  Whose rows a request may write: the rules and devices of other owners stay, and what creating
  and deleting a rule do for their owner and for others.
\<close>

section \<open>Rows of other owners\<close>

text \<open>The rows a user does not own.\<close>

definition other_rules :: "string \<Rightarrow> db \<Rightarrow> rule_row list" where
  "other_rules uid d = filter (\<lambda>x. rrOwnerID x \<noteq> Some uid) (t_rules d)"

definition other_devices :: "string \<Rightarrow> db \<Rightarrow> device list" where
  "other_devices uid d = filter (\<lambda>x. dev_OwnerID x \<noteq> Some uid) (t_devices d)"

definition leaves_others :: "string \<Rightarrow> db \<Rightarrow> db \<Rightarrow> bool" where
  "leaves_others uid d d' \<longleftrightarrow> other_rules uid d' = other_rules uid d \<and> other_devices uid d' = other_devices uid d"

lemma leaves_others_refl [simp]: "leaves_others uid d d" "leaves_others uid d (tick d)" "leaves_others uid (tick d) d' = leaves_others uid d d'"
  by (simp_all add: leaves_others_def other_rules_def other_devices_def)

lemma leaves_others_trans: "leaves_others uid d d' \<Longrightarrow> leaves_others uid d' d'' \<Longrightarrow> leaves_others uid d d''"
  by (simp add: leaves_others_def)

lemma leaves_others_schedules: "schedules_only d d' \<Longrightarrow> leaves_others uid d d'"
  by (simp add: schedules_only_def leaves_others_def other_rules_def other_devices_def)

lemma leaves_others_exec: "(\<And>d. leaves_others uid d (snd (stmt d))) \<Longrightarrow> leaves_others uid d (snd (exec stmt d))"
  by (simp add: exec_def split: outcome.split) (metis leaves_others_refl(3))

lemma filter_map_rows_out:
  "(\<And>x. x \<in> set rows \<Longrightarrow> p x \<Longrightarrow> \<not> q x \<and> \<not> q (f x)) \<Longrightarrow> filter q (map_rows p f rows) = filter q rows"
  by (induction rows) (auto simp: map_rows_def)

lemma select_own:
  assumes "tables_ok d" and "dev \<in> set (matching i d)" and "x \<in> set (t_devices d)" and "dev_ID x = i"
  shows "x = dev"
proof -
  have "filter (\<lambda>y. dev_ID y = dev_ID x) (t_devices d) = [x]"
    using tables_ok_devices(1) [OF assms(1)] assms(3) by (simp add: filter_key_unique)
  moreover have "dev \<in> set (filter (\<lambda>y. dev_ID y = dev_ID x) (t_devices d))"
    using assms(2,4) by (simp add: matching_def)
  ultimately have "dev \<in> set [x]" by metis
  then show ?thesis by simp
qed

lemma leaves_others_rename:
  assumes "tables_ok d"
  shows "leaves_others uid d (snd (rename_device uid i body d))"
proof (cases rule: select_deviceE [of i d])
  case (found dev)
  have "leaves_others uid d (snd (exec (update_device i (\<lambda>x. x\<lparr>dev_Name := n\<rparr>)) (tick d)))"
    if own: "dev_OwnerID dev = Some uid" for n
  proof -
    have "filter (\<lambda>x. dev_OwnerID x \<noteq> Some uid) (map_rows (\<lambda>x. dev_ID x = i) (\<lambda>x. x\<lparr>dev_Name := n\<rparr>) (t_devices d))
        = filter (\<lambda>x. dev_OwnerID x \<noteq> Some uid) (t_devices d)"
      using select_own [OF assms found(2)] own by (intro filter_map_rows_out) auto
    then show ?thesis
      by (simp add: exec_def update_device_def leaves_others_def other_rules_def other_devices_def split: outcome.split)
  qed
  with found(1) show ?thesis
    by (auto simp: rename_device_def case_prod_unfold split: option.split sum.split)
qed (simp add: rename_device_def)

lemma leaves_others_remove:
  assumes "tables_ok d"
  shows "leaves_others uid d (snd (remove_device uid i d))"
proof (cases rule: select_deviceE [of i d])
  case (found dev)
  have "leaves_others uid d (snd (delete_device i (tick d)))" if own: "dev_OwnerID dev = Some uid"
  proof -
    have "filter (\<lambda>x. dev_OwnerID x \<noteq> Some uid) (filter (\<lambda>x. dev_ID x \<noteq> i) (t_devices d))
        = filter (\<lambda>x. dev_OwnerID x \<noteq> Some uid) (t_devices d)"
      using select_own [OF assms found(2)] own by (auto intro: filter_cong)
    then show ?thesis
      by (simp add: exec_def delete_device_def leaves_others_def other_rules_def other_devices_def split: outcome.split)
  qed
  with found(1) show ?thesis
    by (auto simp: remove_device_def case_prod_unfold split: sum.split)
qed (simp add: remove_device_def)

lemma leaves_others_command: "leaves_others uid d (snd (command_device W uid i body d))"
  by (cases rule: select_deviceE [of i d]) (simp_all add: command_device_def Let_def split: option.split)

lemma leaves_others_reads:
  "leaves_others uid d (snd (list_devices uid d))" "leaves_others uid d (snd (list_pending d))"
  "leaves_others uid d (snd (get_me uid d))" "leaves_others uid d (snd (list_rules uid d))"
  by (auto simp: list_devices_def list_pending_def get_me_def list_rules_def
      split: prod.split sum.split dest!: arg_cong [where f = snd])

lemma leaves_others_insert:
  assumes "db_int d uid = Some uid"
  shows "leaves_others uid d (snd (insert_rule W uid req d))"
  using assms
  by (simp add: insert_rule_def exec_def exec_int_def leaves_others_def other_rules_def other_devices_def Let_def
      split: outcome.split option.split)

lemma leaves_others_delete:
  assumes "db_int d uid = Some uid"
  shows "leaves_others uid d (snd (delete_rule i uid d))"
  using assms
  by (auto simp: delete_rule_def exec_def exec_int_def leaves_others_def other_rules_def other_devices_def Let_def
      split: outcome.split option.split intro: filter_cong)

lemma leaves_others_update:
  assumes "db_int d (rOwnerID x) = Some uid"
  shows "leaves_others uid d (snd (update_rule W x d))"
  using assms
  by (auto simp: update_rule_def exec_def exec_int_def leaves_others_def other_rules_def other_devices_def
      split: outcome.split option.split intro!: filter_map_rows_out)

lemma leaves_others_own_update:
  fixes e :: "('r, 'c) engine"
  assumes ok: "engine_ok entries valid e" and "cron_service C entries valid" and i: "db_int (e_db e) (rID x) = Some (rID x)"
  shows "leaves_others uid (e_db e) (e_db (notify_engine R C iter x e))"
  using notify_ok [OF assms(2,1) i] by (blast intro: leaves_others_schedules)

lemma scan_owned_owner: "scan_owned_rule x = Inr y \<Longrightarrow> rrOwnerID x = Some (rOwnerID y)"
  by (auto simp: scan_owned_rule_def split: option.splits)

lemma select_owned_owner:
  assumes "select_owned i uid d = (Inr x, d1)" and "db_int d uid = Some uid"
  shows "rOwnerID x = uid"
  using assms
  by (auto simp: select_owned_def sum_bind_Inr prod_eq_iff dest!: query_row_Inr scan_owned_owner
      split: prod.splits option.splits)

lemma leaves_others_post:
  fixes e :: "('r, 'c) engine"
  assumes C: "cron_service C entries valid" and ok: "engine_ok entries valid e" and uid: "db_int (e_db e) uid = Some uid"
  shows "leaves_others uid (e_db e) (e_db (snd (post_rule W R C iter uid body e)))"
proof (cases "bind_json dec_add_field \<lparr>arName = '''', arConditions = None, arActions = None, arEnabled = False\<rparr> body")
  case (Some req)
  obtain res d1 where ins: "insert_rule W uid req (e_db e) = (res, d1)" by fastforce
  with leaves_others_insert [OF uid, of W req] keeps_insert_rule [of "e_db e" W uid req]
  have d1: "leaves_others uid (e_db e) d1" "keeps (e_db e) d1" by simp_all
  have "snd (select_newest (arName req) uid d1) = tick d1" by (simp add: select_newest_def case_prod_unfold)
  then obtain sel where sel: "select_newest (arName req) uid d1 = (sel, tick d1)" by (metis prod.collapse)
  have tick: "leaves_others uid (e_db e) (tick d1)" using d1(1) leaves_others_refl(2) leaves_others_trans by blast
  have "leaves_others uid (e_db e) (e_db (notify_engine R C iter x (e\<lparr>e_db := tick d1\<rparr>)))" if "sel = Inr x" for x
  proof -
    have e1: "engine_ok entries valid (e\<lparr>e_db := tick d1\<rparr>)"
      using d1(2) by (intro engine_ok_keeps [OF ok]) (simp add: keeps_def)
    from selected_rule(1) [of "arName req" uid d1 x "tick d1"] sel that
    obtain row where row: "row \<in> set (t_rules d1)" "rID x = rrID row" by blast
    have "db_int (tick d1) (rID x) = Some (rID x)" using rule_id_read [OF e1, of row] row by simp
    with leaves_others_own_update [OF e1 C, of x uid R iter] tick show ?thesis by (auto intro: leaves_others_trans)
  qed
  with Some ins sel d1(1) tick show ?thesis
    by (simp add: post_rule_def split: sum.split)
qed (simp add: post_rule_def)

lemma leaves_others_delete_route:
  fixes e :: "('r, 'c) engine"
  assumes C: "cron_service C entries valid" and ok: "engine_ok entries valid e" and uid: "db_int (e_db e) uid = Some uid"
  shows "leaves_others uid (e_db e) (e_db (snd (delete_rule_route R C uid i e)))"
proof -
  obtain res e1 where rem: "RemoveRuleAssociations R C i e = (res, e1)" by fastforce
  with remove_engine [OF C ok, of R i] have e1: "schedules_only (e_db e) (e_db e1)" by simp
  then have "db_int (e_db e1) uid = Some uid" using uid by (simp add: schedules_only_def)
  from leaves_others_trans [OF leaves_others_schedules [OF e1] leaves_others_delete [OF this, of i]] rem
  show ?thesis by (auto simp: delete_rule_route_def split: prod.split sum.split)
qed

lemma leaves_others_patch:
  fixes e :: "('r, 'c) engine"
  assumes C: "cron_service C entries valid" and ok: "engine_ok entries valid e" and uid: "db_int (e_db e) uid = Some uid"
  shows "leaves_others uid (e_db e) (e_db (snd (patch_rule W R C iter uid i body e)))"
proof (cases "bind_json dec_update_field \<lparr>urrName = None, urrConditions = None, urrActions = None, urrEnabled = None\<rparr> body")
  case (Some req)
  have "snd (select_owned i uid (e_db e)) = tick (e_db e)" by (simp add: select_owned_def case_prod_unfold)
  then obtain sel where sel: "select_owned i uid (e_db e) = (sel, tick (e_db e))" by (metis prod.collapse)
  have "leaves_others uid (e_db e) (e_db (snd (patch_rule W R C iter uid i body e)))" if x: "sel = Inr x" for x
  proof -
    let ?x = "merge_rule req x"
    from selected_rule(2) [of i uid "e_db e" x] sel x obtain row where
      row: "row \<in> set (t_rules (e_db e))" "rID x = rrID row" by blast
    have "rOwnerID x = uid" using select_owned_owner sel x uid by blast
    then have own: "db_int (tick (e_db e)) (rOwnerID ?x) = Some uid" using uid by (simp add: merge_rule_def)
    obtain res d2 where upd: "update_rule W ?x (tick (e_db e)) = (res, d2)" by fastforce
    with keeps_update_rule [of "tick (e_db e)" W ?x] leaves_others_update [OF own, of W]
    have d2: "keeps (e_db e) d2" "leaves_others uid (e_db e) d2" by simp_all
    have e2: "engine_ok entries valid (e\<lparr>e_db := d2\<rparr>)" by (rule engine_ok_keeps [OF ok d2(1)])
    have "db_int d2 (rID ?x) = Some (rID ?x)"
      using rule_id_read [OF ok row(1)] row(2) d2(1) by (simp add: merge_rule_def keeps_def)
    with leaves_others_own_update [OF e2 C, of ?x uid R iter] d2(2)
    have "leaves_others uid (e_db e) (e_db (notify_engine R C iter ?x (e\<lparr>e_db := d2\<rparr>)))"
      by (auto intro: leaves_others_trans)
    then show ?thesis using Some sel x upd d2(2) by (cases res) (simp_all add: patch_rule_def Let_def)
  qed
  with Some sel show ?thesis by (cases sel) (simp_all add: patch_rule_def)
qed (simp add: patch_rule_def)

fun takes_device :: "request \<Rightarrow> bool" where
  "takes_device (Accept _) = True"
| "takes_device (SetOwner _) = True"
| "takes_device _ = False"

lemma leaves_others_handle:
  assumes "cron_service C entries valid" and "engine_ok entries valid e" and "db_int (e_db e) uid = Some uid"
    and "\<not> takes_device req"
  shows "leaves_others uid (e_db e) (e_db (snd (handle W R C iter req uid e)))"
proof -
  have "tables_ok (e_db e)" using assms(2) by (simp add: engine_ok_def)
  with assms(4) show ?thesis
    by (cases req)
      (simp_all add: on_db_def quiet_def case_prod_unfold leaves_others_reads leaves_others_command leaves_others_rename
        leaves_others_remove leaves_others_post [OF assms(1-3)] leaves_others_delete_route [OF assms(1-3)]
        leaves_others_patch [OF assms(1-3)])
qed

text \<open>
  C7: whatever a user sends and whatever the database answers, the rules of the other users and
  their devices stay exactly as they are, row by row. The two routes that take a device over are
  the exceptions.
\<close>

theorem others_untouched:
  assumes "cron_service C entries valid" and "engine_ok entries valid e"
    and "ValidateTokenJWT (w_auth W) (w_secret W) (dr_now dr) authorization = Inr uid" and "db_int (e_db e) uid = Some uid"
    and "\<not> takes_device req" and "\<not> open_to_all req"
    and "e' = snd (serve W R C iter dr authorization req e)"
  shows "filter (\<lambda>x. rrOwnerID x \<noteq> Some uid) (t_rules (e_db e')) = filter (\<lambda>x. rrOwnerID x \<noteq> Some uid) (t_rules (e_db e))
    \<and> filter (\<lambda>x. dev_OwnerID x \<noteq> Some uid) (t_devices (e_db e')) = filter (\<lambda>x. dev_OwnerID x \<noteq> Some uid) (t_devices (e_db e))"
  using leaves_others_handle [OF assms(1,2,4,5), of W R iter] assms(3,6,7)
  by (simp add: serve_authorized RequireAuth_def leaves_others_def other_rules_def other_devices_def)

lemma others_untouched_witness:
  "filter (\<lambda>x. rrOwnerID x \<noteq> Some ''2'') (t_rules (e_db (snd (serve demo_web mem_redis mem_cron rev demo_draws
      (toy_token ''key'' 2 5000 0) (RemoveRule ''7'') web_engine))))
     = filter (\<lambda>x. rrOwnerID x \<noteq> Some ''2'') (t_rules web_db)"
proof -
  have "db_int (e_db web_engine) ''2'' = Some ''2''" using pg_int_show_nat [of 2] by (simp add: show_1)
  from others_untouched [OF mc.cron_service_axioms web_engine_ok demo_token(2) this _ _ refl, of "RemoveRule ''7''" mem_redis rev]
  show ?thesis by simp
qed

section \<open>Creating a rule\<close>

lemma newest_append:
  "\<forall>x \<in> set xs. digits_val (rrID x) < digits_val (rrID row) \<Longrightarrow> newest (xs @ [row]) = Some row"
  by (induction xs) auto

lemma engine_db_frame:
  fixes e :: "('r, 'c) engine"
  shows "e_queue (snd (RefreshRuleAssociations R C iter i e)) = e_queue e"
    and "t_rules (e_db (notify_engine R C iter x e)) = t_rules (e_db (snd (RefreshRuleAssociations R C iter (rID x) e)))"
    and "e_redis (notify_engine R C iter x e) = e_redis (snd (RefreshRuleAssociations R C iter (rID x) e))"
  by (auto simp: RefreshRuleAssociations_def notify_engine_def on_schedules_def Let_def
      split: prod.split sum.split option.split)

lemma insert_rule_up:
  assumes "db_up d" and "tables_ok d" and "db_int d uid = Some uid" and "uid \<in> urID ` set (t_users d)"
    and "rules_seq d \<le> 2147483647" and below: "\<forall>x \<in> set (t_rules d). \<exists>n < rules_seq d. rrID x = show_nat n"
    and "jsonb_param W (arConditions req) = Some (Some c)" and "jsonb_param W (arActions req) = Some (Some a)"
    and row: "row = \<lparr>rrID = show_nat (rules_seq d), rrName = arName req, rrConditions = c, rrActions = a,
                rrEnabled = Some (arEnabled req), rrOwnerID = Some uid\<rparr>"
  obtains d1 where "insert_rule W uid req d = (Inr (), d1)" and "t_rules d1 = t_rules d @ [row]" and "db_up d1"
    and "select_newest (arName req) uid d1 = (Inr ((rule_of row)\<lparr>rOwnerID := uid\<rparr>), tick d1)"
proof -
  let ?d = "(tick d)\<lparr>rules_seq := Suc (rules_seq d), t_rules := t_rules d @ [row]\<rparr>"
  have "rrID row \<notin> rrID ` set (t_rules d)" using below row by auto
  then have ins: "insert_rule W uid req d = (Inr (), ?d)"
    using assms(1-5,7,8) row by (simp add: insert_rule_def exec_up exec_int_eq Let_def)
  have up: "db_up ?d" using assms(1) by (simp add: db_up_def)
  have "\<forall>x \<in> set (t_rules d). digits_val (rrID x) < digits_val (rrID row)" using below row by auto
  then have "newest (filter (\<lambda>x. rrName x = arName req \<and> rrOwnerID x = Some uid) (t_rules d) @ [row]) = Some row"
    by (intro newest_append) auto
  then have "select_newest (arName req) uid ?d = (Inr ((rule_of row)\<lparr>rOwnerID := uid\<rparr>), tick ?d)"
    using up assms(3) row
    by (simp add: select_newest_def query_row_up where_int_eq sum_bind_def scan_owned_rule_def rule_of_def)
  with ins up show ?thesis by (intro that) simp_all
qed

text \<open>
  C8: a rule that a user posts while database, Redis and queue work is created under a fresh id as
  his, the answer is the rule, and it is in force at once: the rule sets gain it for exactly the
  devices its conditions name (if it is enabled), and it is queued for evaluation, unless it is
  disabled or its conditions do not decode.
\<close>

theorem rule_created:
  fixes e :: "('r, 'c) engine"
  assumes "redis_server R view" and "cron_service C entries valid" and "visit_order iter"
    and ok: "engine_ok entries valid e" and up: "db_up (e_db e)" and typed: "rules_typed (view (e_redis e))"
    and token: "ValidateTokenJWT (w_auth W) (w_secret W) (dr_now dr) authorization = Inr uid"
    and user: "db_int (e_db e) uid = Some uid" "uid \<in> urID ` set (t_users (e_db e))"
    and room: "rules_seq (e_db e) \<le> 2147483647"
    and below: "\<forall>x \<in> set (t_rules (e_db e)). \<exists>n < rules_seq (e_db e). rrID x = show_nat n"
    and body: "bind_json dec_add_field \<lparr>arName = '''', arConditions = None, arActions = None, arEnabled = False\<rparr> body = Some req"
      "jsonb_param W (arConditions req) = Some (Some c)" "jsonb_param W (arActions req) = Some (Some a)"
    and row: "row = \<lparr>rrID = show_nat (rules_seq (e_db e)), rrName = arName req, rrConditions = c, rrActions = a,
                rrEnabled = Some (arEnabled req), rrOwnerID = Some uid\<rparr>"
    and run: "serve W R C iter dr authorization (AddRule body) e = (out, e')"
  shows "out = (respond 201 (enc_rule ((rule_of row)\<lparr>rOwnerID := uid\<rparr>)), [])
    \<and> t_rules (e_db e') = t_rules (e_db e) @ [row]
    \<and> (\<forall>v. associations (view (e_redis e')) v
        = associations (view (e_redis e)) v - {rrID row} \<union> wanted [rule_of row] v)
    \<and> e_queue e' = (if arEnabled req \<and> unmarshal_condition (Some c) \<noteq> None
        then TriggerRuleEvaluation (rrID row) (e_queue e) else e_queue e)"
proof -
  have tables: "tables_ok (e_db e)" using ok by (simp add: engine_ok_def)
  obtain d1 where ins: "insert_rule W uid req (e_db e) = (Inr (), d1)" and rows: "t_rules d1 = t_rules (e_db e) @ [row]"
    and up1: "db_up d1" and sel: "select_newest (arName req) uid d1 = (Inr ((rule_of row)\<lparr>rOwnerID := uid\<rparr>), tick d1)"
    by (rule insert_rule_up [OF up tables user room below body(2,3) row])
  let ?x = "(rule_of row)\<lparr>rOwnerID := uid\<rparr>" and ?e = "e\<lparr>e_db := tick d1\<rparr>"
  have keeps: "keeps (e_db e) (tick d1)" using keeps_insert_rule [of "e_db e" W uid req] ins by (simp add: keeps_def)
  have ok1: "engine_ok entries valid ?e" by (rule engine_ok_keeps [OF ok keeps])
  then have "db_ok (tick d1)" by (simp add: engine_ok_def tables_ok_def)
  with GetRuleByID_up [of "tick d1" row] rows up1
  have get: "fst (GetRuleByID (rrID row) (e_db ?e)) = Inr (rule_of row)"
    by (simp add: scan_rule_Inr) (simp add: row)
  have id: "db_int (e_db ?e) (rrID row) = Some (rrID row)" using rule_id_read [OF ok1, of row] rows by simp
  note sets = redis_server.refresh_associations [OF assms(1,3), where e = ?e and i = "rrID row" and rule = "rule_of row" and C = C]
  have e': "e' = notify_engine R C iter ?x ?e"
    and out: "out = (respond 201 (enc_rule ?x), [])"
    using run body(1) ins sel by (simp_all add: serve_def RequireAuth_def token quiet_def post_rule_def)
  have "t_rules (e_db e') = t_rules (e_db e) @ [row]"
    using refresh_engine [OF assms(2) ok1 id, of R iter] rows
    by (simp add: e' engine_db_frame schedules_only_def)
  moreover have "\<forall>v. associations (view (e_redis e')) v
      = associations (view (e_redis e)) v - {rrID row} \<union> wanted [rule_of row] v"
    using sets(1) typed get by (simp add: e' engine_db_frame)
  moreover have "e_queue e' = (if arEnabled req \<and> unmarshal_condition (Some c) \<noteq> None
      then TriggerRuleEvaluation (rrID row) (e_queue e) else e_queue e)"
  proof -
    obtain okr e2 where ref: "RefreshRuleAssociations R C iter (rrID row) ?e = (okr, e2)" by fastforce
    with sets(4) typed get have "okr \<longleftrightarrow> \<not> arEnabled req \<or> unmarshal_condition (Some c) \<noteq> None"
      by (simp add: row)
    moreover from ref engine_db_frame(1) [of R C iter "rrID row" ?e] have "e_queue e2 = e_queue e" by simp
    ultimately show ?thesis using ref by (auto simp: e' notify_engine_def) (auto simp: row)
  qed
  ultimately show ?thesis using out by blast
qed

definition demo_add :: json where
  "demo_add = JObj [(''name'', JStr ''fan''), (''conditions'', enc_condition demo_tree), (''actions'', demo_actions 1),
     (''enabled'', JBool True)]"

lemma show_12_100: "show_nat 12 = ''12''" "show_nat 100 = ''100''"
  by (simp_all add: show_nat.simps digit_char_def)

lemma web_engine_below: "\<forall>x \<in> set (t_rules (e_db web_engine)). \<exists>n < rules_seq (e_db web_engine). rrID x = show_nat n"
proof -
  have "\<exists>n < 100. ''7'' = show_nat n" by (rule exI [of _ 7]) (simp add: show_1)
  moreover have "\<exists>n < 100. ''12'' = show_nat n" by (rule exI [of _ 12]) (simp add: show_12_100)
  ultimately show ?thesis by (simp add: demo_rules_def) (simp add: demo_db_def demo_rule_row_def)
qed

lemma rule_created_witness:
  "associations (mem_view (e_redis (snd (serve demo_web mem_redis mem_cron rev demo_draws
      (toy_token ''key'' 1 5000 0) (AddRule (Some demo_add)) web_engine)))) ''lamp'' = {''7'', ''100''}"
proof -
  let ?req = "\<lparr>arName = ''fan'', arConditions = Some (enc_condition demo_tree), arActions = Some (demo_actions 1), arEnabled = True\<rparr>"
  let ?row = "\<lparr>rrID = ''100'', rrName = ''fan'', rrConditions = enc_condition demo_tree, rrActions = demo_actions 1,
    rrEnabled = Some True, rrOwnerID = Some ''1''\<rparr>"
  let ?zero = "\<lparr>arName = '''', arConditions = None, arActions = None, arEnabled = False\<rparr>"
  obtain out e' where run: "serve demo_web mem_redis mem_cron rev demo_draws
      (toy_token ''key'' 1 5000 0) (AddRule (Some demo_add)) web_engine = (out, e')" by fastforce
  have body: "bind_json dec_add_field ?zero (Some demo_add) = Some ?req"
    by (simp add: bind_json_def demo_add_def dec_add_field_def field_is_def ascii_upper_def)
  have user: "db_int (e_db web_engine) ''1'' = Some ''1''" "''1'' \<in> urID ` set (t_users (e_db web_engine))"
    using pg_int_show_nat [of 1] by (simp_all only: web_engine_fields web_db_fields) (simp_all add: show_1(1) [simplified] demo_user_def)
  have param: "jsonb_param demo_web (Some j) = Some (Some j)" for j by (simp add: jsonb_param_def demo_web_def)
  have wanted: "wanted [rule_of ?row] ''lamp'' = {''100''}"
    by (simp add: wanted_def raw_device_ids_def device_ids_def) (simp add: demo_defs)
  have "associations (mem_view (e_redis e')) ''lamp''
      = associations (mem_view (e_redis web_engine)) ''lamp'' - {rrID ?row} \<union> wanted [rule_of ?row] ''lamp''"
    using rule_created [OF mem.redis_server_axioms mc.cron_service_axioms visit_order_rev web_engine_ok _ _ demo_token(1) user _
        web_engine_below body _ _ _ run, of "enc_condition demo_tree" "demo_actions 1" ?row]
    by (simp add: param demo_rules_typed show_12_100)
  then have "associations (mem_view (e_redis e')) ''lamp'' = {''7'', ''100''}"
    by (simp add: wanted) (simp add: associations_def demo_members insert_commute)
  then show ?thesis unfolding run snd_conv .
qed

section \<open>Deleting a rule of another user\<close>

lemma delete_rule_foreign:
  assumes "db_up d" and "tables_ok d" and "db_int d uid = Some uid" and "row \<in> set (t_rules d)" and "rrOwnerID row \<noteq> Some uid"
  shows "fst (delete_rule (rrID row) uid d) = Inr ()" and "t_rules (snd (delete_rule (rrID row) uid d)) = t_rules d"
    and "t_schedules (snd (delete_rule (rrID row) uid d)) = t_schedules d"
proof -
  have one: "\<not> (rrID x = rrID row \<and> rrOwnerID x = Some uid)" if "x \<in> set (t_rules d)" for x
  proof
    assume x: "rrID x = rrID row \<and> rrOwnerID x = Some uid"
    with that assms(4) tables_ok_rules(1) [OF assms(2)] have "x = row" by (auto simp: distinct_map inj_on_def)
    with x assms(5) show False by simp
  qed
  have int: "db_int d (rrID row) = Some (rrID row)" using tables_ok_rules(3) [OF assms(2)] assms(4) by blast
  have "filter (\<lambda>x. rrID x = rrID row \<longrightarrow> rrOwnerID x \<noteq> Some uid) (t_rules d) = t_rules d"
    using one by (auto simp: filter_id_conv)
  then have "delete_rule (rrID row) uid d = (Inr (), (tick d)\<lparr>t_rules := t_rules d\<rparr>)"
    using one assms(1,3) int by (auto simp: delete_rule_def exec_up exec_int_eq Let_def)
  then show "fst (delete_rule (rrID row) uid d) = Inr ()" "t_rules (snd (delete_rule (rrID row) uid d)) = t_rules d"
    "t_schedules (snd (delete_rule (rrID row) uid d)) = t_schedules d"
    by simp_all
qed

text \<open>
  C35: deleting a rule of another user answers that it is deleted and leaves the row, still enabled,
  but the engine has given the rule up: it is in no rule set any more, and its schedules are
  gone from the table and from the scheduler. The owner check of the statement comes after.
\<close>

theorem foreign_delete:
  fixes e :: "('r, 'c) engine"
  assumes "redis_server R view" and "cron_service C entries valid"
    and ok: "engine_ok entries valid e" and up: "db_up (e_db e)"
    and token: "ValidateTokenJWT (w_auth W) (w_secret W) (dr_now dr) authorization = Inr uid"
    and user: "db_int (e_db e) uid = Some uid"
    and row: "row \<in> set (t_rules (e_db e))" "rrOwnerID row \<noteq> Some uid"
    and run: "serve W R C iter dr authorization (RemoveRule (rrID row)) e = (out, e')"
  shows "out = (respond 200 (JObj [(''status'', JStr ''Rule deleted successfully'')]), [])
    \<and> t_rules (e_db e') = t_rules (e_db e)
    \<and> (\<forall>v. associations (view (e_redis e')) v = associations (view (e_redis e)) v - {rrID row})
    \<and> t_schedules (e_db e') = filter (\<lambda>x. sRuleID x \<noteq> rrID row) (t_schedules (e_db e))
    \<and> (\<forall>sid c. sched_view entries (e_sched e') sid \<noteq> Some (rrID row, c))"
proof -
  obtain res e1 where rem: "RemoveRuleAssociations R C (rrID row) e = (res, e1)" by fastforce
  note e1 = remove_engine [OF assms(2) ok, of R "rrID row", unfolded rem snd_conv]
  have b: "backed entries valid (e_sched e, e_db e)" and int: "db_int (e_db e) (rrID row) = Some (rrID row)"
    using ok rule_id_read [OF ok row(1)] by (simp_all add: engine_ok_def)
  note assoc = redis_server.remove_associations [OF assms(1), where C = C and i = "rrID row" and e = e, unfolded rem snd_conv fst_conv]
  note gone = rule_removed(2,3) [OF assms(2) int b up]
  have same: "t_rules (e_db e1) = t_rules (e_db e)" "db_int (e_db e1) = db_int (e_db e)" and up1: "db_up (e_db e1)"
    using e1 schedules_only_up [of "e_db e" "e_db e1"] up by (simp_all add: schedules_only_def)
  have "tables_ok (e_db e1)" using e1 by (simp add: engine_ok_def)
  note del = delete_rule_foreign [OF up1 this, of uid row, unfolded same, OF user row]
  then obtain d1 where d1: "delete_rule (rrID row) uid (e_db e1) = (Inr (), d1)" by (metis prod.collapse)
  have "serve W R C iter dr authorization (RemoveRule (rrID row)) e
      = ((gin_status ''Rule deleted successfully'', []), e1\<lparr>e_db := d1\<rparr>)"
    using rem d1 by (simp add: serve_def RequireAuth_def token quiet_def delete_rule_route_def)
  with run have "out = (gin_status ''Rule deleted successfully'', [])" "e' = e1\<lparr>e_db := d1\<rparr>" by simp_all
  with del d1 same gone assoc show ?thesis by (simp add: gin_status_def)
qed

lemma foreign_delete_witness:
  "\<forall>v. ''7'' \<notin> associations (mem_view (e_redis (snd (serve demo_web mem_redis mem_cron rev demo_draws
      (toy_token ''key'' 2 5000 0) (RemoveRule ''7'') web_engine)))) v"
proof -
  let ?row = "demo_rule_row ''7'' (enc_condition demo_tree) (demo_actions 1)"
  obtain out e' where run: "serve demo_web mem_redis mem_cron rev demo_draws
      (toy_token ''key'' 2 5000 0) (RemoveRule ''7'') web_engine = (out, e')" by fastforce
  have user: "db_int (e_db web_engine) ''2'' = Some ''2''" using pg_int_show_nat [of 2] by (simp add: show_1)
  have row: "?row \<in> set (t_rules (e_db web_engine))" by (simp add: demo_rules_def demo_db_def)
  have i: "rrID ?row = ''7''" and o: "rrOwnerID ?row \<noteq> Some ''2''" by (simp_all add: demo_rule_row_def)
  from foreign_delete [OF mem.redis_server_axioms mc.cron_service_axioms web_engine_ok _ demo_token(2) user row o, of rev, unfolded i, OF _ run]
  have "\<forall>v. ''7'' \<notin> associations (mem_view (e_redis e')) v" by simp
  then show ?thesis unfolding run snd_conv .
qed

end
