(* ===== verification/Server.thy ===== *)
theory Server
  imports Ownership
begin

text \<open>
  The running program: one state that the MQTT callback, the workers of the task queue, the jobs
  of the cron library, the goroutines that write device states back, and the HTTP handlers all
  work on, in any order. A step is one run of one of them from beginning to end, whatever the
  database and the queue answer on the way: the interleavings are those of whole runs. (Those of
  single statements and commands are the subject of \<open>Statements\<close>, \<open>Locks\<close> and \<open>Interleaving\<close>.)

  Queue semantics (\<open>asynq\<close>): any waiting task may be taken by a worker. A task that succeeds is
  removed; one that fails stays for another try, or is given up.
\<close>

section \<open>State and steps\<close>

record ('r, 'c) system =
  sys_engine :: "('r, 'c) engine"
  sys_later :: "spawned list"
  sys_published :: "publish list"

datatype label =
    Mqtt string raw
  | DeviceTask env nat bool
  | EvaluationTask env orders bool nat bool
  | CronFires nat
  | WritesBack nat
  | Request draws string request
  | Elapses nat

definition remove_nth :: "nat \<Rightarrow> 'a list \<Rightarrow> 'a list" where
  "remove_nth i xs = take i xs @ drop (Suc i) xs"

definition settle_task :: "nat \<Rightarrow> task_result \<Rightarrow> bool \<Rightarrow> queue \<Rightarrow> queue" where
  "settle_task i res given_up q =
     (if res = TNil \<or> given_up then q\<lparr>q_tasks := remove_nth i (q_tasks q)\<rparr> else q)"

inductive sys_step ::
  "web_env \<Rightarrow> 'r redis_api \<Rightarrow> 'c cron_api \<Rightarrow> ('c \<Rightarrow> cron_view) \<Rightarrow> (string list \<Rightarrow> string list)
     \<Rightarrow> label \<Rightarrow> ('r, 'c) system \<Rightarrow> ('r, 'c) system \<Rightarrow> bool"
  for W :: web_env and R :: "'r redis_api" and C :: "'c cron_api" and entries :: "'c \<Rightarrow> cron_view"
    and iter :: "string list \<Rightarrow> string list"
where
  mqtt: "e = sys_engine s \<Longrightarrow>
    sys_step W R C entries iter (Mqtt topic payload) s
      (s\<lparr>sys_engine := e\<lparr>e_queue := onDeviceUpdate topic payload (e_queue e)\<rparr>\<rparr>)"
| device_task: "e = sys_engine s \<Longrightarrow> i < length (q_tasks (e_queue e)) \<Longrightarrow> t = q_tasks (e_queue e) ! i \<Longrightarrow>
    taskType t = ''device_update'' \<Longrightarrow>
    processDeviceUpdateTask E R (taskPayload t) (e_redis e) (e_db e) (e_queue e) = (res, r, d, q, later) \<Longrightarrow>
    sys_step W R C entries iter (DeviceTask E i given_up) s
      (s\<lparr>sys_engine := e\<lparr>e_redis := r, e_db := d, e_queue := settle_task i res given_up q\<rparr>,
         sys_later := sys_later s @ (case later of None \<Rightarrow> [] | Some x \<Rightarrow> [x])\<rparr>)"
| evaluation_task: "e = sys_engine s \<Longrightarrow> i < length (q_tasks (e_queue e)) \<Longrightarrow> t = q_tasks (e_queue e) ! i \<Longrightarrow>
    taskType t = ''evaluate_rule'' \<Longrightarrow> visit_order (o_targets ord) \<Longrightarrow> visit_order (o_resolved ord) \<Longrightarrow>
    evaluateAndExecuteTask E R ord client (taskPayload t) (e_redis e) (e_db e) = (res, ps, r, d) \<Longrightarrow>
    sys_step W R C entries iter (EvaluationTask E ord client i given_up) s
      (s\<lparr>sys_engine := e\<lparr>e_redis := r, e_db := d, e_queue := settle_task i res given_up (e_queue e)\<rparr>,
         sys_published := sys_published s @ ps\<rparr>)"
| cron_fires: "e = sys_engine s \<Longrightarrow> entries (s_cron (e_sched e)) n = Some (spec, j) \<Longrightarrow>
    sys_step W R C entries iter (CronFires n) s (s\<lparr>sys_engine := e\<lparr>e_queue := fire j (e_queue e)\<rparr>\<rparr>)"
| writes_back: "e = sys_engine s \<Longrightarrow> i < length (sys_later s) \<Longrightarrow> sys_later s ! i = UpdateStateLater v st \<Longrightarrow>
    sys_step W R C entries iter (WritesBack i) s
      (s\<lparr>sys_engine := e\<lparr>e_db := snd (UpdateDeviceState v st (e_db e))\<rparr>, sys_later := remove_nth i (sys_later s)\<rparr>)"
| request: "serve W R C iter dr authorization req (sys_engine s) = ((rs, ps), e) \<Longrightarrow>
    sys_step W R C entries iter (Request dr authorization req) s
      (s\<lparr>sys_engine := e, sys_published := sys_published s @ ps\<rparr>)"
| elapses: "e = sys_engine s \<Longrightarrow>
    sys_step W R C entries iter (Elapses n) s (s\<lparr>sys_engine := e\<lparr>e_redis := rc_elapse R n (e_redis e)\<rparr>\<rparr>)"

inductive_cases sys_stepE [elim]: "sys_step W R C entries iter l s s'"

inductive sys_runs ::
  "web_env \<Rightarrow> 'r redis_api \<Rightarrow> 'c cron_api \<Rightarrow> ('c \<Rightarrow> cron_view) \<Rightarrow> (string list \<Rightarrow> string list)
     \<Rightarrow> ('r, 'c) system \<Rightarrow> ('r, 'c) system \<Rightarrow> bool"
  for W :: web_env and R :: "'r redis_api" and C :: "'c cron_api" and entries :: "'c \<Rightarrow> cron_view"
    and iter :: "string list \<Rightarrow> string list"
where
  stays: "sys_runs W R C entries iter s s"
| steps: "sys_runs W R C entries iter s s1 \<Longrightarrow> sys_step W R C entries iter l s1 s2 \<Longrightarrow> sys_runs W R C entries iter s s2"

section \<open>What every handler keeps\<close>

text \<open>A task the program can have made: its payload decodes.\<close>

definition good_task :: "task \<Rightarrow> bool" where
  "good_task t \<longleftrightarrow> (\<exists>v m. jmap_ok m \<and> t = update_task v m) \<or> (\<exists>i v. t = evaluation_task i v)"

definition queue_good :: "queue \<Rightarrow> bool" where
  "queue_good q \<longleftrightarrow> (\<forall>t \<in> set (q_tasks q). good_task t)"

lemma queue_good_enqueue: "queue_good q \<Longrightarrow> good_task t \<Longrightarrow> queue_good (snd (enqueue t q))"
  by (auto simp: queue_good_def enqueue_def Let_def)

lemma queue_good_evaluation: "queue_good q \<Longrightarrow> queue_good (snd (EnqueueEvaluation i v q))"
  unfolding EnqueueEvaluation_def by (rule queue_good_enqueue) (auto simp: good_task_def)

lemma queue_good_evaluations: "queue_good q \<Longrightarrow> queue_good (enqueue_evaluations v ids q)"
  by (induction ids arbitrary: q) (simp_all add: queue_good_evaluation)

lemma queue_good_mqtt: "queue_good q \<Longrightarrow> queue_good (onDeviceUpdate topic payload q)"
proof (cases "unmarshal_map payload")
  case (Some m)
  assume q: "queue_good q"
  have "good_task (update_task v m)" for v using unmarshal_map_ok [OF Some] by (auto simp: good_task_def)
  with q Some show ?thesis by (simp add: onDeviceUpdate_def EnqueueDeviceUpdate_def queue_good_enqueue)
qed (simp add: onDeviceUpdate_def)

lemma queue_good_settle: "queue_good q \<Longrightarrow> queue_good (settle_task i res given_up q)"
  by (auto simp: queue_good_def settle_task_def remove_nth_def dest: in_set_takeD in_set_dropD)

lemma queue_good_trigger: "queue_good q \<Longrightarrow> queue_good (TriggerRuleEvaluation i q)"
  by (simp add: TriggerRuleEvaluation_def queue_good_evaluation)

text \<open>
  The web server knows the engine as an \<open>EngineInterface\<close> only: refresh and remove a rule's
  associations, trigger its evaluation. What these three keep, and no statement on the tables can
  break, every request keeps.
\<close>

locale engine_interface =
  fixes R :: "'r redis_api" and C :: "'c cron_api" and iter :: "string list \<Rightarrow> string list" and I :: "('r, 'c) engine \<Rightarrow> bool"
  assumes tables_free: "I (e\<lparr>e_db := d\<rparr>) = I e"
    and refresh_kept: "I e \<Longrightarrow> I (snd (RefreshRuleAssociations R C iter i e))"
    and remove_kept: "I e \<Longrightarrow> I (snd (RemoveRuleAssociations R C i e))"
    and trigger_kept: "I e \<Longrightarrow> I (e\<lparr>e_queue := TriggerRuleEvaluation i (e_queue e)\<rparr>)"
begin

lemma notify_kept: "I e \<Longrightarrow> I (notify_engine R C iter x e)"
  using refresh_kept [of e "rID x"] by (simp add: notify_engine_def trigger_kept case_prod_unfold)

lemma rule_handlers_kept:
  assumes "I e"
  shows "I (snd (post_rule W R C iter uid body e))" and "I (snd (patch_rule W R C iter uid i body e))"
    and "I (snd (delete_rule_route R C uid i e))"
  using assms remove_kept [OF assms, of i]
  by (auto simp: post_rule_def patch_rule_def delete_rule_route_def Let_def tables_free notify_kept case_prod_unfold
      split: option.split sum.split)

lemma handle_kept: "I e \<Longrightarrow> I (snd (handle W R C iter req uid e))"
  by (cases req) (simp_all add: on_db_def quiet_def tables_free rule_handlers_kept case_prod_unfold)

lemma serve_kept:
  assumes "I e"
  shows "I (snd (serve W R C iter dr authorization req e))"
proof -
  have "I (snd (RequireAuth W now authorization (handle W R C iter req) e))" for now
    using assms by (simp add: RequireAuth_def handle_kept split: sum.split)
  with assms show ?thesis by (cases req) (simp_all add: serve_def on_db_def tables_free case_prod_unfold)
qed

end

text \<open>Refreshing and removing queue nothing, and what is triggered has a handler.\<close>

interpretation queue: engine_interface R C iter "\<lambda>e. queue_good (e_queue e)"
  for R :: "'r redis_api" and C :: "'c cron_api" and iter
proof
  fix e :: "('r, 'c) engine" and i and d :: db
  have "e_queue (snd (RemoveRuleAssociations R C i e)) = e_queue e"
    by (simp add: RemoveRuleAssociations_def on_schedules_def case_prod_unfold split: sum.split)
  then show "queue_good (e_queue e) \<Longrightarrow> queue_good (e_queue (snd (RemoveRuleAssociations R C i e)))" by simp
qed (simp_all add: engine_db_frame(1) queue_good_trigger)

lemmas serve_queue = queue.serve_kept

lemma keeps_device_writes:
  "keeps d (snd (UpdateDeviceState v st d))" "keeps d (snd (InsertDevice v n ty topic st d))"
proof -
  have ids: "map dev_ID (map_rows (\<lambda>x. dev_ID x = v) (\<lambda>x. x\<lparr>dev_State := Some st\<rparr>) rows) = map dev_ID rows" for rows
    by (induction rows) (simp_all add: map_rows_def)
  have owners: "dev_OwnerID x \<in> insert None (Some ` urID ` set (t_users d))"
    if "tables_ok d" "x \<in> set (map_rows (\<lambda>x. dev_ID x = v) (\<lambda>x. x\<lparr>dev_State := Some st\<rparr>) (t_devices d))" for x d
  proof -
    from that(2) obtain y where "y \<in> set (t_devices d)" "dev_OwnerID x = dev_OwnerID y"
      by (auto simp: map_rows_def split: if_splits)
    with tables_ok_devices(2) [OF that(1), of y] show ?thesis by simp
  qed
  show "keeps d (snd (UpdateDeviceState v st d))"
    unfolding UpdateDeviceState_def
    by (intro keeps_exec, simp, intro keeps_devices) (use tables_ok_devices(1) owners in \<open>simp_all add: ids\<close>)
  show "keeps d (snd (InsertDevice v n ty topic st d))"
    unfolding InsertDevice_def
    by (intro keeps_exec) (auto intro!: keeps_devices dest: tables_ok_devices)
qed

lemma keeps_tick_writes:
  "keeps d (snd (InsertDevice v n ty topic st (tick d)))" "keeps d (tick (tick d))"
  using keeps_device_writes(2) [of "tick d"] keeps_trans [of d "tick d" "tick (tick d)"] by (simp_all only: keeps_tick)

lemma keeps_device_task:
  "processDeviceUpdateTask E R p r d q = (res, r', d', q', later) \<Longrightarrow> keeps d d'"
  by (auto simp: keeps_tick_writes processDeviceUpdateTask_def ProcessDeviceUpdate_def Let_def prod_eq_iff
      split: option.splits sum.splits prod.splits if_splits)

lemma keeps_evaluation_task:
  "evaluateAndExecuteTask E R ord client p r d = (res, ps, r', d') \<Longrightarrow> keeps d d'"
  by (auto simp: keeps_tick_writes evaluateAndExecuteTask_def Let_def prod_eq_iff
      split: option.splits sum.splits prod.splits if_splits go.splits bool.splits)

lemma device_task_queue:
  "processDeviceUpdateTask E R p r d q = (res, r', d', q', later) \<Longrightarrow> queue_good q \<Longrightarrow> queue_good q'"
  by (auto simp: processDeviceUpdateTask_def queue_good_evaluations split: option.splits prod.splits)

section \<open>Invariants of the running program\<close>

definition sys_ok :: "('c \<Rightarrow> cron_view) \<Rightarrow> (string \<Rightarrow> bool) \<Rightarrow> ('r, 'c) system \<Rightarrow> bool" where
  "sys_ok entries valid s \<longleftrightarrow> engine_ok entries valid (sys_engine s) \<and> queue_good (e_queue (sys_engine s))"

lemma engine_ok_run:
  assumes "engine_ok entries valid e" and "keeps (e_db e) d"
  shows "engine_ok entries valid (e\<lparr>e_redis := r, e_db := d, e_queue := q\<rparr>)"
  using engine_ok_keeps [OF assms] by (simp add: engine_ok_def)

lemma requests_ok:
  assumes "cron_service C entries valid" and "engine_ok entries valid e"
  shows "engine_ok entries valid (snd (serve W R C iter dr authorization req e))"
proof -
  have "engine_ok entries valid (snd (RequireAuth W now authorization (handle W R C iter req) e))" for now
    using handle_ok [OF assms] assms(2) by (simp add: RequireAuth_def split: sum.split)
  then show ?thesis
    using assms(2) by (cases req) (auto simp: serve_def intro!: on_db_ok handler_keeps)
qed

lemma step_ok:
  assumes C: "cron_service C entries valid" and ok: "sys_ok entries valid s" and step: "sys_step W R C entries iter l s s'"
  shows "sys_ok entries valid s'"
  using step
proof cases
  case (mqtt e topic payload)
  with ok show ?thesis by (simp add: sys_ok_def queue_good_mqtt)
next
  case (device_task e i t E res r d q later given_up)
  with ok engine_ok_run [OF _ keeps_device_task [OF device_task(7)]] device_task_queue [OF device_task(7)]
  show ?thesis by (simp add: sys_ok_def queue_good_settle)
next
  case (evaluation_task e i t ord E client res ps r d given_up)
  with ok engine_ok_run [OF _ keeps_evaluation_task [OF evaluation_task(9)]]
  show ?thesis by (simp add: sys_ok_def queue_good_settle)
next
  case (cron_fires e n spec j)
  with ok show ?thesis by (simp add: sys_ok_def fire_def queue_good_evaluation)
next
  case (writes_back e i v st)
  with ok engine_ok_keeps [OF _ keeps_device_writes(1), of entries valid "sys_engine s"] show ?thesis by (simp add: sys_ok_def)
next
  case (request dr authorization req rs ps e)
  with ok requests_ok [OF C, of "sys_engine s" W R iter dr authorization req]
    serve_queue [of "sys_engine s" W R C iter dr authorization req]
  show ?thesis by (simp add: sys_ok_def)
next
  case (elapses e n)
  with ok show ?thesis by (simp add: sys_ok_def)
qed

lemma runs_sys_ok:
  assumes "cron_service C entries valid" and "sys_ok entries valid s" and "sys_runs W R C entries iter s s'"
  shows "sys_ok entries valid s'"
  using assms(3,2) by induction (auto intro: step_ok [OF assms(1)])

lemma good_task_decodes:
  assumes "good_task t"
  shows "(taskType t = ''device_update'' \<and> unmarshal_dut (taskPayload t) \<noteq> None)
    \<or> (taskType t = ''evaluate_rule'' \<and> unmarshal_et (taskPayload t) \<noteq> None)"
  using assms unmarshal_update_task unmarshal_evaluation_task
  by (auto simp: good_task_def) (simp_all add: update_task_def evaluation_task_def)

text \<open>
  whatever happens, in any order, with any answers of database and queue: the tables stay well
  formed, the scheduler runs live schedules of the table only, and every task in the queue has
  a handler and a payload that this handler decodes.
\<close>

theorem system_invariant:
  assumes "cron_service C entries valid" and "engine_ok entries valid (sys_engine s)" and "q_tasks (e_queue (sys_engine s)) = []"
    and "sys_runs W R C entries iter s s'"
  shows "engine_ok entries valid (sys_engine s')
    \<and> (\<forall>t \<in> set (q_tasks (e_queue (sys_engine s'))).
        (taskType t = ''device_update'' \<and> unmarshal_dut (taskPayload t) \<noteq> None)
        \<or> (taskType t = ''evaluate_rule'' \<and> unmarshal_et (taskPayload t) \<noteq> None))"
proof -
  have "sys_ok entries valid s" using assms(2,3) by (simp add: sys_ok_def queue_good_def)
  from runs_sys_ok [OF assms(1) this assms(4)] good_task_decodes show ?thesis
    by (simp add: sys_ok_def queue_good_def)
qed

text \<open>The entries of a scheduler that is backed by the table.\<close>

lemma backed_entry:
  assumes "backed entries valid (s, d)" and "entries (s_cron s) n = Some (spec, j)"
  shows "\<exists>sch \<in> set (t_schedules d). sID sch = jobScheduleID j \<and> sRuleID sch = jobRuleID j
    \<and> sCronExpression sch = spec \<and> sEnabled sch \<and> jobRuleID j \<in> rrID ` set (t_rules d)"
proof -
  from assms(1) have ok: "sched_ok entries s" "db_ok d" and le: "sched_view entries s \<subseteq>\<^sub>m live valid (t_schedules d)"
    by (simp_all add: backed_def agree_def)
  have "map_of (s_jobMap s) (jobScheduleID j) = Some n"
    using ok(1) assms(2) by (simp add: sched_ok_def jobs_ok_def entry_owner_def)
  then have view: "sched_view entries s (jobScheduleID j) = Some (jobRuleID j, spec)"
    using assms(2) by (simp add: sched_view_def jobs_view_def)
  then have "sched_view entries s (jobScheduleID j) = live valid (t_schedules d) (jobScheduleID j)"
    using le by (intro map_le_def [THEN iffD1, rule_format]) auto
  with view have "live valid (t_schedules d) (jobScheduleID j) = Some (jobRuleID j, spec)" by simp
  then obtain sch where sch: "row_of (jobScheduleID j) (t_schedules d) = Some sch" "live_row valid sch = Some (jobRuleID j, spec)"
    by (auto simp: live_def split: option.splits)
  have "sch \<in> set (t_schedules d)" "sID sch = jobScheduleID j" using row_of_SomeD [OF sch(1)] by auto
  moreover have row: "sRuleID sch = jobRuleID j" "sCronExpression sch = spec" "sEnabled sch"
    using sch(2) by (auto simp: live_row_def split: if_splits)
  moreover have "jobRuleID j \<in> rrID ` set (t_rules d)"
    using ok(2) \<open>sch \<in> set (t_schedules d)\<close> row(1) unfolding db_ok_def by (metis image_subset_iff)
  ultimately show ?thesis by blast
qed

text \<open>
  C9: as long as handlers, tasks and jobs run one after the other, a cron entry that fires belongs to an
  enabled row of the schedule table with its expression, and the rule it has evaluated is in the
  rule table: no request, deletion or failure of a statement leaves an entry behind that nothing
  can remove. (Two requests at the same time can, because \<open>AddOrUpdateSchedule\<close> takes its lock twice:
  \<open>Locks.updates_race\<close>.)
\<close>

theorem fired_rules_exist:
  assumes "cron_service C entries valid" and "engine_ok entries valid (sys_engine s)" and "q_tasks (e_queue (sys_engine s)) = []"
    and "sys_runs W R C entries iter s s1" and "sys_step W R C entries iter (CronFires n) s1 s2"
  shows "\<exists>spec j. entries (s_cron (e_sched (sys_engine s1))) n = Some (spec, j)
    \<and> (\<exists>sch \<in> set (t_schedules (e_db (sys_engine s1))). sID sch = jobScheduleID j \<and> sRuleID sch = jobRuleID j
        \<and> sCronExpression sch = spec \<and> sEnabled sch)
    \<and> jobRuleID j \<in> rrID ` set (t_rules (e_db (sys_engine s1)))
    \<and> e_queue (sys_engine s2) = snd (EnqueueEvaluation (jobRuleID j) '''' (e_queue (sys_engine s1)))"
proof -
  have "sys_ok entries valid s" using assms(2,3) by (simp add: sys_ok_def queue_good_def)
  from runs_sys_ok [OF assms(1) this assms(4)]
  have b: "backed entries valid (e_sched (sys_engine s1), e_db (sys_engine s1))" by (simp add: sys_ok_def engine_ok_def)
  from assms(5) obtain spec j where j: "entries (s_cron (e_sched (sys_engine s1))) n = Some (spec, j)"
    "e_queue (sys_engine s2) = fire j (e_queue (sys_engine s1))" by cases auto
  from backed_entry [OF b j(1)] j show ?thesis by (auto simp: fire_def)
qed

section \<open>Why a command is sent\<close>

text \<open>An enabled rule of the table acts on the device; or the owner of the device asked for it.\<close>

definition rule_acts :: "db \<Rightarrow> publish \<Rightarrow> bool" where
  "rule_acts d p \<longleftrightarrow> (\<exists>row \<in> set (t_rules d). rrEnabled row = Some True
     \<and> (\<exists>a \<in> set (collectPendingActions (rrID row) (Some (rrActions row))). \<exists>ps. p = command (pDeviceID a) (JObj ps)))"

definition owner_asks :: "web_env \<Rightarrow> label \<Rightarrow> db \<Rightarrow> publish \<Rightarrow> bool" where
  "owner_asks W l d p \<longleftrightarrow> (\<exists>dr authorization body uid dev ps. l = Request dr authorization (Command (dev_ID dev) body)
     \<and> ValidateTokenJWT (w_auth W) (w_secret W) (dr_now dr) authorization = Inr uid
     \<and> dev \<in> set (t_devices d) \<and> dev_Accepted dev \<and> dev_OwnerID dev = Some uid \<and> p = command (dev_ID dev) ps)"

lemma read_rule_row:
  assumes "fst (GetRuleByID i d) = Inr rule" and "rEnabled rule"
  shows "\<exists>row \<in> set (t_rules d). rrEnabled row = Some True \<and> rID rule = rrID row \<and> rActions rule = Some (rrActions row)"
proof -
  let ?stmt = "where_int i (\<lambda>i d. filter (\<lambda>r. rrID r = i) (t_rules d))"
  from assms(1) obtain row where row: "fst (query_row ?stmt d) = Inr row" "scan_rule row = Inr rule"
    by (auto simp: GetRuleByID_def sum_bind_Inr split: prod.splits)
  from query_row_Inr [OF row(1)] have "row \<in> set (t_rules d)" by (auto simp: where_int_def split: option.splits)
  with row(2) assms(2) show ?thesis by (auto simp: scan_rule_Inr)
qed

lemma step_publishes:
  assumes "sys_step W R C entries iter l s s'"
  shows "\<exists>ps. sys_published s' = sys_published s @ ps
    \<and> (\<forall>p \<in> set ps. rule_acts (e_db (sys_engine s)) p \<or> owner_asks W l (e_db (sys_engine s)) p)"
  using assms
proof cases
  case (evaluation_task e i t ord E client res ps r d given_up)
  have "rule_acts (e_db (sys_engine s)) p" if "p \<in> set ps" for p
  proof -
    have pub: "p \<in> set (fst (snd (evaluateAndExecuteTask E R ord client (taskPayload t) (e_redis e) (e_db e))))"
      using that evaluation_task by simp
    obtain payload :: EvaluationTaskPayload and rule a kvs
      where "fst (GetRuleByID (etRuleID payload) (e_db e)) = Inr rule" "rEnabled rule"
        and a: "a \<in> set (collectPendingActions (rID rule) (rActions rule))" "p = command (pDeviceID a) (JObj kvs)"
      using task_publishes [OF evaluation_task(7,8) pub] by (elim exE conjE) (rule that)
    from read_rule_row [OF this(1,2)] obtain row where "row \<in> set (t_rules (e_db e))" "rrEnabled row = Some True"
      "a \<in> set (collectPendingActions (rrID row) (Some (rrActions row)))"
      using a(1) by auto
    with a(2) evaluation_task(3) show ?thesis unfolding rule_acts_def by blast
  qed
  with evaluation_task show ?thesis by auto
next
  case (request dr authorization req rs ps e)
  have "owner_asks W l (e_db (sys_engine s)) p" if "p \<in> set ps" for p
  proof -
    have "p \<in> set (snd (fst (serve W R C iter dr authorization req (sys_engine s))))" using that request by simp
    from web_publishes [OF this] request(1) show ?thesis by (auto simp: owner_asks_def)
  qed
  with request show ?thesis by auto
qed auto

lemma runs_published:
  assumes "sys_runs W R C entries iter s s'"
  shows "\<exists>ps. sys_published s' = sys_published s @ ps"
  using assms
proof induction
  case (steps s s1 l s2)
  from step_publishes [OF steps.hyps(2)] steps.IH show ?case by auto
qed simp

text \<open>
  C2: every command the program ever publishes has one of two reasons. In any run of whole handlers,
  tasks and jobs from a state in which nothing has been published, the \<open>n\<close>-th command was published by
  one step of this run, and in the state in which that step began there was an enabled rule in the
  table with an action on this device, or the step is a request with a valid token of the user who
  owns the accepted device. (An action may name any device: that of the rule's owner is not
  required.)
\<close>

theorem commands_have_reasons:
  assumes "sys_runs W R C entries iter s s'" and "sys_published s = []" and "n < length (sys_published s')"
  shows "\<exists>l s1 s2 ps. sys_runs W R C entries iter s s1 \<and> sys_step W R C entries iter l s1 s2 \<and> sys_runs W R C entries iter s2 s'
    \<and> length (sys_published s1) \<le> n \<and> n < length (sys_published s2) \<and> sys_published s' = sys_published s2 @ ps
    \<and> (rule_acts (e_db (sys_engine s1)) (sys_published s' ! n) \<or> owner_asks W l (e_db (sys_engine s1)) (sys_published s' ! n))"
  using assms
proof induction
  case (steps s s1 l s2)
  from step_publishes [OF steps.hyps(2)] obtain ps where ps: "sys_published s2 = sys_published s1 @ ps"
    "\<forall>p \<in> set ps. rule_acts (e_db (sys_engine s1)) p \<or> owner_asks W l (e_db (sys_engine s1)) p" by blast
  show ?case
  proof (cases "n < length (sys_published s1)")
    case True
    with steps.IH [OF steps.prems(1)] obtain l' t1 t2 qs where t: "sys_runs W R C entries iter s t1" "sys_step W R C entries iter l' t1 t2"
      "sys_runs W R C entries iter t2 s1" "length (sys_published t1) \<le> n" "n < length (sys_published t2)"
      "sys_published s1 = sys_published t2 @ qs"
      "rule_acts (e_db (sys_engine t1)) (sys_published s1 ! n) \<or> owner_asks W l' (e_db (sys_engine t1)) (sys_published s1 ! n)"
      by blast
    have "sys_runs W R C entries iter t2 s2" by (rule sys_runs.steps [OF t(3) steps.hyps(2)])
    moreover have "sys_published s2 ! n = sys_published s1 ! n" "sys_published s2 = sys_published t2 @ (qs @ ps)"
      using True ps(1) t(6) by (simp_all add: nth_append)
    ultimately show ?thesis using t by metis
  next
    case False
    then have "sys_published s2 ! n \<in> set ps" using ps(1) steps.prems(2) by (simp add: nth_append)
    with ps(2) have "rule_acts (e_db (sys_engine s1)) (sys_published s2 ! n) \<or> owner_asks W l (e_db (sys_engine s1)) (sys_published s2 ! n)"
      by blast
    moreover have "length (sys_published s1) \<le> n" "sys_published s2 = sys_published s2 @ []" using False by simp_all
    ultimately show ?thesis using steps.hyps steps.prems(2) sys_runs.stays by blast
  qed
qed simp

section \<open>A running program\<close>

definition demo_system :: "('r, 'c) engine \<Rightarrow> ('r, 'c) system" where
  "demo_system e = \<lparr>sys_engine = e, sys_later = [], sys_published = []\<rparr>"

lemma demo_system_fields [simp]:
  "sys_engine (demo_system e) = e" "sys_later (demo_system e) = []" "sys_published (demo_system e) = []"
  by (simp_all add: demo_system_def)

lemma system_invariant_witness:
  "\<exists>s'. sys_runs demo_web mem_redis mem_cron map_of rev (demo_system web_engine) s'
    \<and> length (q_tasks (e_queue (sys_engine s'))) = 1
    \<and> (\<forall>t \<in> set (q_tasks (e_queue (sys_engine s'))). unmarshal_dut (taskPayload t) \<noteq> None \<or> unmarshal_et (taskPayload t) \<noteq> None)"
proof -
  let ?s = "demo_system web_engine"
  let ?s' = "?s\<lparr>sys_engine := web_engine\<lparr>e_queue := onDeviceUpdate ''devices/lamp'' (Some (JObj [])) (e_queue web_engine)\<rparr>\<rparr>"
  have run: "sys_runs demo_web mem_redis mem_cron map_of rev ?s ?s'"
    by (rule sys_runs.steps [OF sys_runs.stays sys_step.mqtt]) simp
  have "length (q_tasks (e_queue (sys_engine ?s'))) = 1"
    by (simp add: onDeviceUpdate_def EnqueueDeviceUpdate_def demo_queue_def enqueue_def Let_def)
  moreover from system_invariant [OF mc.cron_service_axioms _ _ run] web_engine_ok
  have "\<forall>t \<in> set (q_tasks (e_queue (sys_engine ?s'))). unmarshal_dut (taskPayload t) \<noteq> None \<or> unmarshal_et (taskPayload t) \<noteq> None"
    by (auto simp: demo_queue_def)
  ultimately show ?thesis using run by blast
qed

definition clock_db :: db where
  "clock_db = web_db\<lparr>t_schedules := t_schedules demo_stale\<rparr>"

definition clock_engine :: "(mem, mem_entries) engine" where
  "clock_engine = web_engine\<lparr>e_db := clock_db, e_sched := fst (snd (LoadSchedules mem_cron (NewScheduler []) demo_stale))\<rparr>"

lemma clock_synced: "synced map_of mem_valid (e_sched clock_engine, demo_stale)"
proof -
  have "sched_view map_of (NewScheduler []) = Map.empty"
    by (simp add: sched_view_def jobs_view_def NewScheduler_def fun_eq_iff)
  from mc.LoadSchedules_agree(2) [OF demo_scheduler_ok this demo_stale_ok(1,2)]
  show ?thesis by (simp add: synced_def clock_engine_def LoadSchedules_def GetAllSchedules_up demo_stale_ok)
qed

lemma clock_engine_ok: "engine_ok map_of mem_valid clock_engine"
proof -
  have "db_ok clock_db" using demo_stale_ok(1) web_tables_ok
    by (simp add: db_ok_def clock_db_def demo_stale_ok tables_ok_def) (simp add: demo_stale_def demo_rules_def demo_db_def)
  moreover have "users_ok clock_db" "owners_ok clock_db"
    using web_tables_ok by (simp_all add: tables_ok_def users_ok_def owners_ok_def clock_db_def)
  ultimately show ?thesis using synced_backed [OF clock_synced]
    by (simp add: engine_ok_def tables_ok_def backed_def agree_def clock_engine_def clock_db_def)
qed

lemma fired_rules_exist_witness:
  "\<exists>n s2 (j :: job). sys_step demo_web mem_redis mem_cron map_of rev (CronFires n) (demo_system clock_engine) s2
    \<and> e_queue (sys_engine s2) = snd (EnqueueEvaluation (jobRuleID j) '''' (e_queue clock_engine))
    \<and> jobRuleID j \<in> rrID ` set (t_rules clock_db)"
proof -
  let ?m = "s_jobMap (e_sched clock_engine)"
  have "sched_view map_of (e_sched clock_engine) ''3'' = Some (''7'', ''0 8 * * *'')"
    using clock_synced by (simp add: synced_def agree_def demo_stale_ok live_def live_row_def row_of_Cons mem_valid_def)
  then obtain n spec j where n: "map_of (s_cron (e_sched clock_engine)) n = Some (spec, j)"
    by (auto simp: sched_view_def jobs_view_def split: option.splits)
  let ?s2 = "(demo_system clock_engine)\<lparr>sys_engine := clock_engine\<lparr>e_queue := fire j (e_queue clock_engine)\<rparr>\<rparr>"
  have step: "sys_step demo_web mem_redis mem_cron map_of rev (CronFires n) (demo_system clock_engine) ?s2"
    by (rule sys_step.cron_fires [where e = clock_engine and spec = spec]) (simp_all add: n)
  have f: "e_db clock_engine = clock_db" "q_tasks (e_queue clock_engine) = []"
    by (simp_all add: clock_engine_def demo_queue_def)
  from fired_rules_exist [OF mc.cron_service_axioms _ _ sys_runs.stays step] clock_engine_ok n
  have "jobRuleID j \<in> rrID ` set (t_rules clock_db)" by (auto simp: f)
  moreover have "e_queue (sys_engine ?s2) = snd (EnqueueEvaluation (jobRuleID j) '''' (e_queue clock_engine))"
    by (simp add: fire_def)
  ultimately show ?thesis using step by blast
qed

lemma commands_have_reasons_witness:
  "\<exists>s' l s1 s2. sys_runs demo_web mem_redis mem_cron map_of rev (demo_system own_engine) s'
    \<and> sys_published s' = [command ''lamp'' (JObj [])]
    \<and> sys_runs demo_web mem_redis mem_cron map_of rev (demo_system own_engine) s1
    \<and> sys_step demo_web mem_redis mem_cron map_of rev l s1 s2
    \<and> sys_runs demo_web mem_redis mem_cron map_of rev s2 s' \<and> sys_published s1 = [] \<and> sys_published s2 = sys_published s'
    \<and> (rule_acts (e_db (sys_engine s1)) (command ''lamp'' (JObj []))
        \<or> owner_asks demo_web l (e_db (sys_engine s1)) (command ''lamp'' (JObj [])))"
proof -
  let ?s = "demo_system own_engine" and ?req = "Command ''lamp'' (Some (JObj []))"
  obtain rs ps e where run: "serve demo_web mem_redis mem_cron rev demo_draws (toy_token ''key'' 1 5000 0) ?req (sys_engine ?s)
      = ((rs, ps), e)" by (metis prod.collapse)
  have "snd (fst (command_device demo_web ''1'' ''lamp'' (Some (JObj [])) (e_db own_engine))) = [command ''lamp'' (JObj [])]"
    using command_sent [of "e_db own_engine" "''lamp''" "(demo_lamp True)\<lparr>dev_OwnerID := Some ''1''\<rparr>" "''1''" "Some (JObj [])" "Some []" demo_web]
    by (simp add: own_engine_def db_up_def matching_def obj_map_def marshal_map_def demo_web_def)
      (simp add: demo_lamp_def web_db_def demo_rules_def demo_db_def)
  then have "snd (fst (serve demo_web mem_redis mem_cron rev demo_draws (toy_token ''key'' 1 5000 0) ?req (sys_engine ?s)))
      = [command ''lamp'' (JObj [])]"
    unfolding serve_command [OF demo_token(1)] by simp
  with run have ps: "ps = [command ''lamp'' (JObj [])]" unfolding run by simp
  let ?s' = "?s\<lparr>sys_engine := e, sys_published := sys_published ?s @ ps\<rparr>"
  have runs: "sys_runs demo_web mem_redis mem_cron map_of rev ?s ?s'"
    by (rule sys_runs.steps [OF sys_runs.stays sys_step.request [OF run]])
  have pub: "sys_published ?s' = [command ''lamp'' (JObj [])]" using ps by simp
  then have "0 < length (sys_published ?s')" by simp
  from commands_have_reasons [OF runs _ this] obtain l s1 s2 qs where run: "sys_runs demo_web mem_redis mem_cron map_of rev ?s s1"
    "sys_step demo_web mem_redis mem_cron map_of rev l s1 s2" "sys_runs demo_web mem_redis mem_cron map_of rev s2 ?s'"
    "sys_published s1 = []" "sys_published s2 \<noteq> []" "sys_published ?s' = sys_published s2 @ qs"
    "rule_acts (e_db (sys_engine s1)) (sys_published ?s' ! 0) \<or> owner_asks demo_web l (e_db (sys_engine s1)) (sys_published ?s' ! 0)"
    by auto
  moreover have "sys_published ?s' ! 0 = command ''lamp'' (JObj [])" "sys_published s2 = sys_published ?s'"
    using pub run(5,6) by (cases "sys_published s2"; simp)+
  ultimately show ?thesis using runs pub by metis
qed

section \<open>The workers come to rest\<close>

lemma filter_remove_nth:
  assumes "i < length xs"
  shows "length (filter p xs) = length (filter p (remove_nth i xs)) + (if p (xs ! i) then 1 else 0)"
proof -
  have "xs = take i xs @ xs ! i # drop (Suc i) xs" using assms by (rule id_take_nth_drop)
  then have "length (filter p xs) = length (filter p (take i xs @ xs ! i # drop (Suc i) xs))" by simp
  then show ?thesis by (simp add: remove_nth_def)
qed

text \<open>
  A task that fails is tried again, at most \<open>limit\<close> times (\<open>asynq\<close>: 25, unless a task says otherwise, and
  none does), and given up then. \<open>tries ! i\<close> counts the failures of the \<open>i\<close>-th task. A task that
  succeeds or is given up leaves the queue, and the tasks it has made start at none.
\<close>

definition tries_after :: "nat \<Rightarrow> task list \<Rightarrow> task list \<Rightarrow> nat list \<Rightarrow> nat list" where
  "tries_after i ts ts' tries =
     (if ts' = ts then tries[i := Suc (tries ! i)]
      else remove_nth i tries @ replicate (Suc (length ts') - length ts) 0)"

inductive works ::
  "nat \<Rightarrow> web_env \<Rightarrow> 'r redis_api \<Rightarrow> 'c cron_api \<Rightarrow> ('c \<Rightarrow> cron_view) \<Rightarrow> (string list \<Rightarrow> string list)
     \<Rightarrow> ('r, 'c) system \<times> nat list \<Rightarrow> ('r, 'c) system \<times> nat list \<Rightarrow> bool"
  for limit :: nat and W :: web_env and R :: "'r redis_api" and C :: "'c cron_api" and entries :: "'c \<Rightarrow> cron_view"
    and iter :: "string list \<Rightarrow> string list"
where
  takes: "sys_step W R C entries iter l s s' \<Longrightarrow> ts = q_tasks (e_queue (sys_engine s)) \<Longrightarrow> ts' = q_tasks (e_queue (sys_engine s')) \<Longrightarrow>
    l = DeviceTask E i given_up \<or> l = EvaluationTask E ord client i given_up \<Longrightarrow> length tries = length ts \<Longrightarrow>
    given_up = (limit \<le> tries ! i) \<Longrightarrow>
    works limit W R C entries iter (s, tries) (s', tries_after i ts ts' tries)"

lemma enqueue_evaluations_append:
  "\<exists>ts. q_tasks (enqueue_evaluations v ids q) = q_tasks q @ ts \<and> (\<forall>t \<in> set ts. taskType t = ''evaluate_rule'')"
proof (induction ids arbitrary: q)
  case (Cons i ids)
  obtain us where us: "q_tasks (snd (EnqueueEvaluation i v q)) = q_tasks q @ us" "set us \<subseteq> {evaluation_task i v}"
    using enqueue_prefix [of "evaluation_task i v" q] by (auto simp: EnqueueEvaluation_def)
  from Cons [of "snd (EnqueueEvaluation i v q)"] obtain ts
    where "q_tasks (enqueue_evaluations v (i # ids) q) = q_tasks q @ us @ ts" "\<forall>t \<in> set ts. taskType t = ''evaluate_rule''"
    using us(1) by auto
  moreover have "\<forall>t \<in> set us. taskType t = ''evaluate_rule''" using us(2) by (auto simp: evaluation_task_def)
  ultimately show ?case by (intro exI [of _ "us @ ts"]) auto
qed simp

lemma device_task_appends:
  assumes "processDeviceUpdateTask E R p r d q = (res, r', d', q', later)"
  shows "\<exists>ts. q_tasks q' = q_tasks q @ ts \<and> (\<forall>t \<in> set ts. taskType t = ''evaluate_rule'') \<and> (res \<noteq> TNil \<longrightarrow> ts = [])"
  using assms enqueue_evaluations_append
  by (auto simp: processDeviceUpdateTask_def split: option.splits prod.splits)

text \<open>What a step of a worker does to the queue: the task stays if it failed and may be tried again.\<close>

lemma task_queue:
  assumes "sys_step W R C entries iter l s s'" and "l = DeviceTask E i given_up \<or> l = EvaluationTask E ord client i given_up"
    and "ts = q_tasks (e_queue (sys_engine s))" and "ts' = q_tasks (e_queue (sys_engine s'))"
  obtains (kept) "i < length ts" and "\<not> given_up" and "ts' = ts"
    | (gone) new where "i < length ts" and "ts' = remove_nth i ts @ new" and "\<forall>t \<in> set new. taskType t = ''evaluate_rule''"
        and "new \<noteq> [] \<Longrightarrow> taskType (ts ! i) = ''device_update''"
  using assms(1)
proof cases
  case (device_task e k t E' res r d q later given)
  obtain new where new: "q_tasks q = q_tasks (e_queue e) @ new" "\<forall>t \<in> set new. taskType t = ''evaluate_rule''" "res \<noteq> TNil \<longrightarrow> new = []"
    using device_task_appends [OF device_task(7)] by blast
  have i: "k = i" "given = given_up" using assms(2) device_task(1) by auto
  have split: "remove_nth i (q_tasks (e_queue e) @ new) = remove_nth i (q_tasks (e_queue e)) @ new"
    using device_task(4) i by (simp add: remove_nth_def)
  show thesis
  proof (cases "res = TNil \<or> given_up")
    case True
    then show thesis
      using assms(3,4) device_task(2-6) new split i by (intro gone [of new]) (simp_all add: settle_task_def)
  next
    case False
    then show thesis
      using assms(3,4) device_task(2-6) new i by (intro kept) (simp_all add: settle_task_def)
  qed
next
  case (evaluation_task e k t ord' E' client' res ps r d given)
  have i: "k = i" "given = given_up" using assms(2) evaluation_task(1) by auto
  show thesis
  proof (cases "res = TNil \<or> given_up")
    case True
    then show thesis
      using assms(3,4) evaluation_task(2-6) i by (intro gone [of "[]"]) (simp_all add: settle_task_def)
  next
    case False
    then show thesis
      using assms(3,4) evaluation_task(2-6) i by (intro kept) (simp_all add: settle_task_def)
  qed
qed (use assms(2) in auto)

text \<open>The tries that the tasks of a type have left.\<close>

definition tries_left :: "nat \<Rightarrow> string \<Rightarrow> task list \<Rightarrow> nat list \<Rightarrow> nat" where
  "tries_left limit ty ts tries = sum_list (map (\<lambda>(t, n). if taskType t = ty then Suc (limit - n) else 0) (zip ts tries))"

lemma tries_left_remove:
  assumes "length tries = length ts" and "i < length ts"
  shows "tries_left limit ty ts tries
    = tries_left limit ty (remove_nth i ts) (remove_nth i tries) + (if taskType (ts ! i) = ty then Suc (limit - tries ! i) else 0)"
proof -
  have "ts = take i ts @ ts ! i # drop (Suc i) ts" "tries = take i tries @ tries ! i # drop (Suc i) tries"
    using assms id_take_nth_drop by metis+
  then have "tries_left limit ty ts tries
      = tries_left limit ty (take i ts @ ts ! i # drop (Suc i) ts) (take i tries @ tries ! i # drop (Suc i) tries)" by simp
  with assms show ?thesis by (simp add: tries_left_def remove_nth_def)
qed

lemma tries_left_append:
  "length tries = length ts \<Longrightarrow> \<forall>t \<in> set new. taskType t \<noteq> ty \<Longrightarrow>
     tries_left limit ty (ts @ new) (tries @ extra) = tries_left limit ty ts tries"
  by (auto simp: tries_left_def sum_list_eq_0_iff dest: set_zip_leftD)

lemma tries_left_again:
  assumes "length tries = length ts" and "i < length ts" and "tries ! i < limit"
  shows "tries_left limit (taskType (ts ! i)) ts (tries[i := Suc (tries ! i)]) < tries_left limit (taskType (ts ! i)) ts tries"
    and "ty \<noteq> taskType (ts ! i) \<Longrightarrow> tries_left limit ty ts (tries[i := Suc (tries ! i)]) = tries_left limit ty ts tries"
proof -
  have rest: "remove_nth i (tries[i := n]) = remove_nth i tries" for n by (simp add: remove_nth_def)
  show "tries_left limit (taskType (ts ! i)) ts (tries[i := Suc (tries ! i)]) < tries_left limit (taskType (ts ! i)) ts tries"
    and "ty \<noteq> taskType (ts ! i) \<Longrightarrow> tries_left limit ty ts (tries[i := Suc (tries ! i)]) = tries_left limit ty ts tries"
    using assms tries_left_remove [of tries ts i limit] tries_left_remove [of "tries[i := Suc (tries ! i)]" ts i limit]
    by (simp_all add: rest)
qed

lemma task_types:
  assumes "sys_step W R C entries iter l s s'" and "l = DeviceTask E i given_up \<or> l = EvaluationTask E ord client i given_up"
  shows "taskType (q_tasks (e_queue (sys_engine s)) ! i) \<in> {''device_update'', ''evaluate_rule''}"
  using assms by (auto elim!: sys_stepE)

lemma works_decreases:
  assumes "works limit W R C entries iter (s, tries) (s', tries')"
  shows "((tries_left limit ''device_update'' (q_tasks (e_queue (sys_engine s'))) tries',
           tries_left limit ''evaluate_rule'' (q_tasks (e_queue (sys_engine s'))) tries'),
          (tries_left limit ''device_update'' (q_tasks (e_queue (sys_engine s))) tries,
           tries_left limit ''evaluate_rule'' (q_tasks (e_queue (sys_engine s))) tries)) \<in> less_than <*lex*> less_than"
  using assms
proof cases
  case (takes l ts ts' E i given_up ord client)
  note type = task_types [OF takes(2,5), folded takes(3)]
  from takes(2,5,3,4) show ?thesis
  proof (cases rule: task_queue)
    case kept
    then have "tries' = tries[i := Suc (tries ! i)]" "tries ! i < limit" using takes(1,7) by (simp_all add: tries_after_def)
    with tries_left_again [OF takes(6) kept(1)] type takes(3,4) kept(3) show ?thesis by auto
  next
    case (gone new)
    let ?old = "remove_nth i ts" and ?tries = "remove_nth i tries"
    have len: "length ?tries = length ?old" using takes(6) gone(1) by (simp add: remove_nth_def)
    have "Suc (length ?old) = length ts" using gone(1) by (simp add: remove_nth_def)
    moreover have "ts' \<noteq> ts"
    proof
      assume same: "ts' = ts"
      from arg_cong [OF this, of length] gone(2) \<open>Suc (length ?old) = length ts\<close> have "new \<noteq> []" by auto
      with gone(4) have "taskType (ts ! i) = ''device_update''" by simp
      moreover have "filter (\<lambda>t. taskType t = ''device_update'') new = []" using gone(3) by (simp add: filter_empty_conv)
      then have "filter (\<lambda>t. taskType t = ''device_update'') (?old @ new) = filter (\<lambda>t. taskType t = ''device_update'') ?old"
        by simp
      then have "filter (\<lambda>t. taskType t = ''device_update'') ts = filter (\<lambda>t. taskType t = ''device_update'') ?old"
        using same gone(2) by metis
      ultimately show False using filter_remove_nth [OF gone(1), of "\<lambda>t. taskType t = ''device_update''"] by simp
    qed
    ultimately have tries': "tries' = ?tries @ replicate (length new) 0" using takes(1) gone(2) by (simp add: tries_after_def)
    show ?thesis
    proof (cases "taskType (ts ! i) = ''device_update''")
      case True
      then have "tries_left limit ''device_update'' ts' tries' < tries_left limit ''device_update'' ts tries"
        using tries_left_remove [OF takes(6) gone(1), of limit "''device_update''"] tries_left_append [OF len, of new] gone(2,3)
        by (simp add: tries')
      with takes(3,4) show ?thesis by simp
    next
      case False
      with gone(4) have "new = []" by blast
      with False type tries_left_remove [OF takes(6) gone(1), of limit] gone(2) takes(3,4) show ?thesis by (auto simp: tries')
    qed
  qed
qed

text \<open>A worker can go on as long as a task of the program is left.\<close>

lemma works_on:
  assumes "queue_good (e_queue (sys_engine s))" and "length tries = length (q_tasks (e_queue (sys_engine s)))"
    and "q_tasks (e_queue (sys_engine s)) \<noteq> []"
  shows "\<exists>x. works limit W R C entries iter (s, tries) x"
proof -
  let ?e = "sys_engine s" and ?up = "limit \<le> tries ! 0"
  let ?t = "q_tasks (e_queue ?e) ! 0"
  have "good_task ?t" using assms(1,3) by (simp add: queue_good_def)
  with good_task_decodes consider "taskType ?t = ''device_update''" | "taskType ?t = ''evaluate_rule''" by blast
  then have "\<exists>l s' E ord client. sys_step W R C entries iter l s s' \<and> (l = DeviceTask E 0 ?up \<or> l = EvaluationTask E ord client 0 ?up)"
  proof cases
    case 1
    fix E
    obtain res r d q later where "processDeviceUpdateTask E R (taskPayload ?t) (e_redis ?e) (e_db ?e) (e_queue ?e) = (res, r, d, q, later)"
      by (metis prod_cases5)
    from sys_step.device_task [OF refl _ refl 1 this, of W C entries iter ?up] assms(3) show ?thesis by blast
  next
    case 2
    fix E client
    let ?ord = "\<lparr>o_fields = id, o_targets = id, o_resolved = id\<rparr>"
    obtain res ps r d where "evaluateAndExecuteTask E R ?ord client (taskPayload ?t) (e_redis ?e) (e_db ?e) = (res, ps, r, d)"
      by (metis prod_cases4)
    from sys_step.evaluation_task [OF refl _ refl 2 _ _ this, of W C entries iter ?up] assms(3) show ?thesis
      by (auto simp: visit_order_def)
  qed
  then show ?thesis using works.takes [OF _ refl refl _ assms(2) refl] by blast
qed

text \<open>
  C28: the workers come to rest. Without new reports, requests or alarms, taking tasks from the queue in
  any order ends after finitely many tries, whichever fail, if a task that keeps failing is
  given up after a number of tries; for a device task makes evaluation tasks, an evaluation task
  makes none. And they rest only when the queue is empty, if it holds tasks of the program only.
\<close>

theorem workers_come_to_rest:
  "wfP (\<lambda>x' x. works limit W R C entries iter x x')
   \<and> (queue_good (e_queue (sys_engine s)) \<and> length tries = length (q_tasks (e_queue (sys_engine s)))
        \<and> (\<nexists>x. works limit W R C entries iter (s, tries) x) \<longrightarrow> q_tasks (e_queue (sys_engine s)) = [])"
proof -
  let ?m = "\<lambda>(s, tries). (tries_left limit ''device_update'' (q_tasks (e_queue (sys_engine s))) tries,
    tries_left limit ''evaluate_rule'' (q_tasks (e_queue (sys_engine s))) tries)"
  have "wf (inv_image (less_than <*lex*> less_than) ?m)" by (intro wf_inv_image wf_lex_prod wf_less_than)
  then have "wfP (\<lambda>x' x. works limit W R C entries iter x x')" unfolding wfp_def
    by (rule wf_subset) (use works_decreases in \<open>fastforce simp: in_inv_image\<close>)
  with works_on show ?thesis by blast
qed

lemma workers_come_to_rest_witness:
  "\<exists>x. works 25 demo_web mem_redis mem_cron map_of rev
     (demo_system (web_engine\<lparr>e_queue := demo_queue\<lparr>q_tasks := [evaluation_task ''7'' '''']\<rparr>\<rparr>), [0]) x"
proof -
  let ?s = "demo_system (web_engine\<lparr>e_queue := demo_queue\<lparr>q_tasks := [evaluation_task ''7'' '''']\<rparr>\<rparr>)"
  have "queue_good (e_queue (sys_engine ?s))" by (auto simp: queue_good_def good_task_def)
  with workers_come_to_rest [of 25 demo_web mem_redis mem_cron map_of rev ?s "[0]"] show ?thesis by auto
qed

end
