(* ===== verification/Lifetime.thy ===== *)
theory Lifetime
  imports Server
begin

text \<open>
  The rules stay in force. \<open>in_force\<close> says that Redis, the scheduler and the tables agree: the
  rule set of every device is that of the rule table, and the scheduler runs exactly the live
  schedules. A start whose database answers establishes it, and every step of the running
  program keeps it, as long as database and Redis work and nobody deletes a rule that is not
  his (\<open>runs_in_force\<close>); so reports keep counting. \<open>Program\<close> carries this back to the start.
\<close>

section \<open>Rule sets that last\<close>

text \<open>The keys of the rule sets hold no string and do not expire.\<close>

definition lasting :: "rview \<Rightarrow> bool" where
  "lasting w \<longleftrightarrow> (\<forall>v. \<not> holds_string w (rules_key v) \<and> key_ttl w (rules_key v) = None)"

definition same_rule_sets :: "rview \<Rightarrow> rview \<Rightarrow> bool" where
  "same_rule_sets w w' \<longleftrightarrow> (\<forall>v. w' (rules_key v) = w (rules_key v))"

lemma same_rule_sets_refl [simp]: "same_rule_sets w w"
  by (simp add: same_rule_sets_def)

lemma same_rule_sets_keep:
  assumes "same_rule_sets w w'"
  shows "lasting w' = lasting w" and "associations w' v = associations w v"
  using assms
  by (simp_all add: same_rule_sets_def lasting_def associations_def holds_string_def key_string_def key_members_def key_ttl_def)

lemma lasting_typed: "lasting w \<Longrightarrow> rules_typed w"
  by (simp add: lasting_def rules_typed_def)

lemma lasting_put: "lasting w \<Longrightarrow> lasting (put_members k S (key_ttl w k) w)"
  by (auto simp: lasting_def) (auto simp: key_ttl_def put_members_def split: if_splits)

lemma same_rule_sets_age:
  assumes "lasting w"
  shows "same_rule_sets w (\<lambda>k. age n (w k))"
proof -
  have "age n (w (rules_key v)) = w (rules_key v)" for v
  proof (cases "w (rules_key v)")
    case (Some x)
    moreover from assms have "key_ttl w (rules_key v) = None" by (simp add: lasting_def)
    ultimately show ?thesis by (cases x) (simp add: age_def key_ttl_def)
  qed (simp add: age_def)
  then show ?thesis by (simp add: same_rule_sets_def)
qed

context redis_server begin

lemma lasting_sadd: "lasting (view r) \<Longrightarrow> lasting (view (snd (rc_sadd R k i r)))"
  by (cases "holds_string (view r) k") (simp_all add: sadd_string sadd_view lasting_put)

lemma lasting_srem: "lasting (view r) \<Longrightarrow> lasting (view (snd (rc_srem R k i r)))"
  by (cases "holds_string (view r) k") (simp_all add: srem_string srem_view lasting_put)

text \<open>The set commands are all that the engine's operations use: what they keep, refreshing and removing keep.\<close>

lemma sadd_devices_keeps:
  assumes "\<And>k m r. P (view r) \<Longrightarrow> P (view (snd (rc_sadd R k m r)))" and "P (view r)"
  shows "P (view (sadd_devices R i ds r))"
  using assms(2) unfolding sadd_devices_def by (induction ds arbitrary: r) (simp_all add: assms(1))

lemma srem_keys_keeps:
  assumes "\<And>k m r. P (view r) \<Longrightarrow> P (view (snd (rc_srem R k m r)))" and "P (view r)"
  shows "P (view (srem_keys R i ks r))"
  using assms(2) unfolding srem_keys_def by (induction ks arbitrary: r) (simp_all add: assms(1))

lemma refresh_keeps:
  fixes e :: "('r, 'c) engine"
  assumes sadd: "\<And>k m r. P (view r) \<Longrightarrow> P (view (snd (rc_sadd R k m r)))"
    and srem: "\<And>k m r. P (view r) \<Longrightarrow> P (view (snd (rc_srem R k m r)))" and "P (view (e_redis e))"
  shows "P (view (e_redis (snd (RefreshRuleAssociations R C iter i e))))"
  using assms(3) sadd_devices_keeps [of P, OF sadd] srem_keys_keeps [of P, OF srem]
  by (auto simp: RefreshRuleAssociations_def on_schedules_def Let_def split: prod.split sum.split option.split)

lemma remove_keeps:
  fixes e :: "('r, 'c) engine"
  assumes srem: "\<And>k m r. P (view r) \<Longrightarrow> P (view (snd (rc_srem R k m r)))" and "P (view (e_redis e))"
  shows "P (view (e_redis (snd (RemoveRuleAssociations R C i e))))"
  using assms(2) srem_keys_keeps [of P, OF srem]
  by (auto simp: RemoveRuleAssociations_def on_schedules_def split: prod.split sum.split)

lemma lasting_associate: "lasting (view r) \<Longrightarrow> lasting (view (associate_rule R iter x r))"
  by (simp add: associate_rule_def sadd_devices_keeps [of lasting, OF lasting_sadd] split: option.split)

lemma lasting_refresh:
  fixes e :: "('r, 'c) engine"
  shows "lasting (view (e_redis e)) \<Longrightarrow> lasting (view (e_redis (snd (RefreshRuleAssociations R C iter i e))))"
  by (rule refresh_keeps [of lasting, OF lasting_sadd lasting_srem])

lemma lasting_remove:
  fixes e :: "('r, 'c) engine"
  shows "lasting (view (e_redis e)) \<Longrightarrow> lasting (view (e_redis (snd (RemoveRuleAssociations R C i e))))"
  by (rule remove_keeps [of lasting, OF lasting_srem])

text \<open>Populating starts from empty rule sets, whatever the keys held.\<close>

lemma lasting_populate:
  assumes "populateDeviceRuleAssociations R iter e = (True, e')"
  shows "lasting (view (e_redis e'))"
proof -
  obtain ks where ks: "rc_keys R (e_redis e) rules_pattern = Inr ks" "set ks = range rules_key \<inter> dom (view (e_redis e))"
    by (rule rules_keys)
  have "view (del_keys R ks (e_redis e)) (rules_key v) = None" for v
    using ks(2) by (cases "view (e_redis e) (rules_key v)") (auto simp: view_del_keys)
  then have "lasting (view (del_keys R ks (e_redis e)))"
    by (simp add: lasting_def holds_string_def key_string_def key_ttl_def)
  then have "lasting (view (fold (associate_rule R iter) rules (del_keys R ks (e_redis e))))" for rules
    by (induction rules arbitrary: ks rule: rev_induct) (simp_all add: lasting_associate)
  with assms ks(1) show ?thesis
    by (auto simp: populateDeviceRuleAssociations_def split: prod.splits sum.splits)
qed

end

section \<open>Evaluations leave the rule sets alone\<close>

lemma time_keys_rule_sets: "time_keys_only w w' \<Longrightarrow> same_rule_sets w w'"
  by (simp add: time_keys_only_def same_rule_sets_def rules_key_def)

context redis_server begin

lemma eval_leaf_keys: "\<exists>r'. snd (eval_leaf E R (Some r) f) = Some r' \<and> time_keys_only (view r) (view r')"
  by (cases rule: eval_leaf_server [where E = E and r = r and f = f])
    (auto simp: time_keys_only_def set_view time_key_def)

lemma evaluate_keys: "\<exists>r'. snd (evaluateCondition E R (Some r) c) = Some r' \<and> time_keys_only (view r) (view r')"
proof (induction c arbitrary: r)
  case (Condition f cs)
  have "\<exists>r'. snd (evaluateChildren E R (Some r) operator ds) = Some r' \<and> time_keys_only (view r) (view r')"
    if "set ds \<subseteq> set cs" for operator ds
    using that
  proof (induction ds arbitrary: r)
    case (Cons d ds)
    obtain b r1 where d: "evaluateCondition E R (Some r) d = (b, Some r1)" "time_keys_only (view r) (view r1)"
      using Condition.IH [of d r] Cons.prems by (metis insert_subset list.simps(15) prod.collapse)
    with Cons.IH [of r1] Cons.prems show ?case by (auto intro: time_keys_only_trans)
  qed simp
  with eval_leaf_keys [of E r f] show ?case by simp
qed

lemma evaluate_global_keys: "time_keys_only (view r) (view (snd (evaluate_global E R r c)))"
proof (cases "unmarshal_condition c")
  case (Some t)
  with evaluate_keys [of E r t] show ?thesis
    by (auto simp: evaluate_global_def EvaluateConditions_def split: prod.split)
qed (simp add: evaluate_global_def EvaluateConditions_def)

lemma collect_others_keys: "time_keys_only (view r) (view (snd (collect_others E R own targets xs r)))"
proof (induction xs arbitrary: r)
  case (Cons x xs)
  obtain b r1 where one: "evaluate_global E R r (rConditions x) = (b, r1)" by fastforce
  with evaluate_global_keys [of r E "rConditions x"] have "time_keys_only (view r) (view r1)" by simp
  from time_keys_only_trans [OF this Cons.IH] Cons.IH [of r] show ?case
    by (simp add: one split: prod.split) (metis snd_conv)
qed simp

text \<open>A task changes none of the rule sets; a device task does not if no accepted device is named like one.\<close>

lemma evaluation_task_keys:
  assumes "evaluateAndExecuteTask E R ord client p r d = (res, ps, r', d')"
  shows "time_keys_only (view r) (view r')"
  using assms evaluate_global_keys [of r E] collect_others_keys [of _ E]
  by (simp add: evaluateAndExecuteTask_def Let_def split: option.splits prod.splits sum.splits if_splits go.splits bool.splits)
    (metis snd_conv time_keys_only_trans)+

lemmas evaluation_task_sets = evaluation_task_keys [THEN time_keys_rule_sets]

end

definition plainly_named :: "db \<Rightarrow> bool" where
  "plainly_named d \<longleftrightarrow> (\<forall>x \<in> set (t_devices d). dev_Accepted x \<longrightarrow> (\<nexists>v. dev_ID x = v @ '':rules''))"

context redis_server begin

lemma device_update_sets:
  assumes "ProcessDeviceUpdate E R v st r d = (ids, r', d', later)" and "plainly_named d"
  shows "same_rule_sets (view r) (view r')"
proof (cases "fst (GetDeviceByID v d)")
  case (Inr dev)
  then have dev: "dev \<in> set (t_devices d)" "dev_ID dev = v"
    by (auto simp: GetDeviceByID_def dest!: query_row_Inr)
  obtain d1 where get: "GetDeviceByID v d = (Inr dev, d1)" using Inr by (metis prod.collapse)
  show ?thesis
  proof (cases "dev_Accepted dev")
    case True
    with assms(2) dev have "rules_key u \<noteq> device_key v" for u
      by (auto simp: plainly_named_def rules_key_eq_device_key)
    then show ?thesis
      using assms(1) get True
      by (auto simp: ProcessDeviceUpdate_def IsSignificantChange_def Let_def same_rule_sets_def set_view)
  qed (use assms(1) get in \<open>simp add: ProcessDeviceUpdate_def\<close>)
next
  case (Inl x)
  then obtain d1 where "GetDeviceByID v d = (Inl x, d1)" by (metis prod.collapse)
  with assms(1) show ?thesis by (auto simp: ProcessDeviceUpdate_def Let_def split: prod.splits)
qed

lemma device_task_sets:
  assumes "processDeviceUpdateTask E R p r d q = (res, r', d', q', later)" and "plainly_named d"
  shows "same_rule_sets (view r) (view r')"
  using assms device_update_sets [of E _ _ r d]
  by (auto simp: processDeviceUpdateTask_def split: option.splits prod.splits)

end

section \<open>Rules in force\<close>

text \<open>No rule has a NULL for \<open>enabled\<close>, and every id comes from the sequence.\<close>

definition rules_ready :: "db \<Rightarrow> bool" where
  "rules_ready d \<longleftrightarrow> (\<forall>x \<in> set (t_rules d). rrEnabled x \<noteq> None \<and> (\<exists>n < rules_seq d. rrID x = show_nat n))"

definition wanted_by :: "db \<Rightarrow> string \<Rightarrow> string set" where
  "wanted_by d = wanted (map rule_of (t_rules d))"

text \<open>In force but for the rules \<open>I\<close>, that may be in the wrong rule sets.\<close>

definition in_force_but ::
  "string set \<Rightarrow> ('r \<Rightarrow> rview) \<Rightarrow> ('c \<Rightarrow> cron_view) \<Rightarrow> (string \<Rightarrow> bool) \<Rightarrow> ('r, 'c) engine \<Rightarrow> bool" where
  "in_force_but I view entries valid e \<longleftrightarrow>
     synced entries valid (e_sched e, e_db e) \<and> tables_ok (e_db e) \<and> db_up (e_db e) \<and> rules_ready (e_db e)
     \<and> lasting (view (e_redis e)) \<and> (\<forall>v. associations (view (e_redis e)) v - I = wanted_by (e_db e) v - I)"

abbreviation in_force :: "('r \<Rightarrow> rview) \<Rightarrow> ('c \<Rightarrow> cron_view) \<Rightarrow> (string \<Rightarrow> bool) \<Rightarrow> ('r, 'c) engine \<Rightarrow> bool" where
  "in_force \<equiv> in_force_but {}"

text \<open>What a step does to the tables when it leaves rules and schedules alone.\<close>

definition rules_frame :: "db \<Rightarrow> db \<Rightarrow> bool" where
  "rules_frame d d' \<longleftrightarrow> keeps d d' \<and> t_rules d' = t_rules d \<and> rules_seq d' = rules_seq d \<and> db_out d' = db_out d"

lemma rules_frame_refl [simp]: "rules_frame d d" "rules_frame d (tick d)" "rules_frame (tick d) d' = rules_frame d d'"
  by (simp_all add: rules_frame_def)

lemma synced_keeps: "synced entries valid (s, d) \<Longrightarrow> tables_ok d \<Longrightarrow> keeps d d' \<Longrightarrow> synced entries valid (s, d')"
  by (simp add: synced_def agree_def keeps_def tables_ok_def)

lemma in_force_frame:
  fixes e e' :: "('r, 'c) engine"
  assumes "in_force_but I view entries valid e" and "rules_frame (e_db e) (e_db e')" and "e_sched e' = e_sched e"
    and "same_rule_sets (view (e_redis e)) (view (e_redis e'))"
  shows "in_force_but I view entries valid e'"
proof -
  have "synced entries valid (e_sched e', e_db e')"
    using assms(1-3) synced_keeps by (auto simp: in_force_but_def rules_frame_def)
  with assms same_rule_sets_keep [OF assms(4)] show ?thesis
    by (auto simp: in_force_but_def rules_frame_def rules_ready_def wanted_by_def db_up_def keeps_def)
qed

lemma in_force_db:
  "in_force_but I view entries valid e \<Longrightarrow> rules_frame (e_db e) d \<Longrightarrow> in_force_but I view entries valid (e\<lparr>e_db := d\<rparr>)"
  by (rule in_force_frame [of I view entries valid e]) simp_all

lemma in_force_queue [simp]:
  "in_force_but I view entries valid (e\<lparr>e_queue := q\<rparr>) = in_force_but I view entries valid e"
  by (simp add: in_force_but_def)

section \<open>Refreshing a rule brings it into force\<close>

lemma mem_wanted_by:
  "i \<in> wanted_by d v \<longleftrightarrow>
     (\<exists>y \<in> set (t_rules d). rrID y = i \<and> the (rrEnabled y) \<and> v \<in> raw_device_ids (Some (rrConditions y)))"
  by (auto simp: wanted_by_def wanted_def) (metis image_eqI rule_of_fields)

lemma mem_wanted_one:
  "i \<in> wanted [rule_of y] v \<longleftrightarrow> rrID y = i \<and> the (rrEnabled y) \<and> v \<in> raw_device_ids (Some (rrConditions y))"
  by (auto simp: wanted_def)

lemma wanted_row:
  assumes "distinct (map rrID (t_rules d))" and "row \<in> set (t_rules d)"
  shows "wanted_by d v = wanted_by d v - {rrID row} \<union> wanted [rule_of row] v"
proof -
  have "x = row" if "x \<in> set (t_rules d)" "rrID x = rrID row" for x
    using that assms by (simp add: distinct_map inj_on_def)
  with assms(2) show ?thesis by (auto simp: mem_wanted_by mem_wanted_one set_eq_iff)
qed

text \<open>What refreshing does to the scheduler and the tables: at most what it does for the schedules of the rule.\<close>

lemma refresh_schedules_part:
  fixes e :: "('r, 'c) engine"
  obtains (same) "e_sched (snd (RefreshRuleAssociations R C iter i e)) = e_sched e"
      and "e_db (snd (RefreshRuleAssociations R C iter i e)) = tick (e_db e)"
    | (run) "(e_sched (snd (RefreshRuleAssociations R C iter i e)), e_db (snd (RefreshRuleAssociations R C iter i e)))
        = refreshSchedulesForRule C i (e_sched e, tick (e_db e))"
proof -
  obtain res where get: "GetRuleByID i (e_db e) = (res, tick (e_db e))" by (metis prod.collapse read_only(1))
  obtain s d where sd: "refreshSchedulesForRule C i (e_sched e, tick (e_db e)) = (s, d)" by fastforce
  show thesis
  proof (cases "e_sched (snd (RefreshRuleAssociations R C iter i e)) = e_sched e
      \<and> e_db (snd (RefreshRuleAssociations R C iter i e)) = tick (e_db e)")
    case False
    then show thesis
      using get sd
      by (intro run) (auto simp: RefreshRuleAssociations_def on_schedules_def Let_def split: sum.splits option.splits if_splits)
  qed (blast intro: same)
qed

lemma refresh_in_force:
  fixes e :: "('r, 'c) engine"
  assumes "redis_server R view" and "cron_service C entries valid" and "visit_order iter"
    and force: "in_force_but I view entries valid e" and "I \<subseteq> {rrID row}" and row: "row \<in> set (t_rules (e_db e))"
  shows "in_force view entries valid (snd (RefreshRuleAssociations R C iter (rrID row) e))"
proof -
  let ?e = "snd (RefreshRuleAssociations R C iter (rrID row) e)"
  note f = force [unfolded in_force_but_def]
  have ok: "engine_ok entries valid e" "db_ok (e_db e)" using f synced_backed by (auto simp: engine_ok_def tables_ok_def)
  have i: "db_int (e_db e) (rrID row) = Some (rrID row)" using rule_id_read [OF ok(1) row] .
  have only: "schedules_only (e_db e) (e_db ?e)" "tables_ok (e_db ?e)"
    using refresh_engine [OF assms(2) ok(1) i, of R iter] by (simp_all add: engine_ok_def)
  have get: "fst (GetRuleByID (rrID row) (e_db e)) = Inr (rule_of row)"
    using f row ok(2) by (simp add: GetRuleByID_up scan_rule_Inr rules_ready_def)
  note sets = redis_server.refresh_associations(1) [OF assms(1,3) lasting_typed get, where C = C]
  have "wanted_by (e_db ?e) = wanted_by (e_db e)" using only(1) by (simp add: wanted_by_def schedules_only_def)
  moreover have "associations (view (e_redis ?e)) v = wanted_by (e_db e) v" for v
  proof -
    have "associations (view (e_redis e)) v - {rrID row} = wanted_by (e_db e) v - {rrID row}"
      using f assms(5) by blast
    with sets [of v] f wanted_row [OF _ row, of v] ok(2) show ?thesis by (simp add: db_ok_def)
  qed
  moreover have "synced entries valid (e_sched ?e, e_db ?e)"
  proof (cases rule: refresh_schedules_part [where R = R and C = C and iter = iter and i = "rrID row" and e = e])
    case same
    with f show ?thesis by (simp add: synced_def)
  next
    case run
    have "agree (=) entries valid (e_sched e, tick (e_db e))" using f by (simp add: synced_def)
    from cron_service.agree_refresh [OF assms(2) keeps_updates_eq this, of "rrID row"] i run show ?thesis
      by (simp add: synced_def)
  qed
  moreover have "lasting (view (e_redis ?e))" using redis_server.lasting_refresh [OF assms(1)] f by blast
  ultimately show ?thesis
    using f only by (simp add: in_force_but_def rules_ready_def schedules_only_def db_up_def)
qed

lemma notify_in_force:
  fixes e :: "('r, 'c) engine"
  assumes "redis_server R view" and "cron_service C entries valid" and "visit_order iter"
    and "in_force_but I view entries valid e" and "I \<subseteq> {rID x}" and "rID x \<in> rrID ` set (t_rules (e_db e))"
  shows "in_force view entries valid (notify_engine R C iter x e)"
proof -
  from assms(6) obtain row where "row \<in> set (t_rules (e_db e))" "rID x = rrID row" by blast
  with refresh_in_force [OF assms(1-4), of row] assms(5)
  show ?thesis by (auto simp: notify_engine_def split: prod.split)
qed

section \<open>Steps that leave the rules alone\<close>

definition rules_kept :: "db \<Rightarrow> db \<Rightarrow> bool" where
  "rules_kept d d' \<longleftrightarrow> t_rules d' = t_rules d \<and> rules_seq d' = rules_seq d \<and> db_out d' = db_out d"

lemma rules_kept_refl [simp]: "rules_kept d d" "rules_kept d (tick d)" "rules_kept (tick d) d' = rules_kept d d'"
  by (simp_all add: rules_kept_def)

lemma rules_frame_kept: "rules_frame d d' \<longleftrightarrow> keeps d d' \<and> rules_kept d d'"
  by (simp add: rules_frame_def rules_kept_def)

text \<open>
  The same for any relation between databases that reads, updates of a device that leave its id and
  state alone, and new accounts satisfy: the handlers of devices and accounts satisfy it.
\<close>

locale statement_frame =
  fixes F :: "db \<Rightarrow> db \<Rightarrow> bool"
  assumes frame_refl: "F d d" and frame_tick: "F (tick d) d' = F d d'"
    and frame_update: "(\<And>x. dev_ID (f x) = dev_ID x \<and> dev_State (f x) = dev_State x) \<Longrightarrow> F d (snd (update_device v f d))"
    and frame_user: "F d (snd (insert_user u p m d))"
begin

lemma frame_ticked: "F d (tick d)"
  using frame_refl [of "tick d"] by (simp only: frame_tick)

lemma frame_exec: "(\<And>d. F d (snd (stmt d))) \<Longrightarrow> F d (snd (exec stmt d))"
  by (simp add: exec_def frame_ticked split: outcome.split) (metis frame_tick)

lemma frame_exec_int: "(\<And>i d. F d (snd (stmt i d))) \<Longrightarrow> F d (snd (exec_int x stmt d))"
  by (simp add: exec_int_def frame_refl split: option.split)

lemma frame_owner:
  assumes "\<And>owner x. dev_ID (g owner x) = dev_ID x \<and> dev_State (g owner x) = dev_State x"
  shows "F d (snd (update_owner uid v g d))"
  unfolding update_owner_def using assms
  by (intro frame_exec frame_exec_int) (simp add: frame_refl frame_update)

lemma frame_reads:
  "F d (snd (list_devices uid d))" "F d (snd (list_pending d))" "F d (snd (get_me uid d))" "F d (snd (list_rules uid d))"
  by (auto simp: list_devices_def list_pending_def get_me_def list_rules_def frame_ticked
      split: prod.split sum.split dest!: arg_cong [where f = snd])

lemma frame_devices:
  "F d (snd (accept_device uid v d))" "F d (snd (set_owner uid v d))"
  "F d (snd (command_device W uid v body d))" "F d (snd (rename_device uid v body d))"
proof -
  have owner: "F d (snd (update_owner uid v (\<lambda>owner x. x\<lparr>dev_Accepted := True, dev_OwnerID := Some owner\<rparr>) d))"
    "F d (snd (update_owner uid v (\<lambda>owner x. x\<lparr>dev_OwnerID := Some owner\<rparr>) d))"
    by (rule frame_owner; simp)+
  then show "F d (snd (accept_device uid v d))" "F d (snd (set_owner uid v d))"
    by (auto simp: accept_device_def set_owner_def prod_eq_iff split: prod.split sum.split)
  show "F d (snd (command_device W uid v body d))"
    by (cases rule: select_deviceE [of v d]) (simp_all add: command_device_def Let_def frame_ticked split: option.split)
  have "F d (snd (exec (update_device v (\<lambda>x. x\<lparr>dev_Name := n\<rparr>)) (tick d)))" for n
    using frame_exec [of "update_device v (\<lambda>x. x\<lparr>dev_Name := n\<rparr>)" "tick d"] frame_update by (simp add: frame_tick)
  then show "F d (snd (rename_device uid v body d))"
    by (cases rule: select_deviceE [of v d])
      (auto simp: rename_device_def case_prod_unfold frame_refl frame_ticked split: option.split sum.split)
qed

lemma frame_createUser: "F d (snd (createUser K dr u p m d))"
proof -
  have "snd (username_taken u d) = tick d" by (simp add: username_taken_def)
  then show ?thesis
    using frame_user [of "tick d"]
    by (auto simp: createUser_def prod_eq_iff frame_tick frame_ticked split: sum.split prod.split option.split)
qed

lemma frame_accounts: "F d (snd (post_login W dr body d))" "F d (snd (post_register W dr body d))"
proof -
  have "F d (snd (LoginWithJWT K key dr u p d))" for K key u p
    using keeps_authenticateUser [of K u p d] by (auto simp: LoginWithJWT_def frame_ticked split: prod.split sum.split)
  then show "F d (snd (post_login W dr body d))"
    by (simp add: post_login_def frame_refl split: option.split prod.split sum.split) (metis snd_conv)
  have "F d (snd (RegisterWithJWT K key dr u p m d))" for K key u p m
    using frame_createUser [of d K dr u p m] by (auto simp: RegisterWithJWT_def split: prod.split sum.split)
  then show "F d (snd (post_register W dr body d))"
    by (simp add: post_register_def frame_refl split: option.split prod.split sum.split) (metis snd_conv)
qed

end

interpretation rules: statement_frame rules_kept
proof
  fix f v u p m and d d' :: db
  have "rules_kept d (snd (insert_user u p m d))" if "outcome_of d \<noteq> Done" using that
    by (simp add: insert_user_def exec_def rules_kept_def split: outcome.split)
  then show "rules_kept d (snd (insert_user u p m d))"
    by (cases "outcome_of d") (simp_all add: insert_user_def exec_def rules_kept_def Let_def)
qed (simp_all add: update_device_def rules_kept_def)

named_theorems handler_frames \<open>handlers that leave the rules alone\<close>

lemmas [handler_frames] = rules.frame_reads rules.frame_devices rules.frame_accounts

lemma rules_kept_statements:
  "rules_kept d (snd (delete_device v d))" "rules_kept d (snd (UpdateDeviceState v st d))"
  "rules_kept d (snd (InsertDevice v n ty topic st d))"
  unfolding delete_device_def UpdateDeviceState_def InsertDevice_def
  by (rule rules.frame_exec; simp add: rules_kept_def)+

lemma kept_remove_device [handler_frames]: "rules_kept d (snd (remove_device uid v d))"
  using rules_kept_statements(1) [of "tick d" v]
  by (cases rule: select_deviceE [of v d]) (auto simp: remove_device_def split: prod.split sum.split)

lemma kept_tasks:
  "processDeviceUpdateTask E R p r d q = (res, r', d', q', later) \<Longrightarrow> rules_kept d d'"
  "evaluateAndExecuteTask E R ord client p r d = (tres, ps, r', d') \<Longrightarrow> rules_kept d d'"
proof -
  have ins: "rules_kept d (snd (InsertDevice v n ty topic st (tick d)))" for v n ty topic st
    using rules_kept_statements(3) [of "tick d"] by simp
  then show "processDeviceUpdateTask E R p r d q = (res, r', d', q', later) \<Longrightarrow> rules_kept d d'"
    by (auto simp: processDeviceUpdateTask_def ProcessDeviceUpdate_def Let_def prod_eq_iff
        split: option.splits sum.splits prod.splits if_splits)
  show "evaluateAndExecuteTask E R ord client p r d = (tres, ps, r', d') \<Longrightarrow> rules_kept d d'"
    by (auto simp: rules_kept_def evaluateAndExecuteTask_def Let_def prod_eq_iff
        split: option.splits sum.splits prod.splits if_splits go.splits bool.splits)
qed

lemma on_db_in_force:
  assumes "in_force_but I view entries valid e" and "keeps (e_db e) (snd (h (e_db e)))" and "rules_kept (e_db e) (snd (h (e_db e)))"
  shows "in_force_but I view entries valid (snd (on_db h e))"
  using in_force_db [OF assms(1), of "snd (h (e_db e))"] assms(2,3) by (auto simp: on_db_def rules_frame_kept split: prod.split)

section \<open>The handlers of rules\<close>

text \<open>The wanted sets change with the rows of one id only.\<close>

lemma in_force_but_rows:
  fixes e :: "('r, 'c) engine"
  assumes "in_force view entries valid e" and "keeps (e_db e) d" and "rules_ready d" and "db_out d = db_out (e_db e)"
    and rows: "\<And>x. rrID x \<noteq> i \<Longrightarrow> x \<in> set (t_rules d) \<longleftrightarrow> x \<in> set (t_rules (e_db e))"
  shows "in_force_but {i} view entries valid (e\<lparr>e_db := d\<rparr>)"
proof -
  have "j \<in> wanted_by d v \<longleftrightarrow> j \<in> wanted_by (e_db e) v" if "j \<noteq> i" for j v
    unfolding mem_wanted_by using rows that by metis
  then have "wanted_by d v - {i} = wanted_by (e_db e) v - {i}" for v by blast
  moreover have "synced entries valid (e_sched e, d)"
    using assms(1,2) synced_keeps by (auto simp: in_force_but_def)
  ultimately show ?thesis
    using assms(1-4) by (auto simp: in_force_but_def keeps_def db_up_def)
qed

lemma insert_rule_cases:
  assumes "db_up d" and "insert_rule W uid req d = (res, d1)"
  obtains (refused) x where "res = Inl x" and "t_rules d1 = t_rules d" and "rules_seq d \<le> rules_seq d1" and "db_out d1 = db_out d"
    | (inserted) row owner where "res = Inr ()" and "t_rules d1 = t_rules d @ [row]" and "rrID row = show_nat (rules_seq d)"
      and "rules_seq d1 = Suc (rules_seq d)" and "db_out d1 = db_out d" and "db_int d uid = Some owner" and "db_int d1 = db_int d"
      and "rrOwnerID row = Some owner" and "rrName row = arName req" and "rrEnabled row = Some (arEnabled req)"
proof (cases "db_int d uid")
  case None
  with assms show thesis by (intro refused) (auto simp: insert_rule_def exec_up exec_int_def)
next
  case (Some owner)
  with assms show thesis
    by (auto simp: insert_rule_def exec_up exec_int_eq Let_def split: option.splits if_splits intro: refused inserted)
qed

lemma ready_ids:
  assumes "rules_ready d" and "x \<in> set (t_rules d)"
  shows "digits_val (rrID x) < rules_seq d"
  using assms by (auto simp: rules_ready_def)

lemma post_rule_in_force:
  fixes e :: "('r, 'c) engine"
  assumes R: "redis_server R view" and C: "cron_service C entries valid" and iter: "visit_order iter"
    and force: "in_force view entries valid e"
  shows "in_force view entries valid (snd (post_rule W R C iter uid body e))"
proof (cases "bind_json dec_add_field \<lparr>arName = '''', arConditions = None, arActions = None, arEnabled = False\<rparr> body")
  case (Some req)
  have up: "db_up (e_db e)" and ready: "rules_ready (e_db e)" using force by (simp_all add: in_force_but_def)
  obtain res d1 where ins: "insert_rule W uid req (e_db e) = (res, d1)" by fastforce
  with keeps_insert_rule [of "e_db e" W uid req] have keeps: "keeps (e_db e) d1" by simp
  from up ins show ?thesis
  proof (cases rule: insert_rule_cases)
    case (refused x)
    from refused(2,3) ready have "rules_ready d1" by (fastforce simp: rules_ready_def intro: order_less_le_trans)
    moreover have "synced entries valid (e_sched e, d1)"
      using force keeps synced_keeps by (auto simp: in_force_but_def)
    ultimately have "in_force view entries valid (e\<lparr>e_db := d1\<rparr>)"
      using refused keeps force by (auto simp: in_force_but_def wanted_by_def db_up_def keeps_def)
    with Some ins refused show ?thesis by (simp add: post_rule_def)
  next
    case (inserted row owner)
    have up1: "db_up d1" using up inserted(5) by (simp add: db_up_def)
    have "\<forall>x \<in> set (t_rules (e_db e)). digits_val (rrID x) < digits_val (rrID row)"
      using ready_ids [OF ready] inserted(3) by simp
    then have "newest (filter (\<lambda>x. rrName x = arName req \<and> rrOwnerID x = Some owner) (t_rules d1)) = Some row"
      using inserted by (simp add: newest_append)
    then obtain created where sel: "select_newest (arName req) uid d1 = (Inr created, tick d1)" and id: "rID created = rrID row"
      using up1 inserted by (simp add: select_newest_def query_row_up where_int_eq sum_bind_def scan_owned_rule_def)
    have "rules_ready (tick d1)"
      using ready inserted by (auto simp: rules_ready_def intro: less_SucI)
    then have "in_force_but {rrID row} view entries valid (e\<lparr>e_db := tick d1\<rparr>)"
      using keeps inserted by (intro in_force_but_rows [OF force]) (auto simp: keeps_def)
    from notify_in_force [OF R C iter this, of created] id inserted(2)
    have "in_force view entries valid (notify_engine R C iter created (e\<lparr>e_db := tick d1\<rparr>))" by simp
    with Some ins inserted(1) sel show ?thesis by (simp add: post_rule_def)
  qed
qed (simp add: post_rule_def force)

lemma update_rule_cases:
  assumes "db_up d" and "update_rule W x d = (res, d1)" and "db_int d (rID x) = Some (rID x)"
  obtains (refused) y where "res = Inl y" and "d1 = tick d"
    | (updated) owner f where "res = Inr ()" and "\<And>y. rrID (f y) = rrID y" and "\<And>y. rrEnabled (f y) \<noteq> None"
      and "d1 = (tick d)\<lparr>t_rules := map_rows (\<lambda>y. rrID y = rID x \<and> rrOwnerID y = Some owner) f (t_rules d)\<rparr>"
proof (cases "db_int d (rOwnerID x)")
  case None
  with assms show thesis by (intro refused) (auto simp: update_rule_def exec_up exec_int_def)
next
  case (Some owner)
  show thesis
  proof (cases "\<exists>c a. jsonb_param W (rConditions x) = Some (Some c) \<and> jsonb_param W (rActions x) = Some (Some a)")
    case True
    then obtain c a where "jsonb_param W (rConditions x) = Some (Some c)" "jsonb_param W (rActions x) = Some (Some a)" by blast
    with assms Some show thesis
      by (intro updated [where owner = owner and f = "\<lambda>y. y\<lparr>rrName := rName x, rrConditions := c, rrActions := a, rrEnabled := Some (rEnabled x)\<rparr>"])
        (auto simp: update_rule_def exec_up exec_int_eq)
  next
    case False
    with assms Some show thesis
      by (intro refused [where y = PgError]) (auto simp: update_rule_def exec_up exec_int_eq split: option.splits)
  qed
qed

lemma map_rows_ids: "(\<And>y. rrID (f y) = rrID y) \<Longrightarrow> rrID ` set (map_rows p f rows) = rrID ` set rows"
  by (induction rows) (simp_all add: map_rows_def)

lemma rules_ready_map:
  assumes "\<And>y. rrID (f y) = rrID y" and "\<And>y. rrEnabled (f y) \<noteq> None" and "rules_ready d"
  shows "rules_ready ((tick (tick d))\<lparr>t_rules := map_rows p f (t_rules (tick d))\<rparr>)"
proof -
  have "rrEnabled (g y) \<noteq> None \<and> (\<exists>n < rules_seq d. rrID (g y) = show_nat n)"
    if "y \<in> set (t_rules d)" "g = f \<or> g = id" for g y
    using assms that by (auto simp: rules_ready_def simp del: not_None_eq)
  from this [of _ f] this [of _ id] show ?thesis
    by (auto simp: rules_ready_def map_rows_def simp del: not_None_eq)
qed

lemma patch_rule_in_force:
  fixes e :: "('r, 'c) engine"
  assumes R: "redis_server R view" and C: "cron_service C entries valid" and iter: "visit_order iter"
    and force: "in_force view entries valid e"
  shows "in_force view entries valid (snd (patch_rule W R C iter uid i body e))"
proof (cases "bind_json dec_update_field \<lparr>urrName = None, urrConditions = None, urrActions = None, urrEnabled = None\<rparr> body")
  case (Some req)
  have "snd (select_owned i uid (e_db e)) = tick (e_db e)" by (simp add: select_owned_def case_prod_unfold)
  then obtain sel where sel: "select_owned i uid (e_db e) = (sel, tick (e_db e))" by (metis prod.collapse)
  show ?thesis
  proof (cases sel)
    case (Inl y)
    with Some sel in_force_db [OF force] show ?thesis by (simp add: patch_rule_def)
  next
    case (Inr x)
    let ?x = "merge_rule req x" and ?d = "tick (e_db e)"
    obtain row where row: "row \<in> set (t_rules (e_db e))" "rID ?x = rrID row"
      using selected_rule(2) [of i uid "e_db e" x] sel Inr by (auto simp: merge_rule_def)
    obtain res d2 where upd: "update_rule W ?x ?d = (res, d2)" by fastforce
    with keeps_update_rule [of ?d W ?x] have keeps: "keeps (e_db e) d2" by simp
    have id: "db_int ?d (rID ?x) = Some (rID ?x)" and up: "db_up ?d"
      using force row tables_ok_rules(3) by (auto simp: in_force_but_def)
    from up upd id show ?thesis
    proof (cases rule: update_rule_cases)
      case (refused y)
      with keeps have "in_force view entries valid (e\<lparr>e_db := d2\<rparr>)"
        by (intro in_force_db [OF force]) (simp add: rules_frame_def)
      with Some sel Inr upd refused(1) show ?thesis by (simp add: patch_rule_def)
    next
      case (updated owner f)
      have ids: "rrID ` set (t_rules d2) = rrID ` set (t_rules (e_db e))"
        unfolding updated(4) by (simp add: map_rows_ids [OF updated(2)])
      have "rules_ready (e_db e)" using force by (simp add: in_force_but_def)
      then have "rules_ready d2"
        unfolding updated(4) by (intro rules_ready_map updated(2,3))
      then have "in_force_but {rrID row} view entries valid (e\<lparr>e_db := d2\<rparr>)"
        using keeps updated(2,4) row(2) by (intro in_force_but_rows [OF force]) (auto simp: map_rows_def)
      from notify_in_force [OF R C iter this, of ?x] row ids
      have "in_force view entries valid (notify_engine R C iter ?x (e\<lparr>e_db := d2\<rparr>))" by simp
      with Some sel Inr upd updated(1) show ?thesis by (simp add: patch_rule_def Let_def)
    qed
  qed
qed (simp add: patch_rule_def force)

text \<open>
  Deleting a rule: nobody's, or the caller's own. The id in the path has to be the text of the number:
  Postgres reads 007 as 7, Redis does not.
\<close>

definition own_rule :: "string \<Rightarrow> string \<Rightarrow> db \<Rightarrow> bool" where
  "own_rule uid i d \<longleftrightarrow> db_int d i = Some i \<and> Some i \<notin> hrRuleID ` set (t_history d)
     \<and> (\<exists>owner. db_int d uid = Some owner \<and> (\<forall>x \<in> set (t_rules d). rrID x = i \<longrightarrow> rrOwnerID x = Some owner))"

lemma delete_rule_up:
  assumes "db_up d" and own: "own_rule uid i d" and "i \<notin> sRuleID ` set (t_schedules d)"
  shows "delete_rule i uid d = (Inr (), (tick d)\<lparr>t_rules := filter (\<lambda>x. rrID x \<noteq> i) (t_rules d)\<rparr>)"
proof -
  from own obtain owner where owner: "db_int d i = Some i" "Some i \<notin> hrRuleID ` set (t_history d)" "db_int d uid = Some owner"
    and rows: "\<forall>x \<in> set (t_rules d). rrID x = i \<longrightarrow> rrOwnerID x = Some owner"
    by (auto simp: own_rule_def)
  from rows have "filter (\<lambda>x. \<not> (rrID x = i \<and> rrOwnerID x = Some owner)) (t_rules d) = filter (\<lambda>x. rrID x \<noteq> i) (t_rules d)"
    by (intro filter_cong) auto
  with assms(1,3) owner show ?thesis by (simp add: delete_rule_def exec_up exec_int_eq Let_def)
qed

lemma remove_parts:
  fixes e :: "('r, 'c) engine"
  assumes R: "redis_server R view" and C: "cron_service C entries valid"
    and force: "in_force view entries valid e" and i: "db_int (e_db e) i = Some i"
    and rem: "RemoveRuleAssociations R C i e = (res, e1)"
  shows "in_force_but {i} view entries valid e1" and "\<And>v. associations (view (e_redis e1)) v = wanted_by (e_db e) v - {i}"
    and "i \<notin> sRuleID ` set (t_schedules (e_db e1))" and "schedules_only (e_db e) (e_db e1)"
proof -
  note f = force [unfolded in_force_but_def]
  have ok: "engine_ok entries valid e" using f synced_backed by (auto simp: engine_ok_def)
  note parts = redis_server.remove_associations [OF R, where C = C and i = i and e = e, unfolded rem snd_conv]
  show sets: "associations (view (e_redis e1)) v = wanted_by (e_db e) v - {i}" for v using parts(2) f by simp
  have only: "schedules_only (e_db e) (e_db e1)" "tables_ok (e_db e1)"
    using remove_engine [OF C ok, of R i] rem by (simp_all add: engine_ok_def)
  show "schedules_only (e_db e) (e_db e1)" using only(1) .
  note gone = rule_removed [OF C i, where s = "e_sched e"]
  show "i \<notin> sRuleID ` set (t_schedules (e_db e1))"
    using gone(2) f synced_backed parts(4) by (metis (mono_tags, lifting) imageE mem_Collect_eq set_filter)
  have "synced entries valid (e_sched e1, e_db e1)"
    using gone(4) f parts(4,5) by (metis prod.collapse)
  moreover have "lasting (view (e_redis e1))"
    using redis_server.lasting_remove [OF R, of e C i] f rem by simp
  moreover have "wanted_by (e_db e1) = wanted_by (e_db e)" using only(1) by (simp add: wanted_by_def schedules_only_def)
  ultimately show "in_force_but {i} view entries valid e1"
    using f only sets by (simp add: in_force_but_def rules_ready_def schedules_only_def db_up_def)
qed

lemma delete_rule_in_force:
  fixes e :: "('r, 'c) engine"
  assumes R: "redis_server R view" and C: "cron_service C entries valid"
    and force: "in_force view entries valid e" and own: "own_rule uid i (e_db e)"
  shows "in_force view entries valid (snd (delete_rule_route R C uid i e))"
proof -
  obtain res e1 where rem: "RemoveRuleAssociations R C i e = (res, e1)" by fastforce
  have i: "db_int (e_db e) i = Some i" using own by (simp add: own_rule_def)
  note p = remove_parts [OF R C force i rem]
  let ?d = "(tick (e_db e1))\<lparr>t_rules := filter (\<lambda>x. rrID x \<noteq> i) (t_rules (e_db e1))\<rparr>"
  have "own_rule uid i (e_db e1)" using own p(4) by (simp add: own_rule_def schedules_only_def)
  with p(1,3) have del: "delete_rule i uid (e_db e1) = (Inr (), ?d)"
    by (intro delete_rule_up) (simp_all add: in_force_but_def)
  with keeps_delete_rule [of "e_db e1" i uid] have keeps: "keeps (e_db e1) ?d" by simp
  have "wanted_by ?d v = wanted_by (e_db e) v - {i}" for v
    using p(4) by (auto simp: mem_wanted_by schedules_only_def)
  with p(1,2) keeps synced_keeps [of entries valid "e_sched e1" "e_db e1" ?d]
  have "in_force view entries valid (e1\<lparr>e_db := ?d\<rparr>)"
    by (auto simp: in_force_but_def rules_ready_def keeps_def db_up_def)
  with rem del show ?thesis by (simp add: delete_rule_route_def)
qed

text \<open>An owner who deletes his rule 7 as 007 leaves 7 in the rule sets, without a row.\<close>

lemma padded_delete:
  fixes e :: "('r, 'c) engine"
  assumes R: "redis_server R view" and "db_int (e_db e) i = Some j" and "i \<noteq> j"
    and "j \<in> key_members (view (e_redis e)) (rules_key v)"
  shows "j \<in> key_members (view (e_redis (snd (delete_rule_route R C uid i e)))) (rules_key v)"
    and "fst (delete_rule i uid d) = Inr () \<Longrightarrow> db_int d i = Some j \<Longrightarrow> db_int d uid = Some owner \<Longrightarrow>
      \<forall>x \<in> set (t_rules (snd (delete_rule i uid d))). rrID x = j \<longrightarrow> rrOwnerID x \<noteq> Some owner"
proof -
  have "e_redis (snd (delete_rule_route R C uid i e)) = e_redis (snd (RemoveRuleAssociations R C i e))"
    by (simp add: delete_rule_route_def case_prod_unfold split: sum.split)
  then show "j \<in> key_members (view (e_redis (snd (delete_rule_route R C uid i e)))) (rules_key v)"
    using redis_server.remove_associations(2) [OF R, of C i e v] assms(3,4) by (auto simp: associations_def)
  show "\<forall>x \<in> set (t_rules (snd (delete_rule i uid d))). rrID x = j \<longrightarrow> rrOwnerID x \<noteq> Some owner"
    if "fst (delete_rule i uid d) = Inr ()" "db_int d i = Some j" "db_int d uid = Some owner"
    using that by (auto simp: delete_rule_def exec_def exec_int_def Let_def split: outcome.splits if_splits)
qed

section \<open>The rules stay in force\<close>

lemma handle_in_force:
  fixes e :: "('r, 'c) engine"
  assumes "redis_server R view" and "cron_service C entries valid" and "visit_order iter"
    and "in_force view entries valid e" and "\<And>i. req = RemoveRule i \<Longrightarrow> own_rule uid i (e_db e)"
  shows "in_force view entries valid (snd (handle W R C iter req uid e))"
proof (cases req)
  case (Command v body)
  then show ?thesis
    using in_force_db [OF assms(4), of "snd (command_device W uid v body (e_db e))"]
    by (auto simp: rules_frame_kept handler_keeps handler_frames split: prod.split)
qed (use assms in \<open>simp_all add: quiet_def on_db_in_force handler_keeps handler_frames post_rule_in_force
      patch_rule_in_force delete_rule_in_force\<close>)

text \<open>
  Calm steps: no accepted device is named like the rule set of another, and whoever deletes a
  rule deletes his own, under the id as the program writes it.
\<close>

definition calm :: "web_env \<Rightarrow> label \<Rightarrow> ('r, 'c) system \<Rightarrow> bool" where
  "calm W l s \<longleftrightarrow> plainly_named (e_db (sys_engine s))
     \<and> (\<forall>dr authorization i uid. l = Request dr authorization (RemoveRule i)
          \<and> ValidateTokenJWT (w_auth W) (w_secret W) (dr_now dr) authorization = Inr uid
          \<longrightarrow> own_rule uid i (e_db (sys_engine s)))"

text \<open>Runs whose steps are all \<open>allowed\<close>.\<close>

inductive runs_by ::
  "(label \<Rightarrow> ('r, 'c) system \<Rightarrow> bool) \<Rightarrow> web_env \<Rightarrow> 'r redis_api \<Rightarrow> 'c cron_api \<Rightarrow> ('c \<Rightarrow> cron_view)
     \<Rightarrow> (string list \<Rightarrow> string list) \<Rightarrow> ('r, 'c) system \<Rightarrow> ('r, 'c) system \<Rightarrow> bool"
  for allowed :: "label \<Rightarrow> ('r, 'c) system \<Rightarrow> bool" and W :: web_env and R :: "'r redis_api" and C :: "'c cron_api"
    and entries :: "'c \<Rightarrow> cron_view" and iter :: "string list \<Rightarrow> string list"
where
  run_stays: "runs_by allowed W R C entries iter s s"
| run_steps: "runs_by allowed W R C entries iter s s1 \<Longrightarrow> allowed l s1 \<Longrightarrow> sys_step W R C entries iter l s1 s2
    \<Longrightarrow> runs_by allowed W R C entries iter s s2"

abbreviation calm_runs ::
  "web_env \<Rightarrow> 'r redis_api \<Rightarrow> 'c cron_api \<Rightarrow> ('c \<Rightarrow> cron_view) \<Rightarrow> (string list \<Rightarrow> string list)
     \<Rightarrow> ('r, 'c) system \<Rightarrow> ('r, 'c) system \<Rightarrow> bool" where
  "calm_runs W \<equiv> runs_by (calm W) W"

text \<open>What every step but a request does to the rules: nothing.\<close>

lemma quiet_step:
  assumes step: "sys_step W R C entries iter l s s'" and "\<And>dr authorization req. l \<noteq> Request dr authorization req"
  shows "rules_frame (e_db (sys_engine s)) (e_db (sys_engine s'))" and "e_sched (sys_engine s') = e_sched (sys_engine s)"
    and "redis_server R view \<Longrightarrow> plainly_named (e_db (sys_engine s)) \<Longrightarrow> lasting (view (e_redis (sys_engine s))) \<Longrightarrow>
      same_rule_sets (view (e_redis (sys_engine s))) (view (e_redis (sys_engine s')))"
proof -
  show "rules_frame (e_db (sys_engine s)) (e_db (sys_engine s'))"
    using step
  proof cases
    case (device_task e i t E res r d q later given_up)
    from keeps_device_task [OF device_task(7)] kept_tasks(1) [OF device_task(7)] device_task(2,3) show ?thesis
      by (simp add: rules_frame_kept)
  next
    case (evaluation_task e i t ord E client res ps r d given_up)
    from keeps_evaluation_task [OF evaluation_task(9)] kept_tasks(2) [OF evaluation_task(9)] evaluation_task(2,3) show ?thesis
      by (simp add: rules_frame_kept)
  next
    case (writes_back e i v st)
    with keeps_device_writes(1) rules_kept_statements(2) show ?thesis by (simp add: rules_frame_kept)
  qed (use assms(2) in simp_all)
  show "e_sched (sys_engine s') = e_sched (sys_engine s)"
    using step by cases (use assms(2) in simp_all)
  show "same_rule_sets (view (e_redis (sys_engine s))) (view (e_redis (sys_engine s')))"
    if R: "redis_server R view" and plain: "plainly_named (e_db (sys_engine s))" and lasts: "lasting (view (e_redis (sys_engine s)))"
    using step
  proof cases
    case (device_task e i t E res r d q later given_up)
    with redis_server.device_task_sets [OF R device_task(7)] plain show ?thesis by simp
  next
    case (evaluation_task e i t ord E client res ps r d given_up)
    with redis_server.evaluation_task_sets [OF R evaluation_task(9)] show ?thesis by simp
  next
    case (elapses e n)
    with same_rule_sets_age [OF lasts, of n] show ?thesis
      by (simp add: same_rule_sets_def redis_server.elapse_view [OF R])
  qed (use assms(2) in simp_all)
qed

lemma step_in_force:
  assumes R: "redis_server R view" and C: "cron_service C entries valid" and iter: "visit_order iter"
    and force: "in_force view entries valid (sys_engine s)" and calm: "calm W l s"
    and step: "sys_step W R C entries iter l s s'"
  shows "in_force view entries valid (sys_engine s')"
proof (cases "\<exists>dr authorization req. l = Request dr authorization req")
  case True
  then obtain dr authorization req where l: "l = Request dr authorization req" by blast
  have guarded: "in_force view entries valid (snd (RequireAuth W (dr_now dr) authorization (handle W R C iter req) (sys_engine s)))"
    using handle_in_force [OF R C iter force, of req] calm l force by (auto simp: RequireAuth_def calm_def split: sum.split)
  have "in_force view entries valid (snd (serve W R C iter dr authorization req (sys_engine s)))"
    using guarded force by (cases req) (simp_all add: serve_def on_db_in_force handler_keeps handler_frames)
  with step l show ?thesis by cases auto
next
  case False
  with quiet_step [OF step] R calm force show ?thesis
    by (intro in_force_frame [OF force]) (auto simp: calm_def in_force_but_def)
qed

lemma runs_in_force:
  assumes "redis_server R view" and "cron_service C entries valid" and "visit_order iter"
    and "calm_runs W R C entries iter s s'" and "in_force view entries valid (sys_engine s)"
  shows "in_force view entries valid (sys_engine s')"
  using assms(4,5) by induction (auto intro: step_in_force [OF assms(1-3)])

lemma remove_nth_append: "i < length xs \<Longrightarrow> remove_nth i (xs @ ys) = remove_nth i xs @ ys"
  by (simp add: remove_nth_def)

text \<open>What a device task has in the queue once it is settled.\<close>

lemma settled_task_queue:
  assumes "i < length (q_tasks q0)" and "q_tasks q = q_tasks q0 @ ts"
  shows "set ts \<subseteq> set (q_tasks (settle_task i res given_up q))"
  using assms by (auto simp: settle_task_def remove_nth_append)


section \<open>A start puts the rules in force\<close>

lemma populate_in_force:
  fixes e :: "('r, 'c) engine"
  assumes R: "redis_server R view" and "visit_order iter" and "tables_ok (e_db e)" and "db_up (e_db e)" and "rules_ready (e_db e)"
    and "synced entries valid (e_sched e, e_db e)"
  obtains r where "populateDeviceRuleAssociations R iter e = (True, e\<lparr>e_db := tick (e_db e), e_redis := r\<rparr>)"
    and "in_force view entries valid (e\<lparr>e_db := tick (e_db e), e_redis := r\<rparr>)"
    and "rules_keys_only (view (e_redis e)) (view r)"
proof -
  have "fst (GetAllRules (e_db e)) = Inr (map rule_of (t_rules (e_db e)))"
    using assms(4,5) by (simp add: GetAllRules_def query_up sum_bind_def rules_ready_def scan_all_Inr)
  then obtain r where pop: "populateDeviceRuleAssociations R iter e = (True, e\<lparr>e_db := tick (e_db e), e_redis := r\<rparr>)"
    and assoc: "\<And>v. associations (view r) v = wanted (map rule_of (t_rules (e_db e))) v"
    and only: "rules_keys_only (view (e_redis e)) (view r)"
    by (rule redis_server.populate_associations [OF R assms(2)]) blast
  from redis_server.lasting_populate [OF R pop] have "lasting (view r)" by simp
  with assms(3-6) assoc have "in_force view entries valid (e\<lparr>e_db := tick (e_db e), e_redis := r\<rparr>)"
    by (simp add: in_force_but_def wanted_by_def rules_ready_def synced_def)
  from that [OF pop this only] show thesis .
qed

section \<open>A life\<close>

text \<open>The demonstration program after its start.\<close>

lemma life_starts:
  obtains e where "in_force mem_view map_of mem_valid e" and "e_db e = tick web_db" and "e_queue e = demo_queue"
    and "rules_keys_only (mem_view demo_server) (mem_view (e_redis e))"
proof (rule populate_in_force [OF mem.redis_server_axioms visit_order_rev, of web_engine map_of mem_valid])
  show "tables_ok (e_db web_engine)" "db_up (e_db web_engine)" using web_tables_ok by simp_all
  show "rules_ready (e_db web_engine)"
    using web_engine_below by (auto simp: rules_ready_def) (auto simp: demo_rules_def demo_db_def demo_row)
  have "synced map_of mem_valid (NewScheduler [], demo_rules)" by (rule demo_synced)
  then show "synced map_of mem_valid (e_sched web_engine, e_db web_engine)"
    using web_tables_ok by (simp add: synced_def agree_def tables_ok_def demo_row)
  fix r
  assume "in_force mem_view map_of mem_valid (web_engine\<lparr>e_db := tick (e_db web_engine), e_redis := r\<rparr>)"
    and "rules_keys_only (mem_view (e_redis web_engine)) (mem_view r)"
  then show thesis by (intro that [of "web_engine\<lparr>e_db := tick (e_db web_engine), e_redis := r\<rparr>"]) simp_all
qed

lemma web_plainly_named: "plainly_named (tick web_db)"
proof -
  have "''lamp'' \<noteq> v @ '':rules''" for v by (cases v rule: rev_cases) auto
  then show ?thesis by (simp add: plainly_named_def) (simp add: demo_lamp_def)
qed

text \<open>The rule of the demonstration before and after the lamp reports a level of 1.\<close>

lemma life_before:
  assumes "rules_keys_only (mem_view demo_server) (mem_view r)"
  shows "holds_raw (demo_env 18 30) mem_redis r (Some (enc_condition demo_tree))"
proof -
  have keys: "device_key v \<notin> range rules_key" "time_key (demo_env 18 30) op c \<notin> range rules_key"
    if "v \<in> {''lamp'', ''''}" for v op c
  proof -
    have "v \<noteq> u @ '':rules''" for u using that by (cases u rule: rev_cases) auto
    then show "device_key v \<notin> range rules_key" by (metis imageE rules_key_eq_device_key)
    show "time_key (demo_env 18 30) op c \<notin> range rules_key" by (auto simp: time_key_def rules_key_def)
  qed
  have "leaf_value (demo_env 18 30) mem_redis r f = leaf_value (demo_env 18 30) mem_redis demo_server f"
    if "cDeviceID f \<in> {''lamp'', ''''}" for f
    using keys [OF that] keys [of "''lamp''"] assms
    by (intro mem.leaf_value_cong) (auto simp: rules_keys_only_def key_string_def)
  then have "leaf_value (demo_env 18 30) mem_redis r demo_level = leaf_value (demo_env 18 30) mem_redis demo_server demo_level"
    "leaf_value (demo_env 18 30) mem_redis r demo_time = leaf_value (demo_env 18 30) mem_redis demo_server demo_time"
    by (simp_all add: demo_level_def demo_time_def zero_fields_def)
  then have "holds (leaf_value (demo_env 18 30) mem_redis r) demo_tree = holds (leaf_value (demo_env 18 30) mem_redis demo_server) demo_tree"
    by (simp add: demo_tree_def)
  with demo_holds show ?thesis by (simp only: holds_raw_def unmarshal_enc_condition option.case)
qed

lemma life_after:
  assumes "mem_view r (device_key ''lamp'') = Some (RStr (VDoc (marshal_map (Some [(''level'', JNum 1)]))), ttl)"
  shows "\<not> holds_raw (demo_env 18 30) mem_redis r (Some (enc_condition demo_tree))"
proof -
  have "leaf_value (demo_env 18 30) mem_redis r demo_level
      = Compare (JV (or_nil (mget (Some [(''level'', JNum 1)]) (cKey demo_level)))) (cOp demo_level) (JNum 3)"
    by (rule mem.leaf_of_stored_state [where ttl = ttl]) (use assms in \<open>simp_all add: demo_level_def zero_fields_def jmap_ok_def\<close>)
  then have "\<not> leaf_value (demo_env 18 30) mem_redis r demo_level" by (simp add: demo_level_def zero_fields_def or_nil_def)
  moreover have "cOperator demo_level = ''''" by (simp add: demo_level_def zero_fields_def)
  ultimately have "\<not> holds (leaf_value (demo_env 18 30) mem_redis r) demo_tree" by (simp add: demo_tree_def)
  then show ?thesis by (simp only: holds_raw_def unmarshal_enc_condition option.case) simp
qed


end
