(* ===== verification/InternetBridge.thy ===== *)
theory InternetBridge
  imports Json Config
begin

text \<open>
  \<open>internal/internet_bridge/agent.go\<close> and how \<open>cmd/engine/main.go\<close> starts it: the agent holds a
  web socket to the public server and repeats the requests it is sent against the local web
  server. The local HTTP call is a parameter; of \<open>http.NewRequest\<close> the part of the URL parser
  is written out that decides about the colon, the other checks are a parameter.
\<close>

record bridge_config =
  bcPublicWS :: string
  bcLocalURL :: string
  bcServerID :: string
  bcRetryDelay :: nat

record request_msg =
  rqType :: string
  rqReqId :: string
  rqMethod :: string
  rqPath :: string
  rqHeaders :: "(string, string) gomap"
  rqBody :: json

record response_msg =
  rpType :: string
  rpReqId :: string
  rpStatus :: int
  rpBody :: json

definition enc_response :: "response_msg \<Rightarrow> json" where
  "enc_response x =
     JObj [(''type'', JStr (rpType x)), (''reqId'', JStr (rpReqId x)), (''status'', JNum (of_int (rpStatus x))),
           (''body'', rpBody x)]"

section \<open>Reading a request\<close>

text \<open>
  The error of \<open>json.Unmarshal\<close> is dropped here and the target used, so the decoder is followed
  past type errors: a member of the wrong type leaves a string as it was, and puts an empty
  string under its key in a map.
\<close>

definition zero_request :: request_msg where
  "zero_request = \<lparr>rqType = '''', rqReqId = '''', rqMethod = '''', rqPath = '''', rqHeaders = [], rqBody = JNull\<rparr>"

fun keep_string :: "string \<Rightarrow> json \<Rightarrow> string" where
  "keep_string old (JStr s) = s"
| "keep_string old _ = old"

fun keep_headers :: "(string, string) gomap \<Rightarrow> json \<Rightarrow> (string, string) gomap" where
  "keep_headers old JNull = []"
| "keep_headers old (JObj kvs) = fold (\<lambda>(k, v) m. AList.update k (keep_string '''' v) m) kvs old"
| "keep_headers old _ = old"

definition keep_field :: "string \<times> json \<Rightarrow> request_msg \<Rightarrow> request_msg" where
  "keep_field x q =
     (let k = fst x; j = snd x in
      if field_is k ''type'' then q\<lparr>rqType := keep_string (rqType q) j\<rparr>
      else if field_is k ''reqId'' then q\<lparr>rqReqId := keep_string (rqReqId q) j\<rparr>
      else if field_is k ''method'' then q\<lparr>rqMethod := keep_string (rqMethod q) j\<rparr>
      else if field_is k ''path'' then q\<lparr>rqPath := keep_string (rqPath q) j\<rparr>
      else if field_is k ''headers'' then q\<lparr>rqHeaders := keep_headers (rqHeaders q) j\<rparr>
      else if field_is k ''body'' then q\<lparr>rqBody := j\<rparr>
      else q)"

definition read_request :: "raw \<Rightarrow> request_msg" where
  "read_request msg = (case msg of Some (JObj kvs) \<Rightarrow> fold keep_field kvs zero_request | _ \<Rightarrow> zero_request)"

section \<open>The local request\<close>

text \<open>
  \<open>getScheme\<close> and the first-segment check of \<open>url.Parse\<close>. A URL that starts with a digit has
  no scheme, and without a scheme and a leading slash the first segment may hold no colon.
\<close>

definition is_letter :: "char \<Rightarrow> bool" where
  "is_letter c \<longleftrightarrow> (65 \<le> (of_char c :: nat) \<and> (of_char c :: nat) \<le> 90) \<or> (97 \<le> (of_char c :: nat) \<and> (of_char c :: nat) \<le> 122)"

definition get_scheme :: "string \<Rightarrow> (string \<times> string) option" where
  "get_scheme s =
     (let word = takeWhile (\<lambda>c. is_letter c \<or> is_digit c \<or> c \<in> set ''+-.'') s; rest = drop (length word) s in
      if s = '''' \<or> (word \<noteq> '''' \<and> \<not> is_letter (hd s)) \<or> take 1 rest \<noteq> '':'' then Some ('''', s)
      else if word = '''' then None
      else Some (word, tl rest))"

definition colon_rejected :: "string \<Rightarrow> bool" where
  "colon_rejected url =
     (case get_scheme (takeWhile (\<lambda>c. c \<noteq> CHR ''#'') url) of
        None \<Rightarrow> True
      | Some (scheme, rest) \<Rightarrow>
          let path = takeWhile (\<lambda>c. c \<noteq> CHR ''?'') rest in
          scheme = '''' \<and> take 1 path \<noteq> ''/'' \<and> CHR '':'' \<in> set (takeWhile (\<lambda>c. c \<noteq> CHR ''/'') path))"

text \<open>
  \<open>httpReq\<close> is nil when \<open>http.NewRequest\<close> fails; its error is dropped and setting a header
  then panics (\<open>Inl\<close>). The headers are set one after the other, in the order of the map.
\<close>

record http_lib =
  hl_accepts :: "string \<Rightarrow> string \<Rightarrow> bool"
  hl_do :: "string \<Rightarrow> string \<Rightarrow> (string \<times> string) list \<Rightarrow> json \<Rightarrow> (int \<times> raw) option"

definition doLocalRequest ::
  "http_lib \<Rightarrow> ((string, string) gomap \<Rightarrow> (string, string) gomap) \<Rightarrow> string \<Rightarrow> request_msg \<Rightarrow> unit + json \<times> int" where
  "doLocalRequest L iter base req =
     (let url = base @ rqPath req in
      if colon_rejected url \<or> \<not> hl_accepts L (rqMethod req) url then Inl ()
      else (case hl_do L (rqMethod req) url ((''Content-Type'', ''application/json'') # iter (rqHeaders req)) (rqBody req) of
              None \<Rightarrow> Inr (JStr ''local request failed'', 500)
            | Some (status, body) \<Rightarrow> Inr (marshal_raw body, status)))"

section \<open>The agent\<close>

definition handle_message ::
  "http_lib \<Rightarrow> ((string, string) gomap \<Rightarrow> (string, string) gomap) \<Rightarrow> bridge_config \<Rightarrow> raw \<Rightarrow> unit + json list" where
  "handle_message L iter cfg msg =
     (let req = read_request msg in
      if rqType req \<noteq> ''request'' then Inr []
      else (case doLocalRequest L iter (bcLocalURL cfg) req of
              Inl p \<Rightarrow> Inl p
            | Inr (respBody, status) \<Rightarrow>
                Inr [enc_response \<lparr>rpType = ''response'', rpReqId = rqReqId req, rpStatus = status, rpBody = respBody\<rparr>]))"

fun serve_messages ::
  "http_lib \<Rightarrow> ((string, string) gomap \<Rightarrow> (string, string) gomap) \<Rightarrow> bridge_config \<Rightarrow> raw list \<Rightarrow> unit + json list" where
  "serve_messages L iter cfg [] = Inr []"
| "serve_messages L iter cfg (msg # msgs) =
     (case handle_message L iter cfg msg of
        Inl p \<Rightarrow> Inl p
      | Inr out \<Rightarrow> map_sum id (append out) (serve_messages L iter cfg msgs))"

text \<open>One session: the messages read until the connection breaks, \<open>None\<close> when dialling fails.\<close>

definition run_session ::
  "http_lib \<Rightarrow> ((string, string) gomap \<Rightarrow> (string, string) gomap) \<Rightarrow> bridge_config \<Rightarrow> raw list option \<Rightarrow> unit + json list" where
  "run_session L iter cfg session =
     (case session of
        None \<Rightarrow> Inr []
      | Some msgs \<Rightarrow>
          map_sum id (Cons (JObj [(''type'', JStr ''register''), (''id'', JStr (bcServerID cfg))])) (serve_messages L iter cfg msgs))"

text \<open>
  \<open>Start\<close> never returns: the sessions it has been through so far, with what it wrote, and the
  pause after each in nanoseconds.
\<close>

definition start_delay :: "bridge_config \<Rightarrow> nat" where
  "start_delay cfg = (if bcRetryDelay cfg = 0 then 2000000000 else bcRetryDelay cfg)"

fun Start_sessions ::
  "http_lib \<Rightarrow> ((string, string) gomap \<Rightarrow> (string, string) gomap) \<Rightarrow> bridge_config \<Rightarrow> raw list option list
     \<Rightarrow> unit + (json list \<times> nat) list" where
  "Start_sessions L iter cfg [] = Inr []"
| "Start_sessions L iter cfg (session # sessions) =
     (case run_session L iter cfg session of
        Inl p \<Rightarrow> Inl p
      | Inr out \<Rightarrow> map_sum id (Cons (out, start_delay cfg)) (Start_sessions L iter cfg sessions))"

text \<open>The configuration \<open>main\<close> passes when remote access is enabled.\<close>

definition main_bridge :: "Config \<Rightarrow> bridge_config option" where
  "main_bridge cfg =
     (if raEnabled (cfgRemoteAccess cfg)
      then Some \<lparr>bcPublicWS = raPublicWS (cfgRemoteAccess cfg),
                 bcLocalURL = ''127.0.0.1:'' @ show_int (appPort (cfgApp cfg)),
                 bcServerID = GetAgentID cfg, bcRetryDelay = 2000000000\<rparr>
      else None)"

section \<open>Properties\<close>

lemma ip_colon_rejected: "colon_rejected (''127.0.0.1:'' @ s)"
proof -
  have first: "\<not> is_letter CHR ''1''" "is_digit CHR ''1''" by (simp_all add: is_letter_def is_digit_def)
  let ?t = "takeWhile (\<lambda>c. c \<noteq> CHR ''#'') s"
  have "get_scheme (''127.0.0.1:'' @ ?t) = Some ('''', ''127.0.0.1:'' @ ?t)"
    using first by (simp add: get_scheme_def Let_def)
  then show ?thesis by (simp add: colon_rejected_def Let_def)
qed

lemma serve_messages_crash:
  assumes "msg \<in> set msgs" and "handle_message L iter cfg msg = Inl p"
  shows "serve_messages L iter cfg msgs = Inl ()"
  using assms by (induction msgs) (auto split: sum.split)

text \<open>
  C25: as the engine starts it, remote access cannot work: the local URL has no scheme, so the first
  request that arrives makes the agent dereference a nil request and panic, whatever the
  method, the path, the headers and the port are. (Any other message is ignored.)
\<close>

theorem remote_request_panics:
  assumes "main_bridge c = Some cfg" and "Some msgs \<in> set sessions" and "msg \<in> set msgs"
    and "rqType (read_request msg) = ''request''"
  shows "Start_sessions L iter cfg sessions = Inl ()"
proof -
  have "bcLocalURL cfg = ''127.0.0.1:'' @ show_int (appPort (cfgApp c))"
    using assms(1) by (auto simp: main_bridge_def split: if_splits)
  then have "handle_message L iter cfg msg = Inl ()"
    using assms(4) ip_colon_rejected [of "show_int (appPort (cfgApp c)) @ rqPath (read_request msg)"]
    by (simp add: handle_message_def doLocalRequest_def Let_def)
  then have "run_session L iter cfg (Some msgs) = Inl ()"
    using serve_messages_crash [OF assms(3)] by (simp add: run_session_def)
  with assms(2) show ?thesis by (induction sessions) (auto split: sum.split)
qed

definition demo_request :: json where
  "demo_request = JObj [(''type'', JStr ''request''), (''reqId'', JStr ''17''), (''method'', JStr ''GET''), (''path'', JStr ''/me'')]"

lemma demo_request_read:
  "read_request (Some demo_request)
     = \<lparr>rqType = ''request'', rqReqId = ''17'', rqMethod = ''GET'', rqPath = ''/me'', rqHeaders = [], rqBody = JNull\<rparr>"
  by (simp add: read_request_def demo_request_def zero_request_def keep_field_def field_is_def ascii_upper_def Let_def)

lemma remote_request_panics_witness:
  "\<exists>cfg. main_bridge (read_config Map.empty) = Some cfg \<and> (\<forall>L iter. Start_sessions L iter cfg [None, Some [None, Some demo_request]] = Inl ())"
proof -
  obtain cfg where cfg: "main_bridge (read_config Map.empty) = Some cfg"
    by (simp add: main_bridge_def read_config_def getEnvBool_def os_getenv_def)
  from remote_request_panics [OF cfg, of "[None, Some demo_request]" "[None, Some [None, Some demo_request]]" "Some demo_request"]
  show ?thesis using cfg by (simp add: demo_request_read)
qed

end
