(* ===== verification/Program.thy ===== *)
theory Program
  imports Lifetime InternetBridge
begin

text \<open>
  \<open>cmd/engine/main.go\<close> and \<open>taskqueue/worker.go\<close>: the process from its first to its last
  statement. Two goroutines matter for the order of things: \<open>main\<close>, and the one that runs
  \<open>StartWorkers\<close>, which makes the queue client that \<open>main\<close> and everything it starts
  use. Each is the list of the statements it has still to do, a step is one statement of one of
  them, or one step of the running program (\<open>Server\<close>) that the statements so far make possible.
  Whether a library call succeeds is an input. What the libraries do with signals is not fixed
  either: a worker goroutine may return, and the process may die of any signal but those that
  \<open>main\<close> has asked for (which \<open>os/signal\<close> documents not to kill then).
\<close>

section \<open>The statements\<close>

text \<open>\<open>syscall.SIGINT\<close>, \<open>syscall.SIGTERM\<close>, and all others by their number.\<close>

datatype os_signal = SIGINT | SIGTERM | OtherSignal nat

datatype main_action =
    OpensPool string | MakesRedis string | ConnectsMqtt string string | SetsGlobals | SpawnsWorkers | StartsCron
  | Subscribes | LoadsSchedules | Populates
  | SpawnsWeb | SpawnsMdns string | RunsBridge
  | NotifiesSignals "os_signal list" | AwaitsSignal | Disconnects | StopsCron | StopsServer | ClosesClient
  | ClosesPool

text \<open>\<open>Engine.Start\<close> subscribes before it loads anything; \<open>Engine.Stop\<close>, \<open>StopWorkers\<close>.\<close>

definition engine_start :: "main_action list" where
  "engine_start = [Subscribes, LoadsSchedules, Populates]"

definition engine_stop :: "main_action list" where
  "engine_stop = [Disconnects]"

definition stop_workers :: "main_action list" where
  "stop_workers = [StopsServer, ClosesClient]"

text \<open>
  \<open>main\<close> after the configuration is loaded. The bridge runs in \<open>main\<close>'s own goroutine; the deferred
  \<open>dbConn.Close\<close> is the last statement of a \<open>main\<close> that returns (\<open>log.Fatalf\<close> skips it).
\<close>

definition main_actions :: "Config \<Rightarrow> main_action list" where
  "main_actions cfg =
     [OpensPool (GetDBURL cfg), MakesRedis (GetRedisAddr cfg), ConnectsMqtt (GetMQTTBroker cfg) (GetMQTTClientID cfg),
      SetsGlobals, SpawnsWorkers, StartsCron] @ engine_start
     @ [SpawnsWeb, SpawnsMdns (mdLocalName (cfgMDNS cfg))] @ (if main_bridge cfg = None then [] else [RunsBridge])
     @ [NotifiesSignals [SIGINT, SIGTERM], AwaitsSignal] @ engine_stop @ [StopsCron] @ stop_workers @ [ClosesPool]"

text \<open>
  \<open>startMDNSServer\<close>, in a goroutine of its own: the library calls up to the first that fails, and
  the line that is logged then.
\<close>

datatype mdns_call = ResolvesUDP string | ListensUDP string | ServesMdns "string list"

fun until_failure :: "('a \<Rightarrow> bool) \<Rightarrow> ('a \<times> string) list \<Rightarrow> 'a list \<times> string option" where
  "until_failure ok [] = ([], None)"
| "until_failure ok ((call, message) # calls) =
     (if \<not> ok call then ([call], Some message)
      else (case until_failure ok calls of (done, logged) \<Rightarrow> (call # done, logged)))"

definition startMDNSServer :: "(mdns_call \<Rightarrow> bool) \<Rightarrow> string \<Rightarrow> mdns_call list \<times> string option" where
  "startMDNSServer ok localName =
     until_failure ok
       [(ResolvesUDP ''udp4'', ''Failed to resolve UDP4 address for mDNS:''),
        (ResolvesUDP ''udp6'', ''Failed to resolve UDP6 address for mDNS:''),
        (ListensUDP ''udp4'', ''Failed to listen on UDP4 for mDNS:''),
        (ListensUDP ''udp6'', ''Failed to listen on UDP6 for mDNS:''),
        (ServesMdns [localName], ''Failed to start mDNS server:'')]"

text \<open>The name is served exactly if every call succeeds; without IPv6 it is not served on IPv4 either.\<close>

lemma mdns_served:
  "snd (startMDNSServer ok localName) = None \<longleftrightarrow>
     (\<forall>call \<in> {ResolvesUDP ''udp4'', ResolvesUDP ''udp6'', ListensUDP ''udp4'', ListensUDP ''udp6'', ServesMdns [localName]}. ok call)"
  "\<not> ok (ListensUDP ''udp6'') \<Longrightarrow> ServesMdns [localName] \<notin> set (fst (startMDNSServer ok localName))"
  by (simp_all add: startMDNSServer_def)

datatype worker_action = MakesClient | Handles string | MakesServer | RunsServer

definition StartWorkers :: "worker_action list" where
  "StartWorkers = [MakesClient, Handles ''device_update'', Handles ''evaluate_rule'', MakesServer, RunsServer]"

text \<open>How a process ends: \<open>log.Fatalf\<close>, the nil queue client or server, the nil request of the bridge
  (\<open>doLocalRequest\<close>), a signal, \<open>main\<close> returning.\<close>

datatype ending = Fatal string | NilPointer | BridgePanic | Killed | Shutdown

record ('r, 'c) process =
  pr_cfg :: Config
  pr_main :: "main_action list"
  pr_workers :: "worker_action list"
  pr_globals :: bool
  pr_client :: bool
  pr_mux :: "string list"
  pr_server :: bool
  pr_serving :: bool
  pr_cron :: bool
  pr_subscribed :: bool
  pr_listening :: "string option"
  pr_watching :: "os_signal list"
  pr_signalled :: bool
  pr_end :: "ending option"
  pr_sys :: "('r, 'c) system"

definition ends :: "ending \<Rightarrow> ('r, 'c) process \<Rightarrow> ('r, 'c) process" where
  "ends x p = p\<lparr>pr_end := Some x\<rparr>"

definition launched :: "Config \<Rightarrow> ('r, 'c) system \<Rightarrow> ('r, 'c) process" where
  "launched cfg s =
     \<lparr>pr_cfg = cfg, pr_main = main_actions cfg, pr_workers = [], pr_globals = False, pr_client = False, pr_mux = [],
      pr_server = False, pr_serving = False, pr_cron = False, pr_subscribed = False, pr_listening = None,
      pr_watching = [], pr_signalled = False, pr_end = None, pr_sys = s\<rparr>"

text \<open>The start of \<open>main\<close>: \<open>Inl\<close> when the configuration cannot be loaded.\<close>

definition boot ::
  "(string option \<Rightarrow> environ \<Rightarrow> environ) \<Rightarrow> ((string, string) gomap \<Rightarrow> (string, string) gomap)
     \<Rightarrow> (nat \<Rightarrow> string option) \<Rightarrow> (nat \<Rightarrow> string option) \<Rightarrow> environ \<Rightarrow> disk \<Rightarrow> ('r, 'c) system
     \<Rightarrow> (ending + ('r, 'c) process) \<times> disk" where
  "boot load iter rand1 rand2 env dk s =
     (case LoadConfig load iter rand1 rand2 env dk of
        (None, dk') \<Rightarrow> (Inl (Fatal ''Failed to load config''), dk')
      | (Some cfg, dk') \<Rightarrow> (Inr (launched cfg s), dk'))"

section \<open>One statement\<close>

definition on_engine ::
  "(('r, 'c) engine \<Rightarrow> ('r, 'c) engine) \<Rightarrow> ('r, 'c) process \<Rightarrow> ('r, 'c) process" where
  "on_engine f p = p\<lparr>pr_sys := (pr_sys p)\<lparr>sys_engine := f (sys_engine (pr_sys p))\<rparr>\<rparr>"

text \<open>\<open>taskqueue.SetGlobalInstances\<close>, \<open>Scheduler.Start\<close> and \<open>Scheduler.Stop\<close>, which waits for running jobs.\<close>

definition SetGlobalInstances :: "('r, 'c) process \<Rightarrow> ('r, 'c) process" where
  [simp]: "SetGlobalInstances p = p\<lparr>pr_globals := True\<rparr>"

definition StartScheduler :: "('r, 'c) process \<Rightarrow> ('r, 'c) process" where
  [simp]: "StartScheduler p = p\<lparr>pr_cron := True\<rparr>"

definition StopScheduler :: "('r, 'c) process \<Rightarrow> ('r, 'c) process" where
  [simp]: "StopScheduler p = p\<lparr>pr_cron := False\<rparr>"

text \<open>
  \<open>ok\<close> says whether the library call succeeds. The errors of \<open>Subscribe\<close> and of the web
  server's listener are dropped.
\<close>

fun do_main ::
  "'r redis_api \<Rightarrow> 'c cron_api \<Rightarrow> (string list \<Rightarrow> string list) \<Rightarrow> main_action \<Rightarrow> bool
     \<Rightarrow> ('r, 'c) process \<Rightarrow> ('r, 'c) process" where
  "do_main R C iter (OpensPool url) ok p = (if ok then p else ends (Fatal ''Failed to connect to DB'') p)"
| "do_main R C iter (MakesRedis addr) ok p = p"
| "do_main R C iter (ConnectsMqtt broker clientID) ok p = (if ok then p else ends (Fatal ''Failed to connect to MQTT'') p)"
| "do_main R C iter SetsGlobals ok p = SetGlobalInstances p"
| "do_main R C iter SpawnsWorkers ok p = p\<lparr>pr_workers := StartWorkers\<rparr>"
| "do_main R C iter StartsCron ok p = StartScheduler p"
| "do_main R C iter Subscribes ok p = p\<lparr>pr_subscribed := ok\<rparr>"
| "do_main R C iter LoadsSchedules ok p =
     (case LoadSchedules C (e_sched (sys_engine (pr_sys p))) (e_db (sys_engine (pr_sys p))) of
        (loaded, s, d) \<Rightarrow>
          let p1 = on_engine (\<lambda>e. e\<lparr>e_sched := s, e_db := d\<rparr>) p
          in if loaded then p1 else ends (Fatal ''Failed to start engine'') p1)"
| "do_main R C iter Populates ok p =
     (case populateDeviceRuleAssociations R iter (sys_engine (pr_sys p)) of
        (populated, e) \<Rightarrow>
          let p1 = on_engine (\<lambda>_. e) p in if populated then p1 else ends (Fatal ''Failed to start engine'') p1)"
| "do_main R C iter SpawnsWeb ok p =
     p\<lparr>pr_listening := if ok then Some (CHR '':'' # show_int (appPort (cfgApp (pr_cfg p)))) else None\<rparr>"
| "do_main R C iter (SpawnsMdns localName) ok p = p"
| "do_main R C iter RunsBridge ok p = p"
| "do_main R C iter (NotifiesSignals sigs) ok p = p\<lparr>pr_watching := pr_watching p @ sigs\<rparr>"
| "do_main R C iter AwaitsSignal ok p = p"
| "do_main R C iter Disconnects ok p = p\<lparr>pr_subscribed := False\<rparr>"
| "do_main R C iter StopsCron ok p = StopScheduler p"
| "do_main R C iter StopsServer ok p = (if pr_server p then p\<lparr>pr_serving := False\<rparr> else ends NilPointer p)"
| "do_main R C iter ClosesClient ok p = (if pr_client p then p else ends NilPointer p)"
| "do_main R C iter ClosesPool ok p = p"

fun do_worker :: "worker_action \<Rightarrow> bool \<Rightarrow> ('r, 'c) process \<Rightarrow> ('r, 'c) process" where
  "do_worker MakesClient ok p = p\<lparr>pr_client := True\<rparr>"
| "do_worker (Handles ty) ok p = p\<lparr>pr_mux := pr_mux p @ [ty]\<rparr>"
| "do_worker MakesServer ok p = p\<lparr>pr_server := True\<rparr>"
| "do_worker RunsServer ok p =
     (if ok then p\<lparr>pr_serving := True\<rparr> else ends (Fatal ''TASKQUEUE: Failed to start workers'') p)"

section \<open>Steps\<close>

text \<open>The parts of the running program that have been started.\<close>

definition started :: "('r, 'c) process \<Rightarrow> label \<Rightarrow> bool" where
  "started p l \<longleftrightarrow>
     (case l of
        Mqtt _ _ \<Rightarrow> pr_subscribed p
      | DeviceTask _ _ _ \<Rightarrow> pr_serving p \<and> ''device_update'' \<in> set (pr_mux p)
      | EvaluationTask _ _ _ _ _ \<Rightarrow> pr_serving p \<and> ''evaluate_rule'' \<in> set (pr_mux p)
      | CronFires _ \<Rightarrow> pr_cron p
      | WritesBack _ \<Rightarrow> True
      | Request _ _ _ \<Rightarrow> pr_listening p \<noteq> None
      | Elapses _ \<Rightarrow> True)"

text \<open>The web server is built with the secret and the agent id of the configuration.\<close>

definition web_of :: "web_env \<Rightarrow> Config \<Rightarrow> web_env" where
  "web_of W cfg = W\<lparr>w_secret := GetJWTSecret cfg, w_agent := GetAgentID cfg\<rparr>"

text \<open>Does the step call \<open>Enqueue\<close> on the queue client?\<close>

definition enqueues :: "('r, 'c) system \<Rightarrow> ('r, 'c) system \<Rightarrow> bool" where
  "enqueues s s' \<longleftrightarrow> q_calls (e_queue (sys_engine s')) \<noteq> q_calls (e_queue (sys_engine s))"

text \<open>
  A call on the nil client panics. The last thing a request does to the program is the call, and
  gin recovers from panics in handlers; nothing recovers from them elsewhere.
\<close>

definition panics_in :: "label \<Rightarrow> ('r, 'c) system \<Rightarrow> ('r, 'c) process \<Rightarrow> ('r, 'c) process" where
  "panics_in l s' p =
     (case l of
        Request _ _ _ \<Rightarrow>
          p\<lparr>pr_sys := s'\<lparr>sys_engine := (sys_engine s')\<lparr>e_queue := e_queue (sys_engine (pr_sys p))\<rparr>\<rparr>\<rparr>
      | _ \<Rightarrow> ends NilPointer p)"

datatype plabel =
    MainDoes bool
  | MainReturns
  | BridgeSession "raw list option"
  | WorkersDo bool
  | Signal os_signal bool bool
  | Runs label

text \<open>A signal that \<open>main\<close> watches is put into its channel. The workers may stop, the process may die.\<close>

definition signal :: "os_signal \<Rightarrow> bool \<Rightarrow> bool \<Rightarrow> ('r, 'c) process \<Rightarrow> ('r, 'c) process" where
  "signal sig kills stops p =
     (let p1 = (if stops then p\<lparr>pr_serving := False\<rparr> else p);
          p2 = (if sig \<in> set (pr_watching p) then p1\<lparr>pr_signalled := True\<rparr> else p1)
      in if kills then ends Killed p2 else p2)"

inductive proc_step ::
  "web_env \<Rightarrow> http_lib \<Rightarrow> ((string, string) gomap \<Rightarrow> (string, string) gomap) \<Rightarrow> 'r redis_api \<Rightarrow> 'c cron_api
     \<Rightarrow> ('c \<Rightarrow> cron_view) \<Rightarrow> (string list \<Rightarrow> string list) \<Rightarrow> plabel \<Rightarrow> ('r, 'c) process \<Rightarrow> ('r, 'c) process \<Rightarrow> bool"
  for W :: web_env and L :: http_lib and hiter :: "(string, string) gomap \<Rightarrow> (string, string) gomap"
    and R :: "'r redis_api" and C :: "'c cron_api" and entries :: "'c \<Rightarrow> cron_view" and iter :: "string list \<Rightarrow> string list"
where
  main_does: "pr_end p = None \<Longrightarrow> pr_main p = a # rest \<Longrightarrow> a \<noteq> RunsBridge \<Longrightarrow> (a = AwaitsSignal \<Longrightarrow> pr_signalled p) \<Longrightarrow>
    proc_step W L hiter R C entries iter (MainDoes ok) p (do_main R C iter a ok (p\<lparr>pr_main := rest\<rparr>))"
| main_returns: "pr_end p = None \<Longrightarrow> pr_main p = [] \<Longrightarrow>
    proc_step W L hiter R C entries iter MainReturns p (ends Shutdown p)"
| bridge: "pr_end p = None \<Longrightarrow> pr_main p = RunsBridge # rest \<Longrightarrow> main_bridge (pr_cfg p) = Some b \<Longrightarrow>
    run_session L hiter b session = out \<Longrightarrow>
    proc_step W L hiter R C entries iter (BridgeSession session) p (case out of Inl _ \<Rightarrow> ends BridgePanic p | Inr _ \<Rightarrow> p)"
| workers_do: "pr_end p = None \<Longrightarrow> pr_workers p = a # rest \<Longrightarrow>
    proc_step W L hiter R C entries iter (WorkersDo ok) p (do_worker a ok (p\<lparr>pr_workers := rest\<rparr>))"
| signals: "pr_end p = None \<Longrightarrow> (sig \<in> set (pr_watching p) \<Longrightarrow> \<not> kills) \<Longrightarrow>
    proc_step W L hiter R C entries iter (Signal sig kills stops) p (signal sig kills stops p)"
| runs: "pr_end p = None \<Longrightarrow> started p l \<Longrightarrow> sys_step (web_of W (pr_cfg p)) R C entries iter l (pr_sys p) s' \<Longrightarrow>
    pr_client p \<or> \<not> enqueues (pr_sys p) s' \<Longrightarrow>
    proc_step W L hiter R C entries iter (Runs l) p (p\<lparr>pr_sys := s'\<rparr>)"
| runs_nil: "pr_end p = None \<Longrightarrow> started p l \<Longrightarrow> sys_step (web_of W (pr_cfg p)) R C entries iter l (pr_sys p) s' \<Longrightarrow>
    \<not> pr_client p \<Longrightarrow> enqueues (pr_sys p) s' \<Longrightarrow>
    proc_step W L hiter R C entries iter (Runs l) p (panics_in l s' p)"

inductive_cases proc_stepE: "proc_step W L hiter R C entries iter l p p'"

text \<open>Runs whose steps satisfy \<open>allowed\<close>; \<open>anything\<close> allows all.\<close>

inductive proc_runs ::
  "(plabel \<Rightarrow> ('r, 'c) process \<Rightarrow> bool) \<Rightarrow> web_env \<Rightarrow> http_lib \<Rightarrow> ((string, string) gomap \<Rightarrow> (string, string) gomap)
     \<Rightarrow> 'r redis_api \<Rightarrow> 'c cron_api \<Rightarrow> ('c \<Rightarrow> cron_view) \<Rightarrow> (string list \<Rightarrow> string list)
     \<Rightarrow> ('r, 'c) process \<Rightarrow> ('r, 'c) process \<Rightarrow> bool"
  for allowed :: "plabel \<Rightarrow> ('r, 'c) process \<Rightarrow> bool" and W :: web_env and L :: http_lib
    and hiter :: "(string, string) gomap \<Rightarrow> (string, string) gomap"
    and R :: "'r redis_api" and C :: "'c cron_api" and entries :: "'c \<Rightarrow> cron_view" and iter :: "string list \<Rightarrow> string list"
where
  proc_stays: "proc_runs allowed W L hiter R C entries iter p p"
| proc_steps: "proc_runs allowed W L hiter R C entries iter p p1 \<Longrightarrow> allowed l p1 \<Longrightarrow>
    proc_step W L hiter R C entries iter l p1 p2 \<Longrightarrow> proc_runs allowed W L hiter R C entries iter p p2"

abbreviation anything :: "plabel \<Rightarrow> ('r, 'c) process \<Rightarrow> bool" where
  "anything \<equiv> \<lambda>_ _. True"

text \<open>An invariant of the allowed steps holds after every run.\<close>

lemma proc_runs_invariant:
  assumes "proc_runs allowed W L hiter R C entries iter p0 p" and "I p0"
    and "\<And>l p p'. I p \<Longrightarrow> allowed l p \<Longrightarrow> proc_step W L hiter R C entries iter l p p' \<Longrightarrow> I p'"
  shows "I p"
  using assms(1,2) by induction (auto intro: assms(3))

section \<open>The order of the statements\<close>

lemma main_suffix_order:
  assumes "main_actions cfg = pre @ m"
  shows "distinct m" and "SetsGlobals \<in> set m \<Longrightarrow> SpawnsWorkers \<in> set m" and "SpawnsWorkers \<in> set m \<Longrightarrow> Subscribes \<in> set m"
    and "SpawnsWorkers \<in> set m \<Longrightarrow> StartsCron \<in> set m"
    and "Subscribes \<in> set m \<Longrightarrow> LoadsSchedules \<in> set m" and "LoadsSchedules \<in> set m \<Longrightarrow> Populates \<in> set m"
    and "Populates \<in> set m \<Longrightarrow> SpawnsWeb \<in> set m" and "SpawnsWeb \<in> set m \<Longrightarrow> NotifiesSignals [SIGINT, SIGTERM] \<in> set m"
    and "main_bridge cfg \<noteq> None \<Longrightarrow> RunsBridge \<in> set m \<Longrightarrow>
      {NotifiesSignals [SIGINT, SIGTERM], AwaitsSignal, Disconnects, StopsCron, StopsServer, ClosesClient, ClosesPool} \<subseteq> set m"
proof -
  have "distinct (main_actions cfg)" by (simp add: main_actions_def engine_start_def engine_stop_def stop_workers_def)
  with assms show "distinct m" by simp
qed (use assms in \<open>auto simp: main_actions_def engine_start_def engine_stop_def stop_workers_def Cons_eq_append_conv
      split: if_splits\<close>)

definition workers_ok :: "('r, 'c) process \<Rightarrow> bool" where
  "workers_ok p \<longleftrightarrow> (\<exists>finished. StartWorkers = finished @ pr_workers p
     \<and> (MakesClient \<in> set finished \<longrightarrow> pr_client p) \<and> (MakesServer \<in> set finished \<longrightarrow> pr_server p)
     \<and> (\<forall>ty. Handles ty \<in> set finished \<longrightarrow> ty \<in> set (pr_mux p)) \<and> (pr_serving p \<longrightarrow> RunsServer \<in> set finished))"

definition unspawned :: "('r, 'c) process \<Rightarrow> bool" where
  "unspawned p \<longleftrightarrow> pr_workers p = [] \<and> \<not> pr_client p \<and> pr_mux p = [] \<and> \<not> pr_server p \<and> \<not> pr_serving p"

definition order_ok :: "('r, 'c) process \<Rightarrow> bool" where
  "order_ok p \<longleftrightarrow> (\<exists>pre. main_actions (pr_cfg p) = pre @ pr_main p)
     \<and> (SetsGlobals \<notin> set (pr_main p) \<longrightarrow> pr_globals p)
     \<and> (if SpawnsWorkers \<in> set (pr_main p) then unspawned p else workers_ok p)
     \<and> (Subscribes \<in> set (pr_main p) \<longrightarrow> \<not> pr_subscribed p) \<and> (StartsCron \<in> set (pr_main p) \<longrightarrow> \<not> pr_cron p)
     \<and> (SpawnsWeb \<in> set (pr_main p) \<longrightarrow> pr_listening p = None) \<and> (pr_end p = Some Shutdown \<longrightarrow> pr_main p = [])"

lemma workers_ok_cong:
  assumes "workers_ok p" and "pr_workers p' = pr_workers p" "pr_client p' = pr_client p" "pr_server p' = pr_server p"
    "pr_mux p' = pr_mux p" "pr_serving p' \<longrightarrow> pr_serving p"
  shows "workers_ok p'"
  using assms by (auto simp: workers_ok_def)

lemma workers_ok_start: "unspawned p \<Longrightarrow> workers_ok (p\<lparr>pr_workers := StartWorkers\<rparr>)"
  by (auto simp: workers_ok_def unspawned_def)

lemma workers_ok_do:
  assumes "workers_ok p" and "pr_workers p = a # rest"
  shows "workers_ok (do_worker a ok (p\<lparr>pr_workers := rest\<rparr>))"
proof -
  from assms obtain finished where f: "StartWorkers = (finished @ [a]) @ rest"
    "MakesClient \<in> set finished \<longrightarrow> pr_client p" "MakesServer \<in> set finished \<longrightarrow> pr_server p"
    "\<forall>ty. Handles ty \<in> set finished \<longrightarrow> ty \<in> set (pr_mux p)" "pr_serving p \<longrightarrow> RunsServer \<in> set finished"
    by (auto simp: workers_ok_def)
  have "pr_workers (do_worker a ok (p\<lparr>pr_workers := rest\<rparr>)) = rest" by (cases a) (simp_all add: ends_def)
  with f show ?thesis
    unfolding workers_ok_def by (intro exI [of _ "finished @ [a]"]) (cases a; auto simp: ends_def)
qed

lemma order_suffix: "order_ok p \<Longrightarrow> pr_main p = m \<Longrightarrow> \<exists>pre. main_actions (pr_cfg p) = pre @ m"
  by (simp add: order_ok_def)

lemma order_ok_launched: "order_ok (launched cfg s)"
  by (simp add: order_ok_def launched_def unspawned_def main_actions_def)

lemma do_main_fields [simp]:
  "pr_cfg (do_main R C iter a ok p) = pr_cfg p" "pr_main (do_main R C iter a ok p) = pr_main p"
  "pr_workers (do_main R C iter a ok p) = (if a = SpawnsWorkers then StartWorkers else pr_workers p)"
  "pr_client (do_main R C iter a ok p) = pr_client p" "pr_mux (do_main R C iter a ok p) = pr_mux p"
  "pr_server (do_main R C iter a ok p) = pr_server p"
  "pr_serving (do_main R C iter a ok p) = (pr_serving p \<and> \<not> (a = StopsServer \<and> pr_server p))"
  "pr_globals (do_main R C iter a ok p) = (a = SetsGlobals \<or> pr_globals p)"
  "pr_subscribed (do_main R C iter a ok p) = (if a = Subscribes then ok else a \<noteq> Disconnects \<and> pr_subscribed p)"
  "pr_cron (do_main R C iter a ok p) = (a = StartsCron \<or> a \<noteq> StopsCron \<and> pr_cron p)"
  by (cases a; simp add: on_engine_def ends_def Let_def split: prod.split)+

lemma do_main_listening: "a \<noteq> SpawnsWeb \<Longrightarrow> pr_listening (do_main R C iter a ok p) = pr_listening p"
  by (cases a) (simp_all add: on_engine_def ends_def Let_def split: prod.split)

lemma do_main_end:
  "pr_end (do_main R C iter a ok p) = pr_end p \<or> (\<exists>msg. pr_end (do_main R C iter a ok p) = Some (Fatal msg))
   \<or> pr_end (do_main R C iter a ok p) = Some NilPointer \<and> (a = StopsServer \<and> \<not> pr_server p \<or> a = ClosesClient \<and> \<not> pr_client p)"
  by (cases a) (auto simp: on_engine_def ends_def Let_def split: prod.split)

lemma order_ok_cong:
  fixes p p' :: "('r, 'c) process"
  assumes "order_ok p" and "pr_cfg p' = pr_cfg p" "pr_main p' = pr_main p" "pr_workers p' = pr_workers p"
    "pr_globals p' = pr_globals p" "pr_client p' = pr_client p" "pr_mux p' = pr_mux p" "pr_server p' = pr_server p"
    "pr_serving p' \<longrightarrow> pr_serving p" "pr_cron p' = pr_cron p" "pr_subscribed p' = pr_subscribed p"
    "pr_listening p' = pr_listening p" and "pr_end p' = Some Shutdown \<longrightarrow> pr_end p = Some Shutdown \<or> pr_main p = []"
  shows "order_ok p'"
proof -
  have "unspawned p \<Longrightarrow> unspawned p'" using assms(2-) by (simp add: unspawned_def)
  moreover have "workers_ok p \<Longrightarrow> workers_ok p'" using workers_ok_cong assms(2-) by blast
  moreover have "pr_end p' = Some Shutdown \<longrightarrow> pr_main p' = []" using assms(1,3,13) by (auto simp: order_ok_def)
  ultimately show ?thesis using assms(1-12) by (simp add: order_ok_def split: if_splits)
qed

lemma order_ok_step:
  fixes p p' :: "('r, 'c) process"
  assumes ok: "order_ok p" and step: "proc_step W L hiter R C entries iter l p p'"
  shows "order_ok p'"
  using step
proof cases
  case (main_does a rest ok')
  let ?p = "p\<lparr>pr_main := rest\<rparr>"
  obtain pre where pre: "main_actions (pr_cfg p) = pre @ a # rest" using ok main_does by (auto simp: order_ok_def)
  then have suffix: "main_actions (pr_cfg p) = (pre @ [a]) @ rest" by simp
  have new: "a \<notin> set rest" using main_suffix_order(1) [OF pre] by simp
  have "if SpawnsWorkers \<in> set rest then unspawned p' else workers_ok p'"
  proof (cases "SpawnsWorkers \<in> set (pr_main p)")
    case True
    then have u: "unspawned p" using ok by (simp add: order_ok_def)
    show ?thesis
    proof (cases "a = SpawnsWorkers")
      case True
      with u new main_does show ?thesis
        using workers_ok_cong [OF workers_ok_start [OF u], of p'] by (simp add: unspawned_def)
    qed (use u main_does True in \<open>auto simp: unspawned_def\<close>)
  next
    case False
    then have "workers_ok p" using ok by (simp add: order_ok_def)
    with False main_does show ?thesis using workers_ok_cong [of p p'] by auto
  qed
  moreover have "SpawnsWeb \<in> set rest \<longrightarrow> pr_listening p' = None"
  proof
    assume web: "SpawnsWeb \<in> set rest"
    with new have "a \<noteq> SpawnsWeb" by blast
    with web ok main_does do_main_listening [of a R C iter ok' ?p] show "pr_listening p' = None"
      by (simp add: order_ok_def)
  qed
  moreover have "pr_end p' \<noteq> Some Shutdown" using do_main_end [of R C iter a ok' ?p] main_does by auto
  moreover have "SetsGlobals \<notin> set rest \<longrightarrow> pr_globals p'" "Subscribes \<in> set rest \<longrightarrow> \<not> pr_subscribed p'"
    "StartsCron \<in> set rest \<longrightarrow> \<not> pr_cron p'"
    using ok main_does(2,4) new by (auto simp: order_ok_def)
  moreover have "pr_cfg p' = pr_cfg p" "pr_main p' = rest" using main_does(2) by simp_all
  moreover from suffix have "\<exists>pre. main_actions (pr_cfg p) = pre @ rest" by blast
  ultimately show ?thesis unfolding order_ok_def by presburger
next
  case (workers_do a rest ok')
  have "workers_ok p" "SpawnsWorkers \<notin> set (pr_main p)"
    using ok workers_do by (auto simp: order_ok_def unspawned_def split: if_splits)
  with workers_ok_do [of p a rest ok'] workers_do ok show ?thesis
    by (cases a) (auto simp: order_ok_def ends_def)
next
  case (signals sig kills stops)
  then show ?thesis by (intro order_ok_cong [OF ok]) (simp_all add: signal_def ends_def Let_def)
next
  case (runs_nil l s')
  then show ?thesis by (intro order_ok_cong [OF ok]) (simp_all add: panics_in_def ends_def split: label.split)
next
  case main_returns
  then show ?thesis by (intro order_ok_cong [OF ok]) (simp_all add: ends_def)
next
  case (bridge rest b session out)
  then show ?thesis by (intro order_ok_cong [OF ok]) (simp_all add: ends_def split: sum.split)
next
  case (runs l s')
  then show ?thesis by (intro order_ok_cong [OF ok]) simp_all
qed

lemma proc_step_cfg:
  assumes "proc_step W L hiter R C entries iter l p p'"
  shows "pr_cfg p' = pr_cfg p"
  using assms
proof cases
  case (workers_do a rest ok)
  then show ?thesis by (cases a) (simp_all add: ends_def)
qed (auto simp: ends_def signal_def panics_in_def Let_def split: sum.split label.split)

lemma reachable_order:
  assumes "proc_runs allowed W L hiter R C entries iter (launched cfg s) p"
  shows "order_ok p \<and> pr_cfg p = cfg"
proof (rule proc_runs_invariant [OF assms])
  show "order_ok (launched cfg s) \<and> pr_cfg (launched cfg s) = cfg"
    using order_ok_launched by (simp add: launched_def)
qed (use order_ok_step proc_step_cfg in blast)

lemma serving_ready:
  assumes "order_ok p" and "pr_serving p"
  shows "pr_globals p" "pr_client p" "pr_server p" "''device_update'' \<in> set (pr_mux p)" "''evaluate_rule'' \<in> set (pr_mux p)"
proof -
  have spawned: "SpawnsWorkers \<notin> set (pr_main p)" and ok: "workers_ok p"
    using assms by (auto simp: order_ok_def unspawned_def split: if_splits)
  from assms(1) obtain pre where "main_actions (pr_cfg p) = pre @ pr_main p" by (auto simp: order_ok_def)
  from main_suffix_order(2) [OF this] spawned assms(1) show "pr_globals p" by (auto simp: order_ok_def)
  from ok assms(2) obtain finished where f: "StartWorkers = finished @ pr_workers p" "RunsServer \<in> set finished"
    "MakesClient \<in> set finished \<longrightarrow> pr_client p" "MakesServer \<in> set finished \<longrightarrow> pr_server p"
    "\<forall>ty. Handles ty \<in> set finished \<longrightarrow> ty \<in> set (pr_mux p)"
    by (auto simp: workers_ok_def)
  from f(1,2) have "finished = StartWorkers" by (auto simp: StartWorkers_def Cons_eq_append_conv)
  with f(3-5) show "pr_client p" "pr_server p" "''device_update'' \<in> set (pr_mux p)" "''evaluate_rule'' \<in> set (pr_mux p)"
    by (simp_all add: StartWorkers_def)
qed

lemma client_stays:
  assumes "pr_client p \<and> pr_server p \<and> pr_end p \<noteq> Some NilPointer" and "proc_step W L hiter R C entries iter l p p'"
  shows "pr_client p' \<and> pr_server p' \<and> pr_end p' \<noteq> Some NilPointer"
  using assms(2)
proof cases
  case (main_does a rest ok)
  with assms(1) do_main_end [of R C iter a ok "p\<lparr>pr_main := rest\<rparr>"] show ?thesis by auto
next
  case (workers_do a rest ok)
  with assms(1) show ?thesis by (cases a) (simp_all add: ends_def)
qed (use assms(1) in \<open>auto simp: ends_def signal_def Let_def split: sum.split\<close>)

text \<open>
  C13: the workers never run half set up. In every run of the program, whatever fails and whichever
  goroutine is faster, when a worker can take a task, the connections the handlers use are set,
  the queue client exists and both kinds of task have their handler; and whatever happens from
  then on, the process does not end by the nil queue client or the nil server, the pointers that the
  other goroutine sets. (The bridge has a nil pointer of its own, the request it fails to make.)
\<close>

theorem workers_ready:
  assumes "proc_runs allowed W L hiter R C entries iter (launched cfg s) p" and "pr_serving p"
  shows "pr_globals p \<and> pr_client p \<and> {''device_update'', ''evaluate_rule''} \<subseteq> set (pr_mux p)
    \<and> (pr_end p = None \<longrightarrow> (\<forall>p'. proc_runs anything W L hiter R C entries iter p p' \<longrightarrow> pr_end p' \<noteq> Some NilPointer))"
proof -
  note ready = serving_ready [OF reachable_order [OF assms(1), THEN conjunct1] assms(2)]
  have "pr_end p' \<noteq> Some NilPointer" if "pr_end p = None" "proc_runs anything W L hiter R C entries iter p p'" for p'
  proof -
    have "pr_client p' \<and> pr_server p' \<and> pr_end p' \<noteq> Some NilPointer"
      by (rule proc_runs_invariant [where I = "\<lambda>p. pr_client p \<and> pr_server p \<and> pr_end p \<noteq> Some NilPointer", OF that(2)])
        (use ready that(1) in simp, rule client_stays)
    then show ?thesis by simp
  qed
  with ready show ?thesis by simp
qed

section \<open>A report that comes too early\<close>

definition do_mains ::
  "'r redis_api \<Rightarrow> 'c cron_api \<Rightarrow> (string list \<Rightarrow> string list) \<Rightarrow> main_action list \<Rightarrow> ('r, 'c) process \<Rightarrow> ('r, 'c) process" where
  "do_mains R C iter as p = fold (\<lambda>a p. do_main R C iter a True (p\<lparr>pr_main := tl (pr_main p)\<rparr>)) as p"

lemma proc_runs_trans:
  assumes "proc_runs allowed W L hiter R C entries iter p p1" and "proc_runs allowed W L hiter R C entries iter p1 p2"
  shows "proc_runs allowed W L hiter R C entries iter p p2"
  using assms(2,1) by induction (auto intro: proc_steps)

lemma do_mains_append:
  "do_mains R C iter (as @ bs) p = do_mains R C iter bs (do_mains R C iter as p)"
  by (simp add: do_mains_def)

lemma do_mains_main: "pr_main (do_mains R C iter as p) = drop (length as) (pr_main p)"
  by (induction as arbitrary: p) (simp_all add: do_mains_def drop_Suc)

lemma do_mains_snoc:
  "do_mains R C iter (as @ [a]) p
     = do_main R C iter a True ((do_mains R C iter as p)\<lparr>pr_main := tl (pr_main (do_mains R C iter as p))\<rparr>)"
  by (simp add: do_mains_def)

lemma do_mains_fields:
  "pr_cfg (do_mains R C iter as p) = pr_cfg p"
  "Subscribes \<in> set as \<Longrightarrow> Disconnects \<notin> set as \<Longrightarrow> pr_subscribed (do_mains R C iter as p)"
  "StartsCron \<in> set as \<Longrightarrow> StopsCron \<notin> set as \<Longrightarrow> pr_cron (do_mains R C iter as p)"
proof -
  show "pr_cfg (do_mains R C iter as p) = pr_cfg p"
    by (induction as rule: rev_induct) (simp_all add: do_mains_snoc, simp add: do_mains_def)
  show "Subscribes \<in> set as \<Longrightarrow> Disconnects \<notin> set as \<Longrightarrow> pr_subscribed (do_mains R C iter as p)"
    by (induction as rule: rev_induct) (auto simp: do_mains_snoc)
  show "StartsCron \<in> set as \<Longrightarrow> StopsCron \<notin> set as \<Longrightarrow> pr_cron (do_mains R C iter as p)"
    by (induction as rule: rev_induct) (auto simp: do_mains_snoc)
qed

text \<open>\<open>main\<close> running ahead of everything else, with nothing failing.\<close>

lemma main_runs_ahead:
  assumes "pr_main p = as @ rest" and "pr_end p = None" and "RunsBridge \<notin> set as" and "AwaitsSignal \<notin> set as"
    and "\<And>bs a cs. as = bs @ a # cs \<Longrightarrow> pr_end (do_mains R C iter bs p) = None"
    and main: "\<And>p. allowed (MainDoes True) p"
  shows "proc_runs allowed W L hiter R C entries iter p (do_mains R C iter as p)"
  using assms(1-5)
proof (induction as arbitrary: rest rule: rev_induct)
  case (snoc a as)
  have "proc_runs allowed W L hiter R C entries iter p (do_mains R C iter as p)"
    using snoc.prems(1-4) by (intro snoc.IH) (auto intro: snoc.prems(5))
  moreover have "pr_main (do_mains R C iter as p) = a # rest" using snoc.prems(1) by (simp add: do_mains_main)
  then have "proc_step W L hiter R C entries iter (MainDoes True) (do_mains R C iter as p)
      (do_main R C iter a True ((do_mains R C iter as p)\<lparr>pr_main := rest\<rparr>))"
    using snoc.prems(3-5) by (intro proc_step.main_does) auto
  ultimately show ?case
    using \<open>pr_main (do_mains R C iter as p) = a # rest\<close>
    by (simp add: do_mains_snoc) (rule proc_steps [where l = "MainDoes True"], simp_all add: main)
qed (simp add: do_mains_def proc_stays)

text \<open>
  C16: the start is a race. \<open>main\<close> subscribes to the reports as soon as it can, while the queue client
  is made by another goroutine: if a device reports before that goroutine has had its turn, the
  first well-formed report kills the program, although nothing has failed.
\<close>

theorem startup_race:
  assumes "unmarshal_map payload = Some m"
  shows "\<exists>p p'. proc_runs anything W L hiter R C entries iter (launched cfg s) p
    \<and> pr_workers p = StartWorkers \<and> pr_subscribed p
    \<and> proc_step W L hiter R C entries iter (Runs (Mqtt topic payload)) p p' \<and> pr_end p' = Some NilPointer"
proof -
  let ?as = "[OpensPool (GetDBURL cfg), MakesRedis (GetRedisAddr cfg), ConnectsMqtt (GetMQTTBroker cfg) (GetMQTTClientID cfg),
    SetsGlobals, SpawnsWorkers, StartsCron, Subscribes]"
  let ?p = "do_mains R C iter ?as (launched cfg s)"
  have p: "pr_end ?p = None" "pr_workers ?p = StartWorkers" "pr_subscribed ?p" "\<not> pr_client ?p" "pr_sys ?p = s"
    by (simp_all add: do_mains_def launched_def)
  have "proc_runs anything W L hiter R C entries iter (launched cfg s) ?p"
  proof (rule main_runs_ahead [where rest = "drop 7 (main_actions cfg)"])
    show "pr_main (launched cfg s) = ?as @ drop 7 (main_actions cfg)"
      by (simp add: launched_def main_actions_def engine_start_def)
    show "pr_end (do_mains R C iter bs (launched cfg s)) = None" if "?as = bs @ a # cs" for bs a cs
      using that by (auto simp: Cons_eq_append_conv do_mains_def launched_def)
  qed (simp_all add: launched_def)
  moreover obtain s' where s': "sys_step (web_of W (pr_cfg ?p)) R C entries iter (Mqtt topic payload) (pr_sys ?p) s'" "enqueues s s'"
  proof
    show "sys_step (web_of W (pr_cfg ?p)) R C entries iter (Mqtt topic payload) (pr_sys ?p)
        ((pr_sys ?p)\<lparr>sys_engine := (sys_engine (pr_sys ?p))\<lparr>e_queue := onDeviceUpdate topic payload (e_queue (sys_engine (pr_sys ?p)))\<rparr>\<rparr>)"
      by (rule sys_step.mqtt) simp
    show "enqueues s ((pr_sys ?p)\<lparr>sys_engine := (sys_engine (pr_sys ?p))\<lparr>e_queue := onDeviceUpdate topic payload (e_queue (sys_engine (pr_sys ?p)))\<rparr>\<rparr>)"
      using assms p(5) by (simp add: enqueues_def onDeviceUpdate_def EnqueueDeviceUpdate_def enqueue_def Let_def)
  qed
  from proc_step.runs_nil [OF p(1) _ s'(1)] p s'(2)
  have "proc_step W L hiter R C entries iter (Runs (Mqtt topic payload)) ?p (panics_in (Mqtt topic payload) s' ?p)"
    by (simp add: started_def)
  moreover have "pr_end (panics_in (Mqtt topic payload) s' ?p) = Some NilPointer" by (simp add: panics_in_def ends_def)
  ultimately show ?thesis using p(2,3) by blast
qed

section \<open>No shutdown with remote access\<close>

text \<open>
  C14: with remote access enabled, the default, the program never shuts down: whatever signals it
  gets, \<open>main\<close> never comes to watch for them, and every statement of the shutdown is still to be
  done when the process ends.
\<close>

theorem never_shut_down:
  assumes "raEnabled (cfgRemoteAccess cfg)" and "proc_runs allowed W L hiter R C entries iter (launched cfg s) p"
  shows "{NotifiesSignals [SIGINT, SIGTERM], AwaitsSignal, Disconnects, StopsCron, StopsServer, ClosesClient, ClosesPool} \<subseteq> set (pr_main p)
    \<and> pr_end p \<noteq> Some Shutdown"
proof -
  have on: "main_bridge cfg \<noteq> None" using assms(1) by (simp add: main_bridge_def)
  have "RunsBridge \<in> set (pr_main p)"
  proof (rule proc_runs_invariant [OF assms(2)])
    show "RunsBridge \<in> set (pr_main (launched cfg s))" using on by (auto simp: launched_def main_actions_def)
    fix l and p p' :: "('a, 'b) process"
    assume "RunsBridge \<in> set (pr_main p)" and "proc_step W L hiter R C entries iter l p p'"
    from this(2,1) show "RunsBridge \<in> set (pr_main p')"
    proof cases
      case (workers_do a rest ok)
      with \<open>RunsBridge \<in> set (pr_main p)\<close> show ?thesis by (cases a) (simp_all add: ends_def)
    qed (auto simp: ends_def signal_def panics_in_def Let_def split: sum.split label.split)
  qed
  moreover obtain pre where "main_actions cfg = pre @ pr_main p"
    using reachable_order [OF assms(2)] by (auto simp: order_ok_def)
  ultimately have "{NotifiesSignals [SIGINT, SIGTERM], AwaitsSignal, Disconnects, StopsCron, StopsServer, ClosesClient, ClosesPool} \<subseteq> set (pr_main p)"
    using main_suffix_order(9) on by blast
  moreover from this have "pr_end p \<noteq> Some Shutdown"
    using reachable_order [OF assms(2)] by (auto simp: order_ok_def)
  ultimately show ?thesis by blast
qed

section \<open>The invariant of the whole process\<close>

lemma do_main_sys: "a \<noteq> LoadsSchedules \<Longrightarrow> a \<noteq> Populates \<Longrightarrow> pr_sys (do_main R C iter a ok p) = pr_sys p"
  by (cases a) (simp_all add: ends_def)

lemma load_run:
  assumes "LoadSchedules C (e_sched (sys_engine (pr_sys p))) (e_db (sys_engine (pr_sys p))) = (loaded, s, d)"
  shows "pr_sys (do_main R C iter LoadsSchedules ok p)
      = (pr_sys p)\<lparr>sys_engine := (sys_engine (pr_sys p))\<lparr>e_sched := s, e_db := d\<rparr>\<rparr>"
    and "pr_end (do_main R C iter LoadsSchedules ok p) = (if loaded then pr_end p else Some (Fatal ''Failed to start engine''))"
  using assms by (simp_all add: on_engine_def ends_def Let_def)

lemma populate_run:
  assumes "populateDeviceRuleAssociations R iter (sys_engine (pr_sys p)) = (populated, e)"
  shows "pr_sys (do_main R C iter Populates ok p) = (pr_sys p)\<lparr>sys_engine := e\<rparr>"
    and "pr_end (do_main R C iter Populates ok p) = (if populated then pr_end p else Some (Fatal ''Failed to start engine''))"
  using assms by (simp_all add: on_engine_def ends_def Let_def)

lemma populate_frame:
  assumes "populateDeviceRuleAssociations R iter e = (ok, e')"
  shows "e_db e' = tick (e_db e)" "e_sched e' = e_sched e" "e_queue e' = e_queue e"
proof -
  obtain res where "GetAllRules (e_db e) = (res, tick (e_db e))" by (metis prod.collapse read_only(2))
  with assms show "e_db e' = tick (e_db e)" "e_sched e' = e_sched e" "e_queue e' = e_queue e"
    by (auto simp: populateDeviceRuleAssociations_def split: sum.splits)
qed

definition fresh_scheduler :: "('c \<Rightarrow> cron_view) \<Rightarrow> 'c scheduler \<Rightarrow> bool" where
  "fresh_scheduler entries s \<longleftrightarrow> (\<exists>c. s = NewScheduler c \<and> entries c = Map.empty)"

lemma fresh_scheduler_empty:
  assumes "cron_service C entries valid" and "fresh_scheduler entries s"
  shows "sched_ok entries s" and "sched_view entries s = Map.empty"
  using assms cron_service.NewScheduler_ok [OF assms(1)]
  by (auto simp: fresh_scheduler_def sched_view_def jobs_view_def NewScheduler_def fun_eq_iff)

text \<open>The two statements of the start that touch the engine.\<close>

lemma load_ok:
  fixes e :: "('r, 'c) engine"
  assumes C: "cron_service C entries valid" and ok: "engine_ok entries valid e" and fresh: "fresh_scheduler entries (e_sched e)"
    and load: "LoadSchedules C (e_sched e) (e_db e) = (loaded, s, d)"
  shows "engine_ok entries valid (e\<lparr>e_sched := s, e_db := d\<rparr>)" and "db_up (e_db e) \<Longrightarrow> loaded \<and> synced entries valid (s, d)"
    and "schedules_only (e_db e) d"
proof -
  have "db_ok (e_db e)" using ok by (simp add: engine_ok_def tables_ok_def)
  note agree = cron_service.LoadSchedules_agree [OF C fresh_scheduler_empty [OF C fresh] this, unfolded load fst_conv snd_conv]
  show "db_up (e_db e) \<Longrightarrow> loaded \<and> synced entries valid (s, d)" using agree(2) .
  show only: "schedules_only (e_db e) d" using agree(3) .
  from agree(1) have "db_ok d" by (simp add: backed_def agree_def)
  with ok only agree(1) show "engine_ok entries valid (e\<lparr>e_sched := s, e_db := d\<rparr>)"
    using tables_ok_schedules [of "e_db e" d] by (simp add: engine_ok_def)
qed

definition started_ok :: "('c \<Rightarrow> cron_view) \<Rightarrow> (string \<Rightarrow> bool) \<Rightarrow> ('r, 'c) process \<Rightarrow> bool" where
  "started_ok entries valid p \<longleftrightarrow> order_ok p \<and> sys_ok entries valid (pr_sys p)
     \<and> (LoadsSchedules \<in> set (pr_main p) \<longrightarrow> fresh_scheduler entries (e_sched (sys_engine (pr_sys p))))"

lemma loading_not_listening:
  assumes "order_ok p" and "LoadsSchedules \<in> set (pr_main p)"
  shows "Populates \<in> set (pr_main p)" and "pr_listening p = None"
proof -
  from assms(1) obtain pre where "main_actions (pr_cfg p) = pre @ pr_main p" by (auto simp: order_ok_def)
  from main_suffix_order [OF this] assms show "Populates \<in> set (pr_main p)" "pr_listening p = None"
    by (auto simp: order_ok_def)
qed

lemma main_action_new:
  assumes "order_ok p" and "pr_main p = a # rest"
  shows "a \<notin> set rest"
proof -
  from assms obtain pre where "main_actions (pr_cfg p) = pre @ a # rest" by (auto simp: order_ok_def)
  from main_suffix_order(1) [OF this] show ?thesis by simp
qed

lemma started_ok_main:
  fixes p :: "('r, 'c) process"
  assumes C: "cron_service C entries valid" and ok: "started_ok entries valid p" and main: "pr_main p = a # rest"
    and order: "order_ok (do_main R C iter a ok' (p\<lparr>pr_main := rest\<rparr>))"
  shows "started_ok entries valid (do_main R C iter a ok' (p\<lparr>pr_main := rest\<rparr>))"
proof -
  let ?p = "p\<lparr>pr_main := rest\<rparr>" and ?e = "sys_engine (pr_sys p)"
  let ?p' = "do_main R C iter a ok' ?p"
  have main': "pr_main ?p' = rest" by simp
  have sys: "engine_ok entries valid ?e" "queue_good (e_queue ?e)" using ok by (simp_all add: started_ok_def sys_ok_def)
  show ?thesis
  proof (cases "a = LoadsSchedules \<or> a = Populates")
    case False
    with ok main order do_main_sys [of a R C iter ok' ?p] show ?thesis by (auto simp: started_ok_def)
  next
    case True
    show ?thesis
    proof (cases "a = Populates")
      case True
      obtain populated e where pop: "populateDeviceRuleAssociations R iter ?e = (populated, e)" by fastforce
      note f = populate_frame [OF pop]
      have "engine_ok entries valid e" using sys(1) f by (simp add: engine_ok_def backed_def)
      with sys(2) f have e: "sys_ok entries valid ((pr_sys p)\<lparr>sys_engine := e\<rparr>)" by (simp add: sys_ok_def)
      have "pr_sys ?p' = (pr_sys p)\<lparr>sys_engine := e\<rparr>"
        using populate_run(1) [of R iter ?p populated e C ok'] pop True by simp
      with ok main order e f(2) main' show ?thesis by (simp only: started_ok_def) auto
    next
      case False
      with True have a: "a = LoadsSchedules" by blast
      obtain loaded s d where load: "LoadSchedules C (e_sched ?e) (e_db ?e) = (loaded, s, d)" by (metis prod_cases3)
      have "fresh_scheduler entries (e_sched ?e)" using ok main a by (simp add: started_ok_def)
      from load_ok(1) [OF C sys(1) this load] sys(2)
      have e: "sys_ok entries valid ((pr_sys p)\<lparr>sys_engine := ?e\<lparr>e_sched := s, e_db := d\<rparr>\<rparr>)" by (simp add: sys_ok_def)
      have "pr_sys ?p' = (pr_sys p)\<lparr>sys_engine := ?e\<lparr>e_sched := s, e_db := d\<rparr>\<rparr>"
        using load_run(1) [of C ?p loaded s d R iter ok'] load a by simp
      moreover have "LoadsSchedules \<notin> set rest" using main_action_new [of p a rest] ok main a by (simp add: started_ok_def)
      ultimately show ?thesis using order e main' by (simp only: started_ok_def) simp
    qed
  qed
qed

lemma started_quiet:
  assumes "started p l" and "pr_listening p = None"
  shows "l \<noteq> Request dr authorization req"
  using assms by (auto simp: started_def)

lemma started_ok_step:
  fixes p p' :: "('r, 'c) process"
  assumes C: "cron_service C entries valid" and ok: "started_ok entries valid p"
    and step: "proc_step W L hiter R C entries iter l p p'"
  shows "started_ok entries valid p'"
proof -
  have order: "order_ok p'" using order_ok_step [OF _ step] ok by (simp add: started_ok_def)
  have quiet: "fresh_scheduler entries (e_sched (sys_engine s'))"
    if "LoadsSchedules \<in> set (pr_main p)" "started p l'" "sys_step W' R C entries iter l' (pr_sys p) s'" for l' s' W'
    using quiet_step(2) [OF that(3) started_quiet [OF that(2)]] loading_not_listening(2) [of p] that(1) ok
    by (simp add: started_ok_def)
  show ?thesis
    using step
  proof cases
    case (main_does a rest ok')
    with started_ok_main [OF C ok] order show ?thesis by simp
  next
    case (workers_do a rest ok')
    with ok order show ?thesis by (cases a) (simp_all add: started_ok_def ends_def)
  next
    case (runs l' s')
    with quiet step_ok [OF C _ runs(5)] ok order show ?thesis by (simp add: started_ok_def)
  next
    case (runs_nil l' s')
    have "sys_ok entries valid s'" using step_ok [OF C _ runs_nil(5)] ok by (simp add: started_ok_def)
    with ok order quiet [OF _ runs_nil(4,5)] runs_nil(2) show ?thesis
      by (cases l') (simp_all add: started_ok_def panics_in_def ends_def sys_ok_def)
  qed (use ok order in \<open>auto simp: started_ok_def ends_def signal_def Let_def split: sum.splits\<close>)
qed

text \<open>
  C3: from the first statement to the last, whatever the libraries, the database and the queue answer,
  with the statements of \<open>main\<close> and of the workers' goroutine in any order and whole handlers, tasks
  and jobs between them, one at a time: the tables stay well formed, the scheduler runs live
  schedules of the table only, and every task in the queue (those an earlier process left
  included) has one of the two registered types and a payload that its handler decodes. (For
  the tables alone the order of the single statements does not matter: \<open>statements_keep_tables\<close>;
  for the scheduler it does: \<open>updates_race\<close>.)
\<close>

theorem program_invariant:
  fixes s :: "('r, 'c) system"
  assumes "cron_service C entries valid" and "tables_ok (e_db (sys_engine s))"
    and "e_sched (sys_engine s) = NewScheduler c" and "entries c = Map.empty" and "queue_good (e_queue (sys_engine s))"
    and "proc_runs allowed W L hiter R C entries iter (launched cfg s) p"
  shows "engine_ok entries valid (sys_engine (pr_sys p))
    \<and> (\<forall>t \<in> set (q_tasks (e_queue (sys_engine (pr_sys p)))).
        Handles (taskType t) \<in> set StartWorkers
        \<and> ((taskType t = ''device_update'' \<and> unmarshal_dut (taskPayload t) \<noteq> None)
            \<or> (taskType t = ''evaluate_rule'' \<and> unmarshal_et (taskPayload t) \<noteq> None)))"
proof -
  have fresh: "fresh_scheduler entries (e_sched (sys_engine s))" using assms(3,4) by (auto simp: fresh_scheduler_def)
  from fresh_scheduler_empty [OF assms(1) this] assms(2) have "engine_ok entries valid (sys_engine s)"
    by (simp add: engine_ok_def backed_def agree_def tables_ok_def map_le_def)
  with assms(5) fresh order_ok_launched [of cfg s] have "started_ok entries valid (launched cfg s)"
    by (simp add: started_ok_def sys_ok_def) (simp add: launched_def)
  have "started_ok entries valid p"
    by (rule proc_runs_invariant [where I = "started_ok entries valid", OF assms(6) \<open>started_ok entries valid (launched cfg s)\<close>])
      (rule started_ok_step [OF assms(1)])
  then have ok: "engine_ok entries valid (sys_engine (pr_sys p))" "queue_good (e_queue (sys_engine (pr_sys p)))"
    by (simp_all add: started_ok_def sys_ok_def)
  have "Handles (taskType t) \<in> set StartWorkers" if "good_task t" for t
    using good_task_decodes [OF that] by (auto simp: StartWorkers_def)
  with ok good_task_decodes show ?thesis unfolding queue_good_def by blast
qed

section \<open>The rules in force, from the start\<close>

definition calmly :: "web_env \<Rightarrow> plabel \<Rightarrow> ('r, 'c) process \<Rightarrow> bool" where
  "calmly W l p \<longleftrightarrow> (\<forall>l'. l = Runs l' \<longrightarrow> calm (web_of W (pr_cfg p)) l' (pr_sys p))"

definition healthy ::
  "('r \<Rightarrow> rview) \<Rightarrow> ('c \<Rightarrow> cron_view) \<Rightarrow> (string \<Rightarrow> bool) \<Rightarrow> main_action list \<Rightarrow> ('r, 'c) engine \<Rightarrow> bool" where
  "healthy view entries valid m e \<longleftrightarrow> tables_ok (e_db e) \<and> db_up (e_db e) \<and> rules_ready (e_db e)
     \<and> (if LoadsSchedules \<in> set m then fresh_scheduler entries (e_sched e) else synced entries valid (e_sched e, e_db e))
     \<and> (Populates \<notin> set m \<longrightarrow> in_force view entries valid e)"

lemma in_force_healthy:
  "in_force view entries valid e \<Longrightarrow> Populates \<notin> set m \<Longrightarrow> LoadsSchedules \<notin> set m \<Longrightarrow> healthy view entries valid m e"
  by (simp add: healthy_def) (simp add: in_force_but_def)

lemma healthy_frame:
  fixes e e' :: "('r, 'c) engine"
  assumes "healthy view entries valid m e" and "rules_frame (e_db e) (e_db e')" and "e_sched e' = e_sched e"
    and "Populates \<notin> set m \<Longrightarrow> in_force view entries valid e'"
  shows "healthy view entries valid m e'"
  using assms synced_keeps [of entries valid "e_sched e" "e_db e" "e_db e'"]
  by (auto simp: healthy_def rules_frame_def rules_ready_def db_up_def keeps_def)

lemma healthy_other_action:
  "a \<noteq> LoadsSchedules \<Longrightarrow> a \<noteq> Populates \<Longrightarrow> healthy view entries valid (a # rest) e = healthy view entries valid rest e"
  by (simp add: healthy_def)

lemma healthy_load:
  fixes e :: "('r, 'c) engine"
  assumes C: "cron_service C entries valid" and ok: "healthy view entries valid (LoadsSchedules # rest) e"
    and load: "LoadSchedules C (e_sched e) (e_db e) = (loaded, s, d)"
    and "LoadsSchedules \<notin> set rest" and "Populates \<in> set rest"
  shows "healthy view entries valid rest (e\<lparr>e_sched := s, e_db := d\<rparr>)"
proof -
  have h: "tables_ok (e_db e)" "db_up (e_db e)" "rules_ready (e_db e)" and fresh: "fresh_scheduler entries (e_sched e)"
    using ok by (simp_all add: healthy_def)
  from fresh_scheduler_empty [OF C fresh] h(1) have "engine_ok entries valid e"
    by (simp add: engine_ok_def backed_def agree_def tables_ok_def map_le_def)
  note l = load_ok [OF C this fresh load]
  with h assms(4,5) show ?thesis
    by (auto simp: healthy_def schedules_only_def rules_ready_def db_up_def engine_ok_def)
qed

lemma healthy_populate:
  fixes e :: "('r, 'c) engine"
  assumes R: "redis_server R view" and "visit_order iter" and ok: "healthy view entries valid (Populates # rest) e"
    and pop: "populateDeviceRuleAssociations R iter e = (populated, e')"
    and "Populates \<notin> set rest" and "LoadsSchedules \<notin> set rest"
  shows "healthy view entries valid rest e'"
proof -
  have h: "tables_ok (e_db e)" "db_up (e_db e)" "rules_ready (e_db e)" "synced entries valid (e_sched e, e_db e)"
    using ok assms(6) by (simp_all add: healthy_def)
  have "in_force view entries valid e'"
    by (rule populate_in_force [OF R assms(2) h]) (use pop in auto)
  then show ?thesis by (rule in_force_healthy [OF _ assms(5,6)])
qed

lemma healthy_main:
  fixes p :: "('r, 'c) process"
  assumes R: "redis_server R view" and C: "cron_service C entries valid" and iter: "visit_order iter"
    and order: "order_ok p" and main: "pr_main p = a # rest"
    and ok: "healthy view entries valid (pr_main p) (sys_engine (pr_sys p))"
  shows "healthy view entries valid rest (sys_engine (pr_sys (do_main R C iter a ok' (p\<lparr>pr_main := rest\<rparr>))))"
proof -
  let ?p = "p\<lparr>pr_main := rest\<rparr>" and ?e = "sys_engine (pr_sys p)"
  from order main obtain pre where "main_actions (pr_cfg p) = (pre @ [a]) @ rest" by (auto simp: order_ok_def)
  note later = main_suffix_order [OF this] and new = main_action_new [OF order main]
  consider "a = LoadsSchedules" | "a = Populates" | "a \<noteq> LoadsSchedules" "a \<noteq> Populates" by blast
  then show ?thesis
  proof cases
    case 1
    obtain loaded s d where load: "LoadSchedules C (e_sched ?e) (e_db ?e) = (loaded, s, d)" by (metis prod_cases3)
    from loading_not_listening(1) [OF order] main 1 have "Populates \<in> set rest" by simp
    from healthy_load [OF C _ load _ this] ok main new 1 have "healthy view entries valid rest (?e\<lparr>e_sched := s, e_db := d\<rparr>)"
      by simp
    then show ?thesis using load_run(1) [of C ?p loaded s d R iter ok'] load 1 by simp
  next
    case 2
    obtain populated e where pop: "populateDeviceRuleAssociations R iter ?e = (populated, e)" by fastforce
    have "LoadsSchedules \<notin> set rest" using later(6) new 2 by blast
    from healthy_populate [OF R iter _ pop _ this] ok main new 2 have "healthy view entries valid rest e" by simp
    then show ?thesis using populate_run(1) [of R iter ?p populated e C ok'] pop 2 by simp
  next
    case 3
    with ok main show ?thesis by (simp add: do_main_sys healthy_other_action)
  qed
qed

lemma healthy_runs:
  fixes p :: "('r, 'c) process"
  assumes R: "redis_server R view" and C: "cron_service C entries valid" and iter: "visit_order iter"
    and order: "order_ok p" and ok: "healthy view entries valid (pr_main p) (sys_engine (pr_sys p))"
    and l: "started p l" "calm W' l (pr_sys p)" and step: "sys_step W' R C entries iter l (pr_sys p) s'"
  shows "healthy view entries valid (pr_main p) (sys_engine s')"
proof (cases "Populates \<in> set (pr_main p)")
  case True
  from order obtain pre where "main_actions (pr_cfg p) = pre @ pr_main p" by (auto simp: order_ok_def)
  from main_suffix_order(7) [OF this True] order have "pr_listening p = None" by (simp add: order_ok_def)
  from quiet_step(1,2) [OF step started_quiet [OF l(1) this]] True ok
  show ?thesis by (intro healthy_frame [OF ok]) simp_all
next
  case False
  with loading_not_listening(1) [OF order] have loaded: "LoadsSchedules \<notin> set (pr_main p)" by blast
  from False ok have "in_force view entries valid (sys_engine (pr_sys p))" by (simp add: healthy_def)
  from in_force_healthy [OF step_in_force [OF R C iter this l(2) step] False loaded] show ?thesis .
qed

lemma healthy_step:
  fixes p p' :: "('r, 'c) process"
  assumes R: "redis_server R view" and C: "cron_service C entries valid" and iter: "visit_order iter"
    and order: "order_ok p" and ok: "healthy view entries valid (pr_main p) (sys_engine (pr_sys p))"
    and calm: "calmly W l p" and step: "proc_step W L hiter R C entries iter l p p'"
  shows "healthy view entries valid (pr_main p') (sys_engine (pr_sys p'))"
  using step
proof cases
  case (main_does a rest ok')
  with healthy_main [OF R C iter order _ ok] show ?thesis by simp
next
  case (workers_do a rest ok')
  with ok show ?thesis by (cases a) (simp_all add: ends_def)
next
  case (runs l' s')
  with healthy_runs [OF R C iter order ok runs(4) _ runs(5)] calm show ?thesis by (simp add: calmly_def)
next
  case (runs_nil l' s')
  have h: "healthy view entries valid (pr_main p) (sys_engine s')"
    using healthy_runs [OF R C iter order ok runs_nil(4) _ runs_nil(5)] calm runs_nil(1) by (simp add: calmly_def)
  have "healthy view entries valid (pr_main p) ((sys_engine s')\<lparr>e_queue := q\<rparr>)" for q
    using h by (simp add: healthy_def)
  with ok runs_nil(2) show ?thesis by (cases l') (simp_all add: panics_in_def ends_def)
qed (use ok in \<open>simp_all add: ends_def signal_def Let_def split: sum.splits\<close>)

text \<open>
  C5: the rules are in force from the moment the program is started, and stay so. In every run from
  the first statement on, once the engine has populated the rule sets, and always when the web
  server listens, the rule set of every device is the one the present rule table wants and the
  scheduler runs exactly the live schedules: through reports, tasks, alarms, write-backs, time
  passing, signals, and requests that create, change or delete rules, if these run one at a time.
  The conditions are that database and Redis answer, that the tables are well formed at the start
  and no rule has NULL for \<open>enabled\<close>, that no accepted device is named like a rule set, and that a
  rule is deleted by its owner only, under its id as the program writes it (not 007 for 7:
  \<open>padded_delete\<close>), and without a row of the history that refers to it (the program writes none).
\<close>

theorem program_in_force:
  fixes s :: "('r, 'c) system"
  assumes "redis_server R view" and "cron_service C entries valid" and "visit_order iter"
    and "tables_ok (e_db (sys_engine s))" and "db_up (e_db (sys_engine s))" and "rules_ready (e_db (sys_engine s))"
    and "e_sched (sys_engine s) = NewScheduler c" and "entries c = Map.empty"
    and runs: "proc_runs (calmly W) W L hiter R C entries iter (launched cfg s) p"
    and populated: "Populates \<notin> set (pr_main p) \<or> pr_listening p \<noteq> None"
  shows "(\<lambda>v. key_members (view (e_redis (sys_engine (pr_sys p)))) (rules_key v))
      = wanted (map rule_of (t_rules (e_db (sys_engine (pr_sys p)))))
    \<and> synced entries valid (e_sched (sys_engine (pr_sys p)), e_db (sys_engine (pr_sys p)))"
proof -
  let ?I = "\<lambda>p. order_ok p \<and> healthy view entries valid (pr_main p) (sys_engine (pr_sys p))"
  have "fresh_scheduler entries (e_sched (sys_engine s))" using assms(7,8) by (auto simp: fresh_scheduler_def)
  with assms(4-6) have "?I (launched cfg s)"
    by (simp add: healthy_def order_ok_launched) (simp add: launched_def main_actions_def engine_start_def)
  with runs have ok: "?I p"
    by (rule proc_runs_invariant [where I = ?I]) (blast intro: order_ok_step healthy_step [OF assms(1-3)])
  from ok obtain pre where "main_actions (pr_cfg p) = pre @ pr_main p" by (auto simp: order_ok_def)
  from main_suffix_order(7) [OF this] populated ok have "Populates \<notin> set (pr_main p)" by (auto simp: order_ok_def)
  with ok have "in_force view entries valid (sys_engine (pr_sys p))" by (simp add: healthy_def)
  then show ?thesis by (simp add: in_force_but_def associations_def wanted_by_def fun_eq_iff)
qed

section \<open>The program comes up\<close>

lemma load_succeeds:
  fixes p :: "('r, 'c) process"
  assumes C: "cron_service C entries valid" and ok: "healthy view entries valid (LoadsSchedules # rest) (sys_engine (pr_sys p))"
  shows "pr_end (do_main R C iter LoadsSchedules True p) = pr_end p"
proof -
  let ?e = "sys_engine (pr_sys p)"
  obtain loaded s d where load: "LoadSchedules C (e_sched ?e) (e_db ?e) = (loaded, s, d)" by (metis prod_cases3)
  have h: "tables_ok (e_db ?e)" "db_up (e_db ?e)" and fresh: "fresh_scheduler entries (e_sched ?e)"
    using ok by (simp_all add: healthy_def)
  from fresh_scheduler_empty [OF C fresh] h(1) have "engine_ok entries valid ?e"
    by (simp add: engine_ok_def backed_def agree_def tables_ok_def map_le_def)
  from load_ok(2) [OF C this fresh load h(2)] load_run(2) [OF load] show ?thesis by simp
qed

lemma populate_succeeds:
  fixes p :: "('r, 'c) process"
  assumes R: "redis_server R view" and iter: "visit_order iter"
    and ok: "healthy view entries valid (Populates # rest) (sys_engine (pr_sys p))" and "LoadsSchedules \<notin> set rest"
  shows "pr_end (do_main R C iter Populates True p) = pr_end p"
proof -
  let ?e = "sys_engine (pr_sys p)"
  have h: "tables_ok (e_db ?e)" "db_up (e_db ?e)" "rules_ready (e_db ?e)" "synced entries valid (e_sched ?e, e_db ?e)"
    using ok assms(4) by (simp_all add: healthy_def)
  obtain populated e where pop: "populateDeviceRuleAssociations R iter ?e = (populated, e)" by fastforce
  have populated by (rule populate_in_force [OF R iter h]) (use pop in simp)
  with populate_run(2) [OF pop] show ?thesis by simp
qed

lemma other_succeeds:
  "a \<notin> {LoadsSchedules, Populates, StopsServer, ClosesClient} \<Longrightarrow> pr_end (do_main R C iter a True p) = pr_end p"
  by (cases a) simp_all

lemma do_mains_healthy:
  fixes p :: "('r, 'c) process"
  assumes R: "redis_server R view" and C: "cron_service C entries valid" and iter: "visit_order iter"
    and "order_ok p" and "healthy view entries valid (pr_main p) (sys_engine (pr_sys p))" and "pr_end p = None"
    and "pr_main p = as @ rest" and "set as \<inter> {RunsBridge, AwaitsSignal, StopsServer, ClosesClient} = {}"
  shows "pr_end (do_mains R C iter as p) = None"
  using assms(4-8)
proof (induction as arbitrary: p)
  case (Cons a as)
  let ?p = "do_main R C iter a True (p\<lparr>pr_main := as @ rest\<rparr>)"
  have "proc_step W L hiter R C entries iter (MainDoes True) p ?p" for W L hiter
    using Cons.prems by (intro proc_step.main_does) auto
  from order_ok_step [OF Cons.prems(1) this] have order: "order_ok ?p" .
  have h: "healthy view entries valid (as @ rest) (sys_engine (pr_sys ?p))"
    using healthy_main [OF R C iter Cons.prems(1) _ Cons.prems(2)] Cons.prems(4) by simp
  have main: "pr_main p = a # as @ rest" using Cons.prems(4) by simp
  obtain pre where "main_actions (pr_cfg p) = pre @ a # as @ rest"
    using order_suffix [OF Cons.prems(1) main] by blast
  then have "main_actions (pr_cfg p) = (pre @ [a]) @ as @ rest" by simp
  note later = main_suffix_order(6) [OF this] main_action_new [OF Cons.prems(1) main]
  have "pr_end ?p = pr_end (p\<lparr>pr_main := as @ rest\<rparr>)"
  proof -
    consider "a = LoadsSchedules" | "a = Populates" | "a \<notin> {LoadsSchedules, Populates, StopsServer, ClosesClient}"
      using Cons.prems(5) by auto
    then show ?thesis
    proof cases
      case 1
      with Cons.prems(2,4) show ?thesis using load_succeeds [OF C, of view "as @ rest" "p\<lparr>pr_main := as @ rest\<rparr>" R iter] by simp
    next
      case 2
      then have "LoadsSchedules \<notin> set (as @ rest)" using later by blast
      from populate_succeeds [OF R iter _ this, of entries valid "p\<lparr>pr_main := as @ rest\<rparr>" C] Cons.prems(2) main 2
      show ?thesis by simp
    next
      case 3
      then show ?thesis by (rule other_succeeds)
    qed
  qed
  with Cons.prems(3) have "pr_end ?p = None" by simp
  moreover have "do_mains R C iter (a # as) p = do_mains R C iter as ?p"
    using Cons.prems(4) by (simp add: do_mains_def)
  ultimately show ?case using Cons.IH [OF order _ _ _ ] h Cons.prems(5) by simp
qed (simp add: do_mains_def)

lemma main_comes_up:
  fixes s :: "('r, 'c) system"
  assumes R: "redis_server R view" and C: "cron_service C entries valid" and iter: "visit_order iter"
    and "tables_ok (e_db (sys_engine s))" and "db_up (e_db (sys_engine s))" and "rules_ready (e_db (sys_engine s))"
    and "e_sched (sys_engine s) = NewScheduler c" and "entries c = Map.empty"
  shows "\<exists>p. proc_runs (calmly W) W L hiter R C entries iter (launched cfg s) p \<and> pr_end p = None
    \<and> pr_listening p = Some (CHR '':'' # show_int (appPort (cfgApp cfg))) \<and> pr_subscribed p \<and> pr_cron p
    \<and> in_force view entries valid (sys_engine (pr_sys p))"
proof -
  let ?as = "[OpensPool (GetDBURL cfg), MakesRedis (GetRedisAddr cfg), ConnectsMqtt (GetMQTTBroker cfg) (GetMQTTClientID cfg),
    SetsGlobals, SpawnsWorkers, StartsCron, Subscribes, LoadsSchedules,
    Populates, SpawnsWeb]" and ?start = "launched cfg s"
  let ?p = "do_mains R C iter ?as ?start"
  have main: "pr_main ?start = ?as @ drop 10 (main_actions cfg)"
    by (simp add: launched_def main_actions_def engine_start_def)
  have "fresh_scheduler entries (e_sched (sys_engine s))" using assms(7,8) by (auto simp: fresh_scheduler_def)
  with assms(4-6) have h: "healthy view entries valid (pr_main ?start) (sys_engine (pr_sys ?start))"
    by (simp add: healthy_def) (simp add: launched_def main_actions_def engine_start_def)
  have ends: "pr_end (do_mains R C iter bs ?start) = None" if "?as = bs @ cs" for bs cs
  proof (rule do_mains_healthy [OF R C iter order_ok_launched h])
    show "pr_main ?start = bs @ cs @ drop 10 (main_actions cfg)" using main that by simp
    have "set bs \<subseteq> set ?as" unfolding that by simp
    then show "set bs \<inter> {RunsBridge, AwaitsSignal, StopsServer, ClosesClient} = {}" by auto
  qed (simp add: launched_def)
  have run: "proc_runs (calmly W) W L hiter R C entries iter ?start ?p"
  proof (rule main_runs_ahead [OF main])
    show "pr_end (do_mains R C iter bs ?start) = None" if "?as = bs @ a # cs" for bs a cs using ends [OF that] .
    show "pr_end ?start = None" by (simp add: launched_def)
    show "calmly W (MainDoes True) p" for p :: "('r, 'c) process" by (simp add: calmly_def)
  qed simp_all
  have "pr_listening (do_mains R C iter (as @ [SpawnsWeb]) ?start) = Some (CHR '':'' # show_int (appPort (cfgApp cfg)))" for as
    by (simp add: do_mains_snoc do_mains_fields) (simp add: launched_def)
  from this [of "butlast ?as"] have listening: "pr_listening ?p = Some (CHR '':'' # show_int (appPort (cfgApp cfg)))" by simp
  have connected: "pr_subscribed ?p" "pr_cron ?p" by (simp_all add: do_mains_fields)
  have "order_ok ?p \<and> healthy view entries valid (pr_main ?p) (sys_engine (pr_sys ?p))"
    by (rule proc_runs_invariant [where I = "\<lambda>p. order_ok p \<and> healthy view entries valid (pr_main p) (sys_engine (pr_sys p))", OF run])
      (use h order_ok_launched in blast, blast intro: order_ok_step healthy_step [OF R C iter])
  moreover have "Populates \<notin> set (pr_main ?p)"
    by (simp add: do_mains_main launched_def main_actions_def engine_start_def engine_stop_def stop_workers_def)
  ultimately have "in_force view entries valid (sys_engine (pr_sys ?p))" by (simp add: healthy_def)
  with run ends [of ?as "[]"] listening connected show ?thesis by blast
qed

text \<open>A rule with NULL for \<open>enabled\<close>, which the schema allows, is enough to keep the engine from starting.\<close>

lemma null_enabled_stops_start:
  assumes "db_up (e_db (sys_engine (pr_sys p)))" and "x \<in> set (t_rules (e_db (sys_engine (pr_sys p))))" and "rrEnabled x = None"
  shows "pr_end (do_main R C iter Populates ok p) = Some (Fatal ''Failed to start engine'')"
proof -
  have "\<exists>y. scan_all scan_rule rows = Inl y" if "x \<in> set rows" for rows
    using that assms(3) by (induction rows) (auto simp: scan_rule_def split: sum.split option.split)
  with assms(1,2) obtain y where "GetAllRules (e_db (sys_engine (pr_sys p))) = (Inl y, tick (e_db (sys_engine (pr_sys p))))"
    by (fastforce simp: GetAllRules_def query_up sum_bind_def)
  then show ?thesis by (simp add: populateDeviceRuleAssociations_def on_engine_def ends_def Let_def)
qed

text \<open>
  C17: the program comes up. If nothing fails, from any database with well-formed tables in which no rule
  has NULL for \<open>enabled\<close> and every rule id is one the sequence has handed out, \<open>main\<close> can reach the
  point where the web server listens on the configured port, subscribed to the reports, with
  cron running and the rules in force.
\<close>

theorem program_comes_up:
  fixes s :: "('r, 'c) system"
  assumes R: "redis_server R view" and C: "cron_service C entries valid" and iter: "visit_order iter"
    and "tables_ok (e_db (sys_engine s))" and "db_up (e_db (sys_engine s))" and "rules_ready (e_db (sys_engine s))"
    and "e_sched (sys_engine s) = NewScheduler c" and "entries c = Map.empty"
  shows "\<exists>p. proc_runs (calmly W) W L hiter R C entries iter (launched cfg s) p \<and> pr_end p = None
    \<and> pr_listening p = Some (CHR '':'' # show_int (appPort (cfgApp cfg))) \<and> pr_subscribed p \<and> pr_cron p
    \<and> in_force view entries valid (sys_engine (pr_sys p))"
  by (rule main_comes_up [OF assms])

section \<open>A start\<close>

definition demo_cfg :: Config where
  "demo_cfg = read_config Map.empty"

definition demo_start :: "(mem, mem_entries) process" where
  "demo_start = launched demo_cfg (demo_system web_engine)"

lemma demo_ready:
  "tables_ok (e_db (sys_engine (demo_system web_engine)))" "db_up (e_db (sys_engine (demo_system web_engine)))"
  "rules_ready (e_db (sys_engine (demo_system web_engine)))" "e_sched (sys_engine (demo_system web_engine)) = NewScheduler []"
  "queue_good (e_queue (sys_engine (demo_system web_engine)))"
  using web_tables_ok web_engine_below
  by (simp_all add: rules_ready_def queue_good_def demo_queue_def) (auto simp: demo_rules_def demo_db_def demo_row)

lemma program_comes_up_witness:
  "\<forall>L hiter. \<exists>p. proc_runs (calmly demo_web) demo_web L hiter mem_redis mem_cron map_of rev demo_start p
    \<and> pr_listening p = Some '':5069'' \<and> in_force mem_view map_of mem_valid (sys_engine (pr_sys p))"
proof (intro allI)
  fix L hiter
  have "CHR '':'' # show_int (appPort (cfgApp demo_cfg)) = '':5069''"
    by (simp add: demo_cfg_def read_config_def getEnvInt_def os_getenv_def show_int_def show_nat.simps digit_char_def)
  with program_comes_up [OF mem.redis_server_axioms mc.cron_service_axioms visit_order_rev demo_ready(1-4), of demo_web L hiter demo_cfg]
  show "\<exists>p. proc_runs (calmly demo_web) demo_web L hiter mem_redis mem_cron map_of rev demo_start p
    \<and> pr_listening p = Some '':5069'' \<and> in_force mem_view map_of mem_valid (sys_engine (pr_sys p))"
    by (auto simp: demo_start_def)
qed

lemma program_in_force_witness:
  "\<forall>L hiter. \<exists>p. proc_runs (calmly demo_web) demo_web L hiter mem_redis mem_cron map_of rev demo_start p
    \<and> pr_listening p \<noteq> None
    \<and> (\<lambda>v. key_members (mem_view (e_redis (sys_engine (pr_sys p)))) (rules_key v))
        = wanted (map rule_of (t_rules (e_db (sys_engine (pr_sys p)))))"
proof (intro allI)
  fix L hiter
  obtain p where p: "proc_runs (calmly demo_web) demo_web L hiter mem_redis mem_cron map_of rev demo_start p" "pr_listening p \<noteq> None"
    using main_comes_up [OF mem.redis_server_axioms mc.cron_service_axioms visit_order_rev demo_ready(1-4), of demo_web L hiter demo_cfg]
    by (auto simp: demo_start_def)
  from program_in_force [OF mem.redis_server_axioms mc.cron_service_axioms visit_order_rev demo_ready(1-4) _ p(1) [unfolded demo_start_def]] p
  show "\<exists>p. proc_runs (calmly demo_web) demo_web L hiter mem_redis mem_cron map_of rev demo_start p
    \<and> pr_listening p \<noteq> None
    \<and> (\<lambda>v. key_members (mem_view (e_redis (sys_engine (pr_sys p)))) (rules_key v))
        = wanted (map rule_of (t_rules (e_db (sys_engine (pr_sys p)))))"
    by auto
qed

lemma never_shut_down_witness:
  "\<forall>L hiter. \<exists>p. proc_runs (calmly demo_web) demo_web L hiter mem_redis mem_cron map_of rev demo_start p
    \<and> pr_listening p \<noteq> None \<and> pr_end p \<noteq> Some Shutdown \<and> StopsCron \<in> set (pr_main p)"
proof (intro allI)
  fix L hiter
  obtain p where p: "proc_runs (calmly demo_web) demo_web L hiter mem_redis mem_cron map_of rev demo_start p" "pr_listening p \<noteq> None"
    using main_comes_up [OF mem.redis_server_axioms mc.cron_service_axioms visit_order_rev demo_ready(1-4), of demo_web L hiter demo_cfg]
    by (auto simp: demo_start_def)
  have "raEnabled (cfgRemoteAccess demo_cfg)" by (simp add: demo_cfg_def read_config_def getEnvBool_def os_getenv_def)
  from never_shut_down [OF this p(1) [unfolded demo_start_def]] p
  show "\<exists>p. proc_runs (calmly demo_web) demo_web L hiter mem_redis mem_cron map_of rev demo_start p
    \<and> pr_listening p \<noteq> None \<and> pr_end p \<noteq> Some Shutdown \<and> StopsCron \<in> set (pr_main p)"
    by auto
qed

lemma startup_race_witness:
  "\<forall>L hiter. \<exists>p p'. proc_runs anything demo_web L hiter mem_redis mem_cron map_of rev demo_start p
    \<and> proc_step demo_web L hiter mem_redis mem_cron map_of rev (Runs (Mqtt ''devices/lamp/state'' (Some (JObj [])))) p p'
    \<and> pr_end p' = Some NilPointer"
proof (intro allI)
  fix L hiter
  have "unmarshal_map (Some (JObj [])) = Some (Some [])" by (simp add: obj_map_def)
  from startup_race [OF this, of demo_web L hiter mem_redis mem_cron map_of rev demo_cfg "demo_system web_engine" "''devices/lamp/state''"]
  show "\<exists>p p'. proc_runs anything demo_web L hiter mem_redis mem_cron map_of rev demo_start p
    \<and> proc_step demo_web L hiter mem_redis mem_cron map_of rev (Runs (Mqtt ''devices/lamp/state'' (Some (JObj [])))) p p'
    \<and> pr_end p' = Some NilPointer" unfolding demo_start_def by blast
qed

text \<open>The goroutine of the workers running ahead.\<close>

definition do_workers :: "worker_action list \<Rightarrow> ('r, 'c) process \<Rightarrow> ('r, 'c) process" where
  "do_workers as p = fold (\<lambda>a p. do_worker a True (p\<lparr>pr_workers := tl (pr_workers p)\<rparr>)) as p"

lemma do_workers_snoc:
  "do_workers (as @ [a]) p = do_worker a True ((do_workers as p)\<lparr>pr_workers := tl (pr_workers (do_workers as p))\<rparr>)"
  by (simp add: do_workers_def)

lemma do_worker_frame [simp]:
  "pr_workers (do_worker a True p) = pr_workers p" "pr_end (do_worker a True p) = pr_end p"
  "pr_main (do_worker a True p) = pr_main p" "pr_sys (do_worker a True p) = pr_sys p"
  "pr_subscribed (do_worker a True p) = pr_subscribed p" "pr_cfg (do_worker a True p) = pr_cfg p"
  by (cases a; simp)+

lemma workers_run_ahead:
  assumes "pr_workers p = as @ rest" and "pr_end p = None" and workers: "\<And>p. allowed (WorkersDo True) p"
  shows "proc_runs allowed W L hiter R C entries iter p (do_workers as p) \<and> pr_workers (do_workers as p) = rest
    \<and> pr_end (do_workers as p) = None \<and> pr_sys (do_workers as p) = pr_sys p
    \<and> pr_subscribed (do_workers as p) = pr_subscribed p \<and> pr_cfg (do_workers as p) = pr_cfg p"
  using assms(1,2)
proof (induction as arbitrary: rest rule: rev_induct)
  case (snoc a as)
  from snoc.IH [of "a # rest"] snoc.prems
  have ih: "proc_runs allowed W L hiter R C entries iter p (do_workers as p)" "pr_workers (do_workers as p) = a # rest"
    "pr_end (do_workers as p) = None" and same: "pr_sys (do_workers as p) = pr_sys p"
    "pr_subscribed (do_workers as p) = pr_subscribed p" "pr_cfg (do_workers as p) = pr_cfg p" by simp_all
  from proc_steps [where l = "WorkersDo True", OF ih(1) workers proc_step.workers_do [OF ih(3,2)]] ih same
  show ?case by (simp add: do_workers_snoc)
qed (simp add: do_workers_def proc_stays)

lemma demo_serves:
  obtains p where "proc_runs anything demo_web L hiter mem_redis mem_cron map_of rev demo_start p" and "pr_serving p"
    and "pr_subscribed p" and "pr_client p" and "pr_end p = None" and "pr_sys p = demo_system web_engine" and "pr_cfg p = demo_cfg"
proof -
  let ?as = "[OpensPool (GetDBURL demo_cfg), MakesRedis (GetRedisAddr demo_cfg), ConnectsMqtt (GetMQTTBroker demo_cfg) (GetMQTTClientID demo_cfg),
    SetsGlobals, SpawnsWorkers, StartsCron, Subscribes]"
  let ?p = "do_mains mem_redis mem_cron rev ?as demo_start"
  have p: "pr_end ?p = None" "pr_workers ?p = StartWorkers @ []" "pr_subscribed ?p" "pr_sys ?p = demo_system web_engine" "pr_cfg ?p = demo_cfg"
    by (simp_all add: do_mains_def demo_start_def launched_def)
  have run: "proc_runs anything demo_web L hiter mem_redis mem_cron map_of rev demo_start ?p"
  proof (rule main_runs_ahead [where rest = "drop 7 (main_actions demo_cfg)"])
    show "pr_main demo_start = ?as @ drop 7 (main_actions demo_cfg)"
      by (simp add: demo_start_def launched_def main_actions_def engine_start_def)
    show "pr_end (do_mains mem_redis mem_cron rev bs demo_start) = None" if "?as = bs @ a # cs" for bs a cs
      using that by (auto simp: Cons_eq_append_conv do_mains_def demo_start_def launched_def)
  qed (simp_all add: demo_start_def launched_def)
  note w = workers_run_ahead [where allowed = anything, OF p(2,1)]
  have "pr_serving (do_workers StartWorkers ?p)" "pr_client (do_workers StartWorkers ?p)"
    unfolding StartWorkers_def by (simp_all add: do_workers_def)
  with proc_runs_trans [OF run, of "do_workers StartWorkers ?p"] w p(3-5) show thesis
    by (intro that [of "do_workers StartWorkers ?p"]) simp_all
qed

lemma workers_ready_witness:
  "\<forall>L hiter. \<exists>p. proc_runs anything demo_web L hiter mem_redis mem_cron map_of rev demo_start p \<and> pr_serving p
    \<and> pr_globals p \<and> pr_client p"
proof (intro allI)
  fix L hiter
  obtain p where p: "proc_runs anything demo_web L hiter mem_redis mem_cron map_of rev demo_start p" "pr_serving p"
    by (rule demo_serves [of L hiter])
  from workers_ready [OF p(1) [unfolded demo_start_def] p(2)] p
  show "\<exists>p. proc_runs anything demo_web L hiter mem_redis mem_cron map_of rev demo_start p \<and> pr_serving p
    \<and> pr_globals p \<and> pr_client p" by blast
qed

lemma program_invariant_witness:
  "\<forall>L hiter. \<exists>p. proc_runs anything demo_web L hiter mem_redis mem_cron map_of rev demo_start p
    \<and> length (q_tasks (e_queue (sys_engine (pr_sys p)))) = 1
    \<and> (\<forall>t \<in> set (q_tasks (e_queue (sys_engine (pr_sys p)))). Handles (taskType t) \<in> set StartWorkers)"
proof (intro allI)
  fix L hiter
  obtain p where p: "proc_runs anything demo_web L hiter mem_redis mem_cron map_of rev demo_start p"
    "pr_subscribed p" "pr_client p" "pr_end p = None" "pr_sys p = demo_system web_engine" "pr_cfg p = demo_cfg"
    by (rule demo_serves [of L hiter])
  let ?l = "Mqtt ''devices/lamp'' (Some (JObj []))" and ?s = "demo_system web_engine"
  let ?s' = "?s\<lparr>sys_engine := web_engine\<lparr>e_queue := onDeviceUpdate ''devices/lamp'' (Some (JObj [])) (e_queue web_engine)\<rparr>\<rparr>"
  have "sys_step (web_of demo_web (pr_cfg p)) mem_redis mem_cron map_of rev ?l (pr_sys p) ?s'"
    unfolding p(5) by (rule sys_step.mqtt) simp
  from proc_step.runs [OF p(4) _ this] p(2,3)
  have "proc_step demo_web L hiter mem_redis mem_cron map_of rev (Runs ?l) p (p\<lparr>pr_sys := ?s'\<rparr>)" by (simp add: started_def)
  from proc_steps [OF p(1) TrueI this]
  have run: "proc_runs anything demo_web L hiter mem_redis mem_cron map_of rev demo_start (p\<lparr>pr_sys := ?s'\<rparr>)" .
  from program_invariant [OF mc.cron_service_axioms demo_ready(1,4) _ demo_ready(5) run [unfolded demo_start_def]]
  have "\<forall>t \<in> set (q_tasks (e_queue (sys_engine (pr_sys (p\<lparr>pr_sys := ?s'\<rparr>))))). Handles (taskType t) \<in> set StartWorkers" by simp
  moreover have "length (q_tasks (e_queue (sys_engine (pr_sys (p\<lparr>pr_sys := ?s'\<rparr>))))) = 1"
    by (simp add: onDeviceUpdate_def EnqueueDeviceUpdate_def demo_queue_def enqueue_def obj_map_def Let_def)
  ultimately show "\<exists>p. proc_runs anything demo_web L hiter mem_redis mem_cron map_of rev demo_start p
    \<and> length (q_tasks (e_queue (sys_engine (pr_sys p)))) = 1
    \<and> (\<forall>t \<in> set (q_tasks (e_queue (sys_engine (pr_sys p)))). Handles (taskType t) \<in> set StartWorkers)"
    using run by blast
qed

end
