(* ===== verification/Shutdown.thy ===== *)
theory Shutdown
  imports Program
begin

text \<open>
  The end of \<open>cmd/engine/main.go\<close>: what can happen once \<open>main\<close> waits for a signal, which with
  remote access disabled is the state the program stays in.
\<close>

section \<open>The statements after the wait\<close>

definition wind_down :: "main_action list" where
  "wind_down = AwaitsSignal # engine_stop @ [StopsCron] @ stop_workers @ [ClosesPool]"

lemma main_waits:
  assumes "main_actions cfg = pre @ AwaitsSignal # rest"
  shows "AwaitsSignal # rest = wind_down"
  using assms by (auto simp: main_actions_def wind_down_def engine_start_def engine_stop_def stop_workers_def
      Cons_eq_append_conv split: if_splits)

text \<open>\<open>main\<close> watches for two signals, from before it waits for one.\<close>

lemma do_main_watching [simp]:
  "pr_watching (do_main R C iter a ok p) = pr_watching p @ (case a of NotifiesSignals sigs \<Rightarrow> sigs | _ \<Rightarrow> [])"
  "pr_signalled (do_main R C iter a ok p) = pr_signalled p"
  by (cases a; simp add: on_engine_def ends_def Let_def split: prod.split)+

lemma notified:
  assumes "main_actions cfg = pre @ NotifiesSignals sigs # rest"
  shows "sigs = [SIGINT, SIGTERM]"
proof -
  have "NotifiesSignals sigs \<in> set (main_actions cfg)" using assms by simp
  then show ?thesis by (auto simp: main_actions_def engine_start_def engine_stop_def stop_workers_def split: if_splits)
qed

definition watches :: "('r, 'c) process \<Rightarrow> bool" where
  "watches p \<longleftrightarrow> pr_watching p = (if NotifiesSignals [SIGINT, SIGTERM] \<in> set (pr_main p) then [] else [SIGINT, SIGTERM])"

lemma watches_step:
  assumes "order_ok p" and watches: "watches p" and "proc_step W L hiter R C entries iter l p p'"
  shows "watches p'"
  using assms(3)
proof cases
  case (main_does a rest ok)
  obtain pre where pre: "main_actions (pr_cfg p) = pre @ a # rest" using order_suffix [OF assms(1) main_does(4)] by blast
  note new = main_action_new [OF assms(1) main_does(4)]
  show ?thesis
  proof (cases "\<exists>sigs. a = NotifiesSignals sigs")
    case True
    with notified pre have "a = NotifiesSignals [SIGINT, SIGTERM]" by blast
    with watches new main_does(2,4) show ?thesis by (simp add: watches_def)
  next
    case False
    then have "(case a of NotifiesSignals sigs \<Rightarrow> sigs | _ \<Rightarrow> []) = []" by (simp split: main_action.split)
    with False watches main_does(2,4) show ?thesis by (auto simp: watches_def)
  qed
next
  case (workers_do a rest ok)
  with watches show ?thesis by (cases a) (simp_all add: watches_def ends_def)
qed (use watches in \<open>auto simp: watches_def ends_def signal_def panics_in_def Let_def split: sum.split label.split\<close>)

lemma reachable_watching:
  assumes "proc_runs allowed W L hiter R C entries iter (launched cfg s) p"
  shows "watches p"
proof -
  have "order_ok p \<and> watches p"
    by (rule proc_runs_invariant [OF assms])
      (simp add: order_ok_launched watches_def, simp add: launched_def main_actions_def, blast intro: order_ok_step watches_step)
  then show ?thesis ..
qed

section \<open>Winding down\<close>

text \<open>
  The workers are set up, \<open>main\<close> waits or is past the wait, and what its statements so far have
  stopped is stopped.
\<close>

definition winding :: "('r, 'c) process \<Rightarrow> bool" where
  "winding p \<longleftrightarrow> (\<exists>pre. wind_down = pre @ pr_main p) \<and> pr_watching p = [SIGINT, SIGTERM] \<and> pr_workers p = [] \<and> pr_client p \<and> pr_server p
     \<and> (AwaitsSignal \<notin> set (pr_main p) \<longrightarrow> pr_signalled p) \<and> (Disconnects \<notin> set (pr_main p) \<longrightarrow> \<not> pr_subscribed p)
     \<and> (StopsCron \<notin> set (pr_main p) \<longrightarrow> \<not> pr_cron p) \<and> (StopsServer \<notin> set (pr_main p) \<longrightarrow> \<not> pr_serving p)
     \<and> pr_end p \<in> {None, Some Shutdown} \<and> (pr_end p = Some Shutdown \<longrightarrow> pr_main p = [])"

lemma winding_cong:
  assumes "winding p" and "pr_main p' = pr_main p" "pr_watching p' = pr_watching p" "pr_workers p' = pr_workers p"
    "pr_client p' = pr_client p" "pr_server p' = pr_server p" "pr_signalled p \<longrightarrow> pr_signalled p'"
    "pr_subscribed p' = pr_subscribed p" "pr_cron p' = pr_cron p" "pr_serving p' \<longrightarrow> pr_serving p"
    "pr_end p' = pr_end p"
  shows "winding p'"
  using assms unfolding winding_def by simp blast

lemma wind_down_actions:
  assumes "wind_down = pre @ a # rest"
  shows "a \<in> {AwaitsSignal, Disconnects, StopsCron, StopsServer, ClosesClient, ClosesPool}" and "a \<notin> set rest"
proof -
  have "a \<in> set wind_down" unfolding assms by simp
  then show "a \<in> {AwaitsSignal, Disconnects, StopsCron, StopsServer, ClosesClient, ClosesPool}"
    by (auto simp: wind_down_def engine_stop_def stop_workers_def)
  have "distinct (pre @ a # rest)"
    unfolding assms [symmetric] by (simp add: wind_down_def engine_stop_def stop_workers_def)
  then show "a \<notin> set rest" by simp
qed

text \<open>No statement of \<open>main\<close> fails any more.\<close>

lemma winding_main:
  fixes p :: "('r, 'c) process"
  assumes ok: "winding p" and running: "pr_end p = None" and main: "pr_main p = a # rest" and signalled: "a = AwaitsSignal \<Longrightarrow> pr_signalled p"
  shows "winding (do_main R C iter a ok' (p\<lparr>pr_main := rest\<rparr>))" and "pr_end (do_main R C iter a ok' (p\<lparr>pr_main := rest\<rparr>)) = None"
    and "pr_sys (do_main R C iter a ok' (p\<lparr>pr_main := rest\<rparr>)) = pr_sys p" and "a \<noteq> RunsBridge"
proof -
  let ?p' = "do_main R C iter a ok' (p\<lparr>pr_main := rest\<rparr>)"
  from ok main obtain pre where pre: "wind_down = pre @ a # rest" by (auto simp: winding_def)
  note a = wind_down_actions [OF pre]
  show "pr_end ?p' = None" and "pr_sys ?p' = pr_sys p" and "a \<noteq> RunsBridge"
    using a(1) ok running by (auto simp: winding_def)
  moreover from pre have "\<exists>pre. wind_down = pre @ rest" by (metis append.assoc append_Cons append_Nil)
  ultimately show "winding ?p'" using ok main signalled a by (auto simp: winding_def)
qed

text \<open>Runs in which no signals come but the two.\<close>

definition heeded :: "plabel \<Rightarrow> ('r, 'c) process \<Rightarrow> bool" where
  "heeded l p \<longleftrightarrow> (\<forall>sig kills stops. l = Signal sig kills stops \<longrightarrow> sig \<in> {SIGINT, SIGTERM})"

lemma winding_step:
  fixes p p' :: "('r, 'c) process"
  assumes ok: "winding p" and heeded: "heeded l p" and step: "proc_step W L hiter R C entries iter l p p'"
  shows "winding p'"
  using step
proof cases
  case (main_does a rest ok')
  with winding_main(1) [OF ok] show ?thesis by simp
next
  case main_returns
  with ok show ?thesis by (simp add: winding_def ends_def)
next
  case (bridge rest b session out)
  with ok obtain pre where "wind_down = pre @ RunsBridge # rest" by (auto simp: winding_def)
  from wind_down_actions(1) [OF this] show ?thesis by simp
next
  case (signals sig kills stops)
  with ok heeded show ?thesis by (intro winding_cong [OF ok]) (auto simp: signal_def winding_def heeded_def Let_def)
qed (use ok in \<open>auto simp: winding_def\<close>)

lemma heeded_main [simp]: "heeded (MainDoes ok) p" "heeded MainReturns p"
  by (simp_all add: heeded_def)

lemma winding_reaches_end:
  fixes p :: "('r, 'c) process"
  assumes "winding p" and "pr_end p = None" and "pr_signalled p"
  shows "\<exists>p'. proc_runs heeded W L hiter R C entries iter p p' \<and> pr_end p' = Some Shutdown \<and> pr_sys p' = pr_sys p"
  using assms
proof (induction "pr_main p" arbitrary: p)
  case Nil
  from proc_steps [where allowed = heeded, OF proc_stays heeded_main(2) proc_step.main_returns [OF Nil.prems(2) Nil.hyps [symmetric]]]
  show ?case by (intro exI [of _ "ends Shutdown p"]) (simp add: ends_def)
next
  case (Cons a rest)
  let ?p = "do_main R C iter a True (p\<lparr>pr_main := rest\<rparr>)"
  note main = Cons.hyps(2) [symmetric]
  note w = winding_main(1-3) [OF Cons.prems(1,2) main Cons.prems(3), of R C iter True]
    and other = winding_main(4) [OF Cons.prems(1,2) main Cons.prems(3)]
  from Cons.hyps(1) [of ?p] w Cons.prems(3)
  obtain p' where p': "proc_runs heeded W L hiter R C entries iter ?p p'" "pr_end p' = Some Shutdown" "pr_sys p' = pr_sys p"
    by auto
  from proc_step.main_does [OF Cons.prems(2) main other] Cons.prems(3)
  have "proc_step W L hiter R C entries iter (MainDoes True) p ?p" by simp
  from proc_runs_trans [OF proc_steps [where allowed = heeded, OF proc_stays heeded_main(1) this] p'(1)] p'(2,3) show ?case by blast
qed

lemma waiting_winds:
  assumes run: "proc_runs allowed W L hiter R C entries iter (launched cfg s) p"
    and main: "pr_main p = AwaitsSignal # rest" and "pr_workers p = []" and "pr_end p = None"
  shows "winding p"
proof -
  have order: "order_ok p" using reachable_order [OF run] by blast
  then obtain pre where "main_actions (pr_cfg p) = pre @ AwaitsSignal # rest" using main by (auto simp: order_ok_def)
  from main_waits [OF this] main have all: "pr_main p = wind_down" by simp
  then have gone: "SpawnsWorkers \<notin> set (pr_main p)" "NotifiesSignals [SIGINT, SIGTERM] \<notin> set (pr_main p)"
    by (simp_all add: wind_down_def engine_stop_def stop_workers_def)
  from gone(1) order have "workers_ok p" by (simp add: order_ok_def)
  with assms(3) have "pr_client p" "pr_server p" by (simp_all add: workers_ok_def, simp_all add: StartWorkers_def)
  moreover have "pr_watching p = [SIGINT, SIGTERM]" using reachable_watching [OF run] gone(2) by (simp add: watches_def)
  moreover have "set wind_down = {AwaitsSignal, Disconnects, StopsCron, StopsServer, ClosesClient, ClosesPool}"
    by (auto simp: wind_down_def engine_stop_def stop_workers_def)
  ultimately show ?thesis using assms(3,4) all by (simp add: winding_def)
qed

text \<open>
  C15: once \<open>main\<close> waits for a signal and the workers have been set up, SIGINT and SIGTERM end the
  program in order, and as long as no other signal comes nothing else ends it. Whatever happens from
  then on, reports, tasks, requests and these two signals in any order, none kills the process,
  nothing panics and nothing is fatal; when it ends, a signal has come, nothing is subscribed any
  more, cron and the workers are stopped; and as long as it runs, either signal can still bring it
  to its end, without a change to the data. Any other signal may kill it on the spot.
\<close>

theorem shuts_down:
  assumes "proc_runs allowed W L hiter R C entries iter (launched cfg s) p"
    and "pr_main p = AwaitsSignal # rest" and "pr_workers p = []" and "pr_end p = None"
    and later: "proc_runs heeded W L hiter R C entries iter p p1"
  shows "pr_end p1 \<in> {None, Some Shutdown}
    \<and> (pr_end p1 = Some Shutdown \<longrightarrow> pr_signalled p1 \<and> \<not> pr_subscribed p1 \<and> \<not> pr_cron p1 \<and> \<not> pr_serving p1)
    \<and> (pr_end p1 = None \<longrightarrow> (\<forall>sig \<in> {SIGINT, SIGTERM}. \<exists>p2 p3. proc_step W L hiter R C entries iter (Signal sig False False) p1 p2
          \<and> proc_runs heeded W L hiter R C entries iter p2 p3 \<and> pr_end p3 = Some Shutdown \<and> pr_sys p3 = pr_sys p1))
    \<and> (pr_end p1 = None \<longrightarrow> (\<forall>sig. (\<exists>p2. proc_step W L hiter R C entries iter (Signal sig True False) p1 p2 \<and> pr_end p2 = Some Killed)
          \<longleftrightarrow> sig \<notin> {SIGINT, SIGTERM}))"
proof -
  have ok: "winding p1"
    by (rule proc_runs_invariant [where I = winding, OF later waiting_winds [OF assms(1-4)]]) (blast intro: winding_step)
  then have watching: "pr_watching p1 = [SIGINT, SIGTERM]" by (simp add: winding_def)
  have "\<exists>p2 p3. proc_step W L hiter R C entries iter (Signal sig False False) p1 p2
      \<and> proc_runs heeded W L hiter R C entries iter p2 p3 \<and> pr_end p3 = Some Shutdown \<and> pr_sys p3 = pr_sys p1"
    if running: "pr_end p1 = None" and sig: "sig \<in> {SIGINT, SIGTERM}" for sig
  proof -
    let ?q = "signal sig False False p1"
    have q: "pr_signalled ?q" "pr_end ?q = None" "pr_sys ?q = pr_sys p1"
      using watching running sig by (auto simp: signal_def)
    have step: "proc_step W L hiter R C entries iter (Signal sig False False) p1 ?q"
      by (rule proc_step.signals [OF running]) simp
    have "heeded (Signal sig False False) p1" using sig by (simp add: heeded_def)
    from winding_reaches_end [OF winding_step [OF ok this step] q(2,1)] q(3) step show ?thesis by metis
  qed
  moreover have "(\<exists>p2. proc_step W L hiter R C entries iter (Signal sig True False) p1 p2 \<and> pr_end p2 = Some Killed)
      \<longleftrightarrow> sig \<notin> {SIGINT, SIGTERM}" if running: "pr_end p1 = None" for sig
  proof
    assume "\<exists>p2. proc_step W L hiter R C entries iter (Signal sig True False) p1 p2 \<and> pr_end p2 = Some Killed"
    then show "sig \<notin> {SIGINT, SIGTERM}" using watching by (auto elim!: proc_stepE)
  next
    assume "sig \<notin> {SIGINT, SIGTERM}"
    with proc_step.signals [OF running, of sig True W L hiter R C entries iter False] watching
    show "\<exists>p2. proc_step W L hiter R C entries iter (Signal sig True False) p1 p2 \<and> pr_end p2 = Some Killed"
      by (auto simp: signal_def ends_def)
  qed
  ultimately show ?thesis using ok by (simp add: winding_def)
qed

section \<open>A program that shuts down\<close>

definition quiet_cfg :: Config where
  "quiet_cfg = read_config (map_of [(''REMOTE_ACCESS_ENABLED'', ''false'')])"

lemma do_mains_workers:
  "SpawnsWorkers \<in> set as \<Longrightarrow> pr_workers (do_mains R C iter as p) = StartWorkers"
  by (induction as rule: rev_induct) (auto simp: do_mains_snoc)

lemma do_workers_main: "pr_main (do_workers as p) = pr_main p"
  by (induction as rule: rev_induct) (simp_all add: do_workers_snoc, simp add: do_workers_def)

lemma quiet_waits:
  obtains p where "proc_runs anything demo_web L hiter mem_redis mem_cron map_of rev (launched quiet_cfg (demo_system web_engine)) p"
    and "pr_main p = wind_down" and "pr_workers p = []" and "pr_end p = None" and "pr_subscribed p" and "pr_serving p"
proof -
  let ?s = "demo_system web_engine"
  let ?start = "launched quiet_cfg ?s"
  let ?as = "take 12 (main_actions quiet_cfg)" and ?rest = "drop 12 (main_actions quiet_cfg)"
  have "\<not> raEnabled (cfgRemoteAccess quiet_cfg)"
    by (simp add: quiet_cfg_def read_config_def getEnvBool_def os_getenv_def)
  then have actions: "?as = [OpensPool (GetDBURL quiet_cfg), MakesRedis (GetRedisAddr quiet_cfg),
      ConnectsMqtt (GetMQTTBroker quiet_cfg) (GetMQTTClientID quiet_cfg), SetsGlobals, SpawnsWorkers, StartsCron, Subscribes,
      LoadsSchedules, Populates, SpawnsWeb, SpawnsMdns (mdLocalName (cfgMDNS quiet_cfg)), NotifiesSignals [SIGINT, SIGTERM]]"
    "?rest = wind_down"
    by (simp_all add: main_actions_def engine_start_def wind_down_def main_bridge_def)
  let ?p = "do_mains mem_redis mem_cron rev ?as ?start"
  have main: "pr_main ?start = ?as @ ?rest" by (simp add: launched_def)
  have h: "healthy mem_view map_of mem_valid (pr_main ?start) (sys_engine (pr_sys ?start))"
    using demo_ready(1-4)
    by (simp add: healthy_def fresh_scheduler_def) (simp add: launched_def main_actions_def engine_start_def)
  have up: "pr_end (do_mains mem_redis mem_cron rev bs ?start) = None" if "?as = bs @ cs" for bs cs
  proof (rule do_mains_healthy [OF mem.redis_server_axioms mc.cron_service_axioms visit_order_rev order_ok_launched h])
    show "pr_main ?start = bs @ cs @ ?rest" using main that by simp
    have "set bs \<subseteq> set ?as" unfolding that by simp
    then show "set bs \<inter> {RunsBridge, AwaitsSignal, StopsServer, ClosesClient} = {}" unfolding actions(1) by auto
  qed (simp add: launched_def)
  have run: "proc_runs anything demo_web L hiter mem_redis mem_cron map_of rev ?start ?p"
  proof (rule main_runs_ahead [OF main])
    show "pr_end (do_mains mem_redis mem_cron rev bs ?start) = None" if "?as = bs @ a # cs" for bs a cs using up [OF that] .
    show "pr_end ?start = None" by (simp add: launched_def)
  qed (simp_all add: actions(1))
  have p: "pr_workers ?p = StartWorkers @ []" "pr_end ?p = None" "pr_subscribed ?p"
    using up [of ?as "[]"] by (simp_all add: do_mains_workers do_mains_fields(2) actions(1))
  have "length ?as = 12" unfolding actions(1) by simp
  with actions(2) have waits: "pr_main ?p = wind_down" by (simp only: do_mains_main) (simp add: launched_def)
  note w = workers_run_ahead [where allowed = anything, OF p(1,2) TrueI]
  have "pr_serving (do_workers StartWorkers ?p)" unfolding StartWorkers_def by (simp add: do_workers_def)
  with proc_runs_trans [OF run, of "do_workers StartWorkers ?p"] w p(3) waits show thesis
    by (intro that [of "do_workers StartWorkers ?p"]) (simp_all add: do_workers_main)
qed

lemma shuts_down_witness:
  "\<forall>L hiter. \<exists>p p1 p2. proc_runs anything demo_web L hiter mem_redis mem_cron map_of rev (launched quiet_cfg (demo_system web_engine)) p
    \<and> pr_subscribed p \<and> pr_serving p \<and> proc_step demo_web L hiter mem_redis mem_cron map_of rev (Signal SIGTERM False False) p p1
    \<and> proc_runs heeded demo_web L hiter mem_redis mem_cron map_of rev p1 p2 \<and> pr_end p2 = Some Shutdown \<and> pr_sys p2 = pr_sys p"
proof (intro allI)
  fix L hiter
  obtain p where p: "proc_runs anything demo_web L hiter mem_redis mem_cron map_of rev (launched quiet_cfg (demo_system web_engine)) p"
    "pr_main p = wind_down" "pr_workers p = []" "pr_end p = None" "pr_subscribed p" "pr_serving p"
    by (rule quiet_waits [of L hiter])
  from shuts_down [OF p(1) p(2) [unfolded wind_down_def] p(3,4) proc_stays, THEN conjunct2, THEN conjunct2, THEN conjunct1] p(4)
  obtain p1 p2 where "proc_step demo_web L hiter mem_redis mem_cron map_of rev (Signal SIGTERM False False) p p1"
    "proc_runs heeded demo_web L hiter mem_redis mem_cron map_of rev p1 p2" "pr_end p2 = Some Shutdown" "pr_sys p2 = pr_sys p"
    by auto
  with p(1,5,6) show "\<exists>p p1 p2. proc_runs anything demo_web L hiter mem_redis mem_cron map_of rev (launched quiet_cfg (demo_system web_engine)) p
    \<and> pr_subscribed p \<and> pr_serving p \<and> proc_step demo_web L hiter mem_redis mem_cron map_of rev (Signal SIGTERM False False) p p1
    \<and> proc_runs heeded demo_web L hiter mem_redis mem_cron map_of rev p1 p2 \<and> pr_end p2 = Some Shutdown \<and> pr_sys p2 = pr_sys p"
    by (intro exI [of _ p] exI [of _ p1] exI [of _ p2]) simp
qed

end
