(* ===== verification/Remote.thy ===== *)
theory Remote
  imports InternetBridge
begin

text \<open>
  \<open>cmd/remote_server/main.go\<close>: the public server that passes requests on to the agents and their
  answers back. One goroutine reads each agent connection, one serves each client request;
  they share the two maps. An event is what one goroutine does between two points where it can
  wait: \<open>perform\<close> gives the state after it, \<open>None\<close> when the goroutine is not there or has to
  wait. A goroutine that panics is gone (gin recovers the panic), a mutex it held stays locked.
\<close>

section \<open>State\<close>

record client_request =
  crqAgent :: string
  crqMethod :: string
  crqPath :: string
  crqHeaders :: "(string \<times> string list) list"
  crqBody :: raw

text \<open>
  A client request: its agent is looked up, the message is written, the channel is stored, the
  answer or the timeout comes (\<open>Answered\<close> with what goes to \<open>c.JSON\<close>; what \<open>gin\<close> makes of a status
  that is none, or of one without a body, is outside).
\<close>

datatype client =
    Arrived client_request
  | Found nat client_request
  | Sent string
  | Waiting string
  | Answered int json

text \<open>
  A connection: not there, reading (with the id it registered, if any), holding \<open>pending.mux\<close> and
  blocked on the channel of a client, or gone.
\<close>

datatype conn =
    Idle
  | Open string
  | Sending string string nat int json
  | Gone

text \<open>The unbuffered channel of a request is named after the client that made it.\<close>

record remote =
  rm_agents :: "string \<Rightarrow> nat option"
  rm_pending :: "string \<Rightarrow> nat option"
  rm_lock :: "nat option"
  rm_conns :: "nat \<Rightarrow> conn"
  rm_clients :: "nat \<Rightarrow> client option"
  rm_written :: "(nat \<times> json) list"

definition remote_start :: remote where
  "remote_start = \<lparr>rm_agents = Map.empty, rm_pending = Map.empty, rm_lock = None, rm_conns = (\<lambda>_. Idle),
     rm_clients = Map.empty, rm_written = []\<rparr>"

definition set_conn :: "nat \<Rightarrow> conn \<Rightarrow> remote \<Rightarrow> remote" where
  "set_conn c x s = s\<lparr>rm_conns := (rm_conns s)(c := x)\<rparr>"

definition set_client :: "nat \<Rightarrow> client \<Rightarrow> remote \<Rightarrow> remote" where
  "set_client k x s = s\<lparr>rm_clients := (rm_clients s)(k \<mapsto> x)\<rparr>"

definition json_error :: "string \<Rightarrow> json" where
  "json_error msg = JObj [(''error'', JStr msg)]"

section \<open>The agent connections\<close>

text \<open>
  One message on connection \<open>c\<close>. A type assertion panics on another type; the one on the
  status is evaluated with the mutex held, before the send.
\<close>

definition text_of :: "json option \<Rightarrow> string option" where
  "text_of x = (case x of Some (JStr s) \<Rightarrow> Some s | _ \<Rightarrow> None)"

definition number_of :: "json option \<Rightarrow> rat option" where
  "number_of x = (case x of Some (JNum n) \<Rightarrow> Some n | _ \<Rightarrow> None)"

definition message_data :: "raw \<Rightarrow> jmap" where
  "message_data msg = (case unmarshal_map msg of None \<Rightarrow> None | Some m \<Rightarrow> m)"

definition body_of :: "jmap \<Rightarrow> json" where
  "body_of data = (case mget data ''body'' of None \<Rightarrow> JNull | Some b \<Rightarrow> b)"

definition agent_message :: "nat \<Rightarrow> string \<Rightarrow> raw \<Rightarrow> remote \<Rightarrow> remote option" where
  "agent_message c agentID msg s =
     (let data = message_data msg; kind = text_of (mget data ''type'') in
      if kind = Some ''register'' then
        (case text_of (mget data ''id'') of
           None \<Rightarrow> Some (set_conn c Gone s)
         | Some i \<Rightarrow> Some (set_conn c (Open i) (s\<lparr>rm_agents := (rm_agents s)(i \<mapsto> c)\<rparr>)))
      else if kind = Some ''response'' then
        (case text_of (mget data ''reqId'') of
           None \<Rightarrow> Some (set_conn c Gone s)
         | Some reqId \<Rightarrow>
             if rm_lock s \<noteq> None then None
             else (case rm_pending s reqId of
                     None \<Rightarrow> Some s
                   | Some k \<Rightarrow>
                       (case number_of (mget data ''status'') of
                          None \<Rightarrow> Some (set_conn c Gone (s\<lparr>rm_lock := Some c\<rparr>))
                        | Some x \<Rightarrow>
                            Some (set_conn c (Sending agentID reqId k (to_int64 x) (body_of data)) (s\<lparr>rm_lock := Some c\<rparr>)))))
      else Some s)"

text \<open>A read error: the id is unregistered, whichever connection it now belongs to.\<close>

definition agent_closed :: "nat \<Rightarrow> string \<Rightarrow> remote \<Rightarrow> remote" where
  "agent_closed c agentID s =
     set_conn c Gone (if agentID \<noteq> '''' then s\<lparr>rm_agents := (rm_agents s)(agentID := None)\<rparr> else s)"

section \<open>The client requests\<close>

definition first_headers :: "(string \<times> string list) list \<Rightarrow> (string \<times> string) list" where
  "first_headers hs = map (\<lambda>(k, vs). (k, hd vs)) (filter (\<lambda>(k, vs). vs \<noteq> []) hs)"

text \<open>\<open>json.Marshal\<close> writes the keys of a map in order.\<close>

definition enc_request :: "string \<Rightarrow> client_request \<Rightarrow> json" where
  "enc_request reqId q =
     JObj [(''type'', JStr ''request''), (''reqId'', JStr reqId), (''method'', JStr (crqMethod q)), (''path'', JStr (crqPath q)),
           (''headers'', JObj (map (\<lambda>(k, v). (k, JStr v)) (sort_key fst (first_headers (crqHeaders q))))),
           (''body'', marshal_raw (crqBody q))]"

datatype event =
    Connect nat
  | Receive nat raw
  | Break nat
  | Arrive nat client_request
  | Lookup nat
  | Write nat string
  | Store nat
  | Deliver nat
  | Timeout nat

text \<open>
  \<open>Deliver c\<close> is the rendezvous on the channel connection \<open>c\<close> is sending to, with the deletion and
  the unlocking that follow it.
\<close>

fun perform :: "event \<Rightarrow> remote \<Rightarrow> remote option" where
  "perform (Connect c) s = (if rm_conns s c = Idle then Some (set_conn c (Open '''') s) else None)"
| "perform (Receive c msg) s = (case rm_conns s c of Open agentID \<Rightarrow> agent_message c agentID msg s | _ \<Rightarrow> None)"
| "perform (Break c) s = (case rm_conns s c of Open agentID \<Rightarrow> Some (agent_closed c agentID s) | _ \<Rightarrow> None)"
| "perform (Arrive k q) s =
     (case rm_clients s k of
        None \<Rightarrow> Some (if crqAgent q = '''' then set_client k (Answered 490 (json_error ''Missing X-Server-ID'')) s
                      else set_client k (Arrived q) s)
      | Some _ \<Rightarrow> None)"
| "perform (Lookup k) s =
     (case rm_clients s k of
        Some (Arrived q) \<Rightarrow>
          (case rm_agents s (crqAgent q) of
             None \<Rightarrow> Some (set_client k (Answered 491 (json_error ''Agent offline'')) s)
           | Some c \<Rightarrow> Some (set_client k (Found c q) s))
      | _ \<Rightarrow> None)"
| "perform (Write k reqId) s =
     (case rm_clients s k of
        Some (Found c q) \<Rightarrow>
          Some (set_client k (Sent reqId) (s\<lparr>rm_written := rm_written s @ [(c, enc_request reqId q)]\<rparr>))
      | _ \<Rightarrow> None)"
| "perform (Store k) s =
     (case rm_clients s k of
        Some (Sent reqId) \<Rightarrow>
          if rm_lock s \<noteq> None then None
          else Some (set_client k (Waiting reqId) (s\<lparr>rm_pending := (rm_pending s)(reqId \<mapsto> k)\<rparr>))
      | _ \<Rightarrow> None)"
| "perform (Deliver c) s =
     (case rm_conns s c of
        Sending agentID reqId k status body \<Rightarrow>
          (case rm_clients s k of
             Some (Waiting _) \<Rightarrow>
               Some (set_client k (Answered status body) (set_conn c (Open agentID)
                 (s\<lparr>rm_pending := (rm_pending s)(reqId := None), rm_lock := None\<rparr>)))
           | _ \<Rightarrow> None)
      | _ \<Rightarrow> None)"
| "perform (Timeout k) s =
     (case rm_clients s k of
        Some (Waiting _) \<Rightarrow> Some (set_client k (Answered 504 (json_error ''Timeout'')) s)
      | _ \<Rightarrow> None)"

inductive runs :: "remote \<Rightarrow> event list \<Rightarrow> remote \<Rightarrow> bool" where
  runs_nil: "runs s [] s"
| runs_cons: "perform ev s = Some s1 \<Longrightarrow> runs s1 evs s2 \<Longrightarrow> runs s (ev # evs) s2"

code_pred runs .

inductive_simps runs_Nil_iff [simp]: "runs s [] s'"
inductive_simps runs_Cons_iff [simp]: "runs s (ev # evs) s'"

lemma runs_append: "runs s (xs @ ys) s' \<longleftrightarrow> (\<exists>s1. runs s xs s1 \<and> runs s1 ys s')"
  by (induction xs arbitrary: s) auto

lemmas remote_fields = set_conn_def set_client_def

section \<open>The invariant\<close>

text \<open>
  A connection that is sending holds the mutex and its channel is still the one stored; a stored
  channel belongs to a client that waits for this id, or has given up.
\<close>

definition senders_ok :: "remote \<Rightarrow> bool" where
  "senders_ok s \<longleftrightarrow> (\<forall>c a r k st b. rm_conns s c = Sending a r k st b \<longrightarrow> rm_lock s = Some c \<and> rm_pending s r = Some k)"

definition answered :: "remote \<Rightarrow> nat \<Rightarrow> bool" where
  "answered s k \<longleftrightarrow> (\<exists>st b. rm_clients s k = Some (Answered st b))"

definition channels_ok :: "remote \<Rightarrow> bool" where
  "channels_ok s \<longleftrightarrow> (\<forall>r k. rm_pending s r = Some k \<longrightarrow> rm_clients s k = Some (Waiting r) \<or> answered s k)"

definition remote_ok :: "remote \<Rightarrow> bool" where
  "remote_ok s \<longleftrightarrow> senders_ok s \<and> channels_ok s"

lemma remote_start_ok: "remote_ok remote_start"
  by (simp add: remote_ok_def senders_ok_def channels_ok_def remote_start_def)

lemma sendersD:
  assumes "remote_ok s" and "rm_conns s c = Sending a r k st b"
  shows "rm_lock s = Some c" "rm_pending s r = Some k"
  using assms unfolding remote_ok_def senders_ok_def by blast+

lemma unlocked: "remote_ok s \<Longrightarrow> rm_lock s = None \<Longrightarrow> rm_conns s c \<noteq> Sending a r k st b"
  using sendersD(1) by fastforce

lemma channelsD: "remote_ok s \<Longrightarrow> rm_pending s r = Some k \<Longrightarrow> rm_clients s k = Some (Waiting r) \<or> answered s k"
  unfolding remote_ok_def channels_ok_def by blast

lemma agent_message_cases:
  assumes "agent_message c a msg s = Some s'"
  obtains (other) "s' = s"
  | (registered) i where "s' = set_conn c (Open i) (s\<lparr>rm_agents := (rm_agents s)(i \<mapsto> c)\<rparr>)"
  | (crashed) "s' = set_conn c Gone s"
  | (sending) r k st b where "rm_lock s = None" and "rm_pending s r = Some k"
      and "s' = set_conn c (Sending a r k st b) (s\<lparr>rm_lock := Some c\<rparr>)"
  | (locked) r k where "rm_lock s = None" and "rm_pending s r = Some k" and "s' = set_conn c Gone (s\<lparr>rm_lock := Some c\<rparr>)"
proof -
  from assms have "s' = s \<or> (\<exists>i. s' = set_conn c (Open i) (s\<lparr>rm_agents := (rm_agents s)(i \<mapsto> c)\<rparr>)) \<or> s' = set_conn c Gone s
    \<or> (\<exists>r k st b. rm_lock s = None \<and> rm_pending s r = Some k \<and> s' = set_conn c (Sending a r k st b) (s\<lparr>rm_lock := Some c\<rparr>))
    \<or> (\<exists>r k. rm_lock s = None \<and> rm_pending s r = Some k \<and> s' = set_conn c Gone (s\<lparr>rm_lock := Some c\<rparr>))"
    by (auto simp: agent_message_def Let_def split: if_split_asm option.split_asm) blast
  then show ?thesis
    by (elim disjE exE conjE) (erule that(1), erule that(2), erule that(3), erule that(4), assumption, assumption,
      erule that(5), assumption, assumption)
qed

text \<open>What most events do: no connection starts to send, lock and channels stay, clients only move on.\<close>

definition moves_on :: "remote \<Rightarrow> remote \<Rightarrow> bool" where
  "moves_on s s' \<longleftrightarrow> rm_lock s' = rm_lock s \<and> rm_pending s' = rm_pending s
     \<and> (\<forall>c a r k st b. rm_conns s' c = Sending a r k st b \<longrightarrow> rm_conns s c = Sending a r k st b)
     \<and> (\<forall>k r. rm_clients s k = Some (Waiting r) \<longrightarrow> rm_clients s' k = Some (Waiting r) \<or> answered s' k)
     \<and> (\<forall>k. answered s k \<longrightarrow> answered s' k)"

lemma moves_on_ok: "remote_ok s \<Longrightarrow> moves_on s s' \<Longrightarrow> remote_ok s'"
  unfolding remote_ok_def senders_ok_def channels_ok_def moves_on_def by metis

lemma moves_on_conn:
  "(\<And>a r k st b. x \<noteq> Sending a r k st b) \<Longrightarrow> rm_lock s' = rm_lock s \<Longrightarrow> rm_pending s' = rm_pending s \<Longrightarrow>
     rm_conns s' = rm_conns s \<Longrightarrow> rm_clients s' = rm_clients s \<Longrightarrow> moves_on s (set_conn c x s')"
  by (simp add: moves_on_def remote_fields answered_def)

lemma moves_on_client:
  "(\<not> answered s k \<and> (\<forall>r. rm_clients s k \<noteq> Some (Waiting r))) \<or> (\<exists>st b. x = Answered st b) \<Longrightarrow> rm_lock s' = rm_lock s \<Longrightarrow>
     rm_pending s' = rm_pending s \<Longrightarrow> rm_conns s' = rm_conns s \<Longrightarrow> rm_clients s' = rm_clients s \<Longrightarrow> moves_on s (set_client k x s')"
  unfolding moves_on_def by (intro conjI) (auto simp: remote_fields answered_def)

lemma agent_message_ok:
  assumes "remote_ok s" and "agent_message c a msg s = Some s'"
  shows "remote_ok s'"
  using assms(2)
proof (cases rule: agent_message_cases)
  case (sending r k st b)
  have "senders_ok s'" using unlocked [OF assms(1) sending(1)] sending(2,3) by (simp add: senders_ok_def remote_fields)
  moreover have "channels_ok s'" using channelsD [OF assms(1)] sending(3) by (simp add: channels_ok_def answered_def remote_fields)
  ultimately show ?thesis by (simp add: remote_ok_def)
next
  case (locked r k)
  have "senders_ok s'" using unlocked [OF assms(1) locked(1)] locked(2,3) by (simp add: senders_ok_def remote_fields)
  moreover have "channels_ok s'" using channelsD [OF assms(1)] locked(3) by (simp add: channels_ok_def answered_def remote_fields)
  ultimately show ?thesis by (simp add: remote_ok_def)
qed (use assms(1) in \<open>auto intro!: moves_on_ok [OF assms(1)] moves_on_conn\<close>)

lemma perform_quiet:
  assumes "perform ev s = Some s'" and "\<forall>c msg. ev \<noteq> Receive c msg" and "\<forall>k. ev \<noteq> Store k" and "\<forall>c. ev \<noteq> Deliver c"
  shows "moves_on s s'"
  using assms
  by (cases ev) (auto intro!: moves_on_conn moves_on_client simp: agent_closed_def answered_def
      split: conn.splits option.splits client.splits if_splits)

lemma store_run:
  assumes "perform (Store k) s = Some s'"
  obtains r where "rm_clients s k = Some (Sent r)" and "rm_lock s = None"
    and "s' = set_client k (Waiting r) (s\<lparr>rm_pending := (rm_pending s)(r \<mapsto> k)\<rparr>)"
  using assms by (auto split: option.splits client.splits if_splits)

lemma deliver_run:
  assumes "perform (Deliver c) s = Some s'" and "remote_ok s"
  obtains a r k st b where "rm_conns s c = Sending a r k st b" and "rm_clients s k = Some (Waiting r)"
    and "s' = set_client k (Answered st b) (set_conn c (Open a) (s\<lparr>rm_pending := (rm_pending s)(r := None), rm_lock := None\<rparr>))"
proof -
  from assms(1) obtain a r k st b r' where r: "rm_conns s c = Sending a r k st b" "rm_clients s k = Some (Waiting r')"
    and s': "s' = set_client k (Answered st b) (set_conn c (Open a) (s\<lparr>rm_pending := (rm_pending s)(r := None), rm_lock := None\<rparr>))"
    by (auto split: conn.splits option.splits client.splits)
  from channelsD [OF assms(2) sendersD(2) [OF assms(2) r(1)]] r(2) have "r' = r" by (simp add: answered_def)
  with r s' that show ?thesis by blast
qed

lemma store_ok:
  assumes "remote_ok s" and "perform (Store k) s = Some s'"
  shows "remote_ok s'"
proof -
  obtain r where r: "rm_clients s k = Some (Sent r)" "rm_lock s = None"
    and s': "s' = set_client k (Waiting r) (s\<lparr>rm_pending := (rm_pending s)(r \<mapsto> k)\<rparr>)"
    by (rule store_run [OF assms(2)])
  have "rm_pending s r' \<noteq> Some k" for r' using channelsD [OF assms(1), of r' k] r(1) by (auto simp: answered_def)
  then have "channels_ok s'" using channelsD [OF assms(1)] s' by (auto simp: channels_ok_def answered_def remote_fields)
  moreover have "senders_ok s'" using unlocked [OF assms(1) r(2)] s' by (simp add: senders_ok_def remote_fields)
  ultimately show ?thesis by (simp add: remote_ok_def)
qed

lemma deliver_ok:
  assumes "remote_ok s" and "perform (Deliver c) s = Some s'"
  shows "remote_ok s'"
proof -
  obtain a r k st b where r: "rm_conns s c = Sending a r k st b" "rm_clients s k = Some (Waiting r)"
    and s': "s' = set_client k (Answered st b) (set_conn c (Open a) (s\<lparr>rm_pending := (rm_pending s)(r := None), rm_lock := None\<rparr>))"
    by (rule deliver_run [OF assms(2,1)])
  have c: "c' = c" if "rm_conns s c' = Sending a' r' k' st' b'" for c' a' r' k' st' b'
    using sendersD(1) [OF assms(1) r(1)] sendersD(1) [OF assms(1) that] by simp
  then have "senders_ok s'" using s' by (auto simp: senders_ok_def remote_fields)
  moreover have "channels_ok s'" using channelsD [OF assms(1)] s' by (auto simp: channels_ok_def answered_def remote_fields)
  ultimately show ?thesis by (simp add: remote_ok_def)
qed

lemma receive_run:
  assumes "perform (Receive c msg) s = Some s'"
  obtains a where "rm_conns s c = Open a" and "agent_message c a msg s = Some s'"
  using assms by (auto split: conn.splits)

lemma perform_ok: "remote_ok s \<Longrightarrow> perform ev s = Some s' \<Longrightarrow> remote_ok s'"
  by (cases "\<exists>c msg k. ev = Receive c msg \<or> ev = Store k \<or> ev = Deliver c")
    (blast intro: store_ok deliver_ok agent_message_ok elim: receive_run, metis perform_quiet moves_on_ok)

lemma runs_ok: "runs s evs s' \<Longrightarrow> remote_ok s \<Longrightarrow> remote_ok s'"
  by (induction rule: runs.induct) (auto dest: perform_ok)

section \<open>Answers\<close>

text \<open>What a message says if it is a response.\<close>

definition response_of :: "raw \<Rightarrow> (string \<times> int \<times> json) option" where
  "response_of msg =
     (let data = message_data msg in
      if text_of (mget data ''type'') = Some ''response'' then
        (case (text_of (mget data ''reqId''), number_of (mget data ''status'')) of
           (Some reqId, Some x) \<Rightarrow> Some (reqId, to_int64 x, body_of data)
         | _ \<Rightarrow> None)
      else None)"

definition own_answers :: "(int \<times> json) set" where
  "own_answers = {(490, json_error ''Missing X-Server-ID''), (491, json_error ''Agent offline''), (504, json_error ''Timeout'')}"

definition given :: "event list \<Rightarrow> string \<times> int \<times> json \<Rightarrow> bool" where
  "given evs x \<longleftrightarrow> (\<exists>c msg. Receive c msg \<in> set evs \<and> response_of msg = Some x)"

definition earned :: "event list \<Rightarrow> nat \<Rightarrow> int \<Rightarrow> json \<Rightarrow> bool" where
  "earned evs k st b \<longleftrightarrow> (st, b) \<in> own_answers \<or> (\<exists>r. Write k r \<in> set evs \<and> given evs (r, st, b))"

text \<open>What the events so far say of the client requests and of the connections.\<close>

definition client_traced :: "event list \<Rightarrow> nat \<Rightarrow> client \<Rightarrow> bool" where
  "client_traced evs k x =
     (case x of Sent r \<Rightarrow> Write k r \<in> set evs | Waiting r \<Rightarrow> Write k r \<in> set evs | Answered st b \<Rightarrow> earned evs k st b | _ \<Rightarrow> True)"

definition traced :: "event list \<Rightarrow> remote \<Rightarrow> bool" where
  "traced evs s \<longleftrightarrow> (\<forall>k x. rm_clients s k = Some x \<longrightarrow> client_traced evs k x)
     \<and> (\<forall>c a r k st b. rm_conns s c = Sending a r k st b \<longrightarrow> given evs (r, st, b))"

lemma given_mono: "given evs x \<Longrightarrow> given (evs @ evs') x"
  by (auto simp: given_def)

lemma client_traced_mono: "client_traced evs k x \<Longrightarrow> client_traced (evs @ evs') k x"
  by (auto simp: client_traced_def earned_def given_mono split: client.splits intro: given_mono)

lemma sending_response:
  "agent_message c a msg s = Some s' \<Longrightarrow> rm_conns s' c' = Sending a' r k st b \<Longrightarrow>
     rm_conns s c' = Sending a' r k st b \<or> response_of msg = Some (r, st, b)"
  by (auto simp: agent_message_def response_of_def remote_fields Let_def split: if_split_asm option.split_asm)

lemma agent_message_clients: "agent_message c a msg s = Some s' \<Longrightarrow> rm_clients s' = rm_clients s"
  by (erule agent_message_cases) (simp_all add: remote_fields)

lemma quiet_clients:
  assumes "perform ev s = Some s'" and "\<forall>c msg. ev \<noteq> Receive c msg" and "\<forall>k. ev \<noteq> Store k" and "\<forall>c. ev \<noteq> Deliver c"
    and "rm_clients s' k = Some x"
  shows "rm_clients s k = Some x \<or> client_traced (evs @ [ev]) k x"
  using assms
  by (cases ev) (auto simp: remote_fields agent_closed_def client_traced_def earned_def own_answers_def
      split: conn.splits option.splits client.splits if_splits)

lemma quiet_traced:
  assumes "traced evs s" and "perform ev s = Some s'" and "\<forall>c msg. ev \<noteq> Receive c msg" and "\<forall>k. ev \<noteq> Store k" and "\<forall>c. ev \<noteq> Deliver c"
  shows "traced (evs @ [ev]) s'"
proof -
  have "client_traced (evs @ [ev]) k x" if "rm_clients s' k = Some x" for k x
    using quiet_clients [OF assms(2-5) that, of evs] assms(1) client_traced_mono [of evs k x "[ev]"] by (auto simp: traced_def)
  moreover have "given (evs @ [ev]) (r, st, b)" if "rm_conns s' c = Sending a r k st b" for c a r k st b
    using perform_quiet [OF assms(2-5)] assms(1) that given_mono unfolding moves_on_def traced_def by blast
  ultimately show ?thesis by (simp add: traced_def)
qed

lemma perform_traced:
  assumes "traced evs s" and "remote_ok s" and "perform ev s = Some s'"
  shows "traced (evs @ [ev]) s'"
proof -
  have old: "client_traced (evs @ [ev]) k x" if "rm_clients s k = Some x" for k x
    using assms(1) that by (auto simp: traced_def intro: client_traced_mono)
  have sent: "given (evs @ [ev]) (r, st, b)" if "rm_conns s c = Sending a r k st b" for c a r k st b
    using assms(1) that given_mono unfolding traced_def by blast
  show ?thesis
  proof (cases "\<exists>c msg k. ev = Receive c msg \<or> ev = Store k \<or> ev = Deliver c")
    case False
    then show ?thesis by (intro quiet_traced [OF assms(1,3)]) auto
  next
    case True
    then obtain c msg k where "ev = Receive c msg \<or> ev = Store k \<or> ev = Deliver c" by blast
    then show ?thesis
    proof (elim disjE)
      assume ev: "ev = Receive c msg"
      then obtain a where a: "agent_message c a msg s = Some s'" using assms(3) by (blast elim: receive_run)
      have "given (evs @ [ev]) (r, st, b)" if "rm_conns s' c' = Sending a' r k st b" for c' a' r k st b
        using sending_response [OF a that] sent ev by (auto simp: given_def)
      with old agent_message_clients [OF a] show ?thesis by (simp add: traced_def)
    next
      assume ev: "ev = Store k"
      obtain r where r: "rm_clients s k = Some (Sent r)"
        and s': "s' = set_client k (Waiting r) (s\<lparr>rm_pending := (rm_pending s)(r \<mapsto> k)\<rparr>)"
        using assms(3) ev by (blast elim: store_run)
      from old [OF r] have "client_traced (evs @ [ev]) k (Waiting r)" by (simp add: client_traced_def)
      with old sent show ?thesis unfolding s' traced_def by (auto simp: remote_fields)
    next
      assume ev: "ev = Deliver c"
      obtain a r k st b where r: "rm_conns s c = Sending a r k st b" "rm_clients s k = Some (Waiting r)"
        and s': "s' = set_client k (Answered st b) (set_conn c (Open a) (s\<lparr>rm_pending := (rm_pending s)(r := None), rm_lock := None\<rparr>))"
        using deliver_run [OF assms(3) [unfolded ev] assms(2)] by blast
      have "client_traced (evs @ [ev]) k (Answered st b)"
        using old [OF r(2)] sent [OF r(1)] by (auto simp: client_traced_def earned_def)
      with old sent show ?thesis unfolding s' traced_def by (auto simp: remote_fields)
    qed
  qed
qed

lemma runs_traced: "runs s evs s' \<Longrightarrow> traced pre s \<Longrightarrow> remote_ok s \<Longrightarrow> traced (pre @ evs) s'"
proof (induction arbitrary: pre rule: runs.induct)
  case (runs_cons ev s s1 evs s2)
  have "traced ((pre @ [ev]) @ evs) s2"
    by (intro runs_cons.IH perform_traced [OF runs_cons.prems runs_cons.hyps(1)] perform_ok [OF runs_cons.prems(2) runs_cons.hyps(1)])
  then show ?case by simp
qed simp

text \<open>
  C22: in every run of the public server, with any interleaving of connections, requests and
  timeouts, what a client is answered is one of the server's own errors, or status and body
  of a response that some connection sent for the very id the client's request was written
  with. (Any connection: the server does not check that it is the agent asked.)
\<close>

theorem answers_traced:
  assumes "runs remote_start evs s" and "rm_clients s k = Some (Answered st b)"
  shows "(st, b) \<in> {(490, json_error ''Missing X-Server-ID''), (491, json_error ''Agent offline''), (504, json_error ''Timeout'')}
    \<or> (\<exists>reqId c msg. Write k reqId \<in> set evs \<and> Receive c msg \<in> set evs \<and> response_of msg = Some (reqId, st, b))"
proof -
  have "traced [] remote_start" by (simp add: traced_def remote_start_def)
  from runs_traced [OF assms(1) this remote_start_ok] assms(2) have "client_traced evs k (Answered st b)"
    by (simp add: traced_def)
  then have "earned evs k st b" by (simp add: client_traced_def)
  then show ?thesis unfolding earned_def own_answers_def given_def by blast
qed

lemma message_data_obj [simp]: "message_data (Some (JObj kvs)) = Some (obj_map kvs)"
  by (simp add: message_data_def)

definition demo_client :: client_request where
  "demo_client = \<lparr>crqAgent = ''home'', crqMethod = ''GET'', crqPath = ''/me'', crqHeaders = [(''X-Server-ID'', [''home''])], crqBody = None\<rparr>"

definition demo_register :: raw where
  "demo_register = Some (JObj [(''type'', JStr ''register''), (''id'', JStr ''home'')])"

definition demo_response :: raw where
  "demo_response = Some (JObj [(''type'', JStr ''response''), (''reqId'', JStr ''17''), (''status'', JNum 200), (''body'', JBool True)])"

definition demo_waiting :: "event list" where
  "demo_waiting = [Connect 0, Receive 0 demo_register, Arrive 3 demo_client, Lookup 3, Write 3 ''17'', Store 3]"

lemmas demo_run = demo_waiting_def remote_start_def demo_register_def demo_response_def demo_client_def remote_fields
  agent_message_def text_of_def number_of_def obj_map_def body_of_def

lemma demo_waiting_run:
  "\<exists>s. runs remote_start demo_waiting s \<and> rm_clients s 3 = Some (Waiting ''17'') \<and> rm_pending s ''17'' = Some 3
    \<and> rm_lock s = None \<and> rm_conns s 0 = Open ''home''"
  by (simp add: demo_run)

lemma answers_traced_witness:
  "\<exists>s. runs remote_start (demo_waiting @ [Receive 0 demo_response, Deliver 0]) s
    \<and> (\<exists>reqId c msg. Write 3 reqId \<in> set (demo_waiting @ [Receive 0 demo_response, Deliver 0])
        \<and> Receive c msg \<in> set (demo_waiting @ [Receive 0 demo_response, Deliver 0]) \<and> response_of msg = Some (reqId, 200, JBool True))"
proof -
  have "\<exists>s. runs remote_start (demo_waiting @ [Receive 0 demo_response, Deliver 0]) s \<and> rm_clients s 3 = Some (Answered 200 (JBool True))"
    by (simp add: demo_run to_int64_def)
  then obtain s where s: "runs remote_start (demo_waiting @ [Receive 0 demo_response, Deliver 0]) s"
    "rm_clients s 3 = Some (Answered 200 (JBool True))" by blast
  from answers_traced [OF s] s(1) show ?thesis by (simp add: json_error_def) blast
qed

section \<open>The mutex that is never released\<close>

definition jammed :: "remote \<Rightarrow> bool" where
  "jammed s \<longleftrightarrow> (\<exists>c. rm_lock s = Some c
     \<and> (rm_conns s c = Gone \<or> (\<exists>a r k st b. rm_conns s c = Sending a r k st b \<and> answered s k)))"

lemma locked_message:
  assumes "agent_message c a msg s = Some s'" and "rm_lock s \<noteq> None"
  shows "\<exists>x. (x = Gone \<or> (\<exists>i. x = Open i) \<or> x = rm_conns s c) \<and> rm_conns s' = (rm_conns s)(c := x)
    \<and> rm_lock s' = rm_lock s \<and> rm_clients s' = rm_clients s"
  using assms(1)
proof (cases rule: agent_message_cases)
  case other
  then show ?thesis by (intro exI [of _ "rm_conns s c"]) simp
next
  case (registered i)
  then show ?thesis by (intro exI [of _ "Open i"]) (simp add: remote_fields)
next
  case crashed
  then show ?thesis by (intro exI [of _ Gone]) (simp add: remote_fields)
qed (use assms(2) in simp_all)

lemma quiet_conns:
  assumes "perform ev s = Some s'" and "\<forall>c msg. ev \<noteq> Receive c msg" and "\<forall>k. ev \<noteq> Store k" and "\<forall>c. ev \<noteq> Deliver c"
    and "rm_conns s c = Gone \<or> rm_conns s c = Sending a r k st b"
  shows "rm_conns s' c = rm_conns s c"
  using assms
  by (cases ev) (auto simp: remote_fields agent_closed_def split: conn.splits option.splits client.splits if_splits)

lemma quiet_answers:
  assumes "perform ev s = Some s'" and "\<forall>c msg. ev \<noteq> Receive c msg" and "\<forall>k. ev \<noteq> Store k" and "\<forall>c. ev \<noteq> Deliver c"
    and "rm_clients s' k = Some (Answered st b)"
  shows "rm_clients s k = Some (Answered st b) \<or> (st, b) \<in> own_answers"
  using quiet_clients [OF assms, of "[]"] by (auto simp: client_traced_def earned_def)
    (use assms(2) in \<open>auto simp: given_def\<close>)

lemma jammed_step:
  assumes ok: "remote_ok s" and jam: "jammed s" and ev: "perform ev s = Some s'"
  shows "jammed s' \<and> (\<forall>k st b. rm_clients s' k = Some (Answered st b) \<longrightarrow> rm_clients s k = Some (Answered st b) \<or> (st, b) \<in> own_answers)"
proof -
  from jam obtain c where c: "rm_lock s = Some c"
    "rm_conns s c = Gone \<or> (\<exists>a r k st b. rm_conns s c = Sending a r k st b \<and> answered s k)"
    by (auto simp: jammed_def)
  show ?thesis
  proof (cases "\<exists>c msg k. ev = Receive c msg \<or> ev = Store k \<or> ev = Deliver c")
    case False
    then have quiet: "\<forall>c msg. ev \<noteq> Receive c msg" "\<forall>k. ev \<noteq> Store k" "\<forall>c. ev \<noteq> Deliver c" by auto
    note on = perform_quiet [OF ev quiet, unfolded moves_on_def]
    have "rm_conns s' c = rm_conns s c" using quiet_conns [OF ev quiet] c(2) by blast
    with c on have "jammed s'" unfolding jammed_def by metis
    with quiet_answers [OF ev quiet] show ?thesis by blast
  next
    case True
    then obtain c' msg k where "ev = Receive c' msg \<or> ev = Store k \<or> ev = Deliver c'" by blast
    then show ?thesis
    proof (elim disjE)
      assume "ev = Receive c' msg"
      then obtain a where a: "rm_conns s c' = Open a" "agent_message c' a msg s = Some s'" using ev by (blast elim: receive_run)
      with c(2) have "c \<noteq> c'" by auto
      with locked_message [OF a(2)] c show ?thesis by (auto simp: jammed_def answered_def)
    next
      assume "ev = Store k"
      then have "rm_lock s = None" using ev store_run [of k s s'] by blast
      with c(1) show ?thesis by simp
    next
      assume "ev = Deliver c'"
      then obtain a r k st b where r: "rm_conns s c' = Sending a r k st b" "rm_clients s k = Some (Waiting r)"
        using ev ok by (blast elim: deliver_run)
      with sendersD(1) [OF ok r(1)] c show ?thesis by (auto simp: answered_def)
    qed
  qed
qed

lemma jammed_runs:
  "runs s evs s' \<Longrightarrow> remote_ok s \<Longrightarrow> jammed s \<Longrightarrow> rm_clients s' k = Some (Answered st b) \<Longrightarrow>
     rm_clients s k = Some (Answered st b) \<or> (st, b) \<in> own_answers"
proof (induction rule: runs.induct)
  case (runs_cons ev s s1 evs s2)
  with jammed_step [of s ev s1] perform_ok [of s ev s1] show ?case by blast
qed simp

text \<open>
  C24: a response that comes after its client has timed out stops the server for good. The connection
  that sends it keeps the mutex forever, because nobody receives on the channel (or because a
  missing status makes it panic): whatever happens from then on, no client gets the answer of
  an agent any more, only errors of the server itself.
\<close>

theorem late_response_jams:
  assumes "runs remote_start before s0"
    and "rm_clients s0 k = Some (Waiting reqId)" and "rm_pending s0 reqId = Some k" and "rm_lock s0 = None" and "rm_conns s0 c = Open a"
    and msg: "text_of (mget (message_data msg) ''type'') = Some ''response''" "text_of (mget (message_data msg) ''reqId'') = Some reqId"
    and "runs s0 (Timeout k # Receive c msg # evs) s" and "rm_clients s j = Some (Answered st b)"
  shows "rm_clients s0 j = Some (Answered st b)
    \<or> (st, b) \<in> {(490, json_error ''Missing X-Server-ID''), (491, json_error ''Agent offline''), (504, json_error ''Timeout'')}"
proof -
  let ?s1 = "set_client k (Answered 504 (json_error ''Timeout'')) s0"
  have ok: "remote_ok s0" by (rule runs_ok [OF assms(1) remote_start_ok])
  have t: "perform (Timeout k) s0 = Some ?s1" using assms(2) by simp
  with assms(8) obtain s2 where s2: "agent_message c a msg ?s1 = Some s2" "runs s2 evs s"
    using assms(5) by (auto simp: remote_fields)
  have "remote_ok ?s1" by (rule perform_ok [OF ok t])
  then have ok2: "remote_ok s2" using s2(1) by (rule agent_message_ok)
  have "jammed s2" using s2(1) assms(3,4) msg
    by (auto simp: agent_message_def jammed_def remote_fields answered_def Let_def split: option.splits)
  from jammed_runs [OF s2(2) ok2 this assms(9)] agent_message_clients [OF s2(1)] show ?thesis
    by (auto simp: own_answers_def remote_fields split: if_splits)
qed

lemma late_response_jams_witness:
  "\<exists>s0 s. runs remote_start demo_waiting s0 \<and> runs s0 [Timeout 3, Receive 0 demo_response, Arrive 4 demo_client] s
    \<and> (\<forall>j st b. rm_clients s j = Some (Answered st b) \<longrightarrow> rm_clients s0 j = Some (Answered st b) \<or> st \<in> {490, 491, 504})"
proof -
  obtain s0 where s0: "runs remote_start demo_waiting s0" "rm_clients s0 3 = Some (Waiting ''17'')" "rm_pending s0 ''17'' = Some 3"
    "rm_lock s0 = None" "rm_conns s0 0 = Open ''home''" "rm_clients s0 4 = None"
    by (simp add: demo_run)
  have msg: "text_of (mget (message_data demo_response) ''type'') = Some ''response''"
    "text_of (mget (message_data demo_response) ''reqId'') = Some ''17''"
    by (simp_all add: demo_response_def obj_map_def text_of_def)
  have num: "number_of (mget (message_data demo_response) ''status'') = Some 200"
    by (simp add: demo_response_def obj_map_def number_of_def)
  obtain s where s: "runs s0 [Timeout 3, Receive 0 demo_response, Arrive 4 demo_client] s"
    using s0 num by (simp add: agent_message_def msg remote_fields demo_client_def Let_def)
  from late_response_jams [OF s0(1-5) msg s] s s0(1) show ?thesis by (intro exI [of _ s0] exI [of _ s]) auto
qed

section \<open>Connections that come and go\<close>

text \<open>
  an agent that reconnects before its old connection is found dead is lost: when the old one
  breaks, it unregisters the id of the new one, and every client is told that the agent is
  offline while its connection is open and registered.
\<close>

theorem old_connection_unregisters:
  assumes "rm_conns s c = Open i" and "rm_conns s c' = Open i" and "c \<noteq> c'" and "i \<noteq> ''''" and "rm_agents s i = Some c'"
    and "rm_clients s k = None" and "crqAgent q = i"
    and "runs s [Break c, Arrive k q, Lookup k] s'"
  shows "rm_conns s' c' = Open i \<and> rm_clients s' k = Some (Answered 491 (json_error ''Agent offline''))"
  using assms by (auto simp: agent_closed_def remote_fields)

lemma old_connection_unregisters_witness:
  "\<exists>s s'. runs remote_start [Connect 0, Receive 0 demo_register, Connect 1, Receive 1 demo_register] s
    \<and> runs s [Break 0, Arrive 3 demo_client, Lookup 3] s' \<and> rm_conns s' 1 = Open ''home''
    \<and> rm_clients s' 3 = Some (Answered 491 (json_error ''Agent offline''))"
proof -
  obtain s where s: "runs remote_start [Connect 0, Receive 0 demo_register, Connect 1, Receive 1 demo_register] s"
    "rm_conns s 0 = Open ''home''" "rm_conns s 1 = Open ''home''" "rm_agents s ''home'' = Some 1" "rm_clients s 3 = None"
    by (simp add: demo_run)
  obtain s' where s': "runs s [Break 0, Arrive 3 demo_client, Lookup 3] s'"
    using s by (simp add: agent_closed_def remote_fields demo_client_def)
  have "rm_conns s' 1 = Open ''home'' \<and> rm_clients s' 3 = Some (Answered 491 (json_error ''Agent offline''))"
    by (rule old_connection_unregisters [OF s(2,3) _ _ s(4,5) _ s']) (simp_all add: demo_client_def)
  with s(1) s' show ?thesis by blast
qed

section \<open>A request through server and agent\<close>

lemma sort_key_fst_distinct: "distinct (map fst m) \<Longrightarrow> distinct (map fst (sort_key fst m))"
  by (metis distinct_map distinct_sort set_sort)

lemma first_headers_distinct: "distinct (map fst hs) \<Longrightarrow> distinct (map fst (first_headers hs))"
  by (induction hs) (auto simp: first_headers_def rev_image_eqI)

lemma keep_headers_sent:
  assumes "distinct (map fst hs)"
  shows "keep_headers [] (JObj (map (\<lambda>(k, v). (k, JStr v)) hs)) = hs"
proof -
  have "distinct (map fst (m @ hs)) \<Longrightarrow>
      fold (\<lambda>(k, v) m. AList.update k (keep_string '''' v) m) (map (\<lambda>(k, v). (k, JStr v)) hs) m = m @ hs" for m
  proof (induction hs arbitrary: m)
    case (Cons x hs)
    then show ?case by (cases x) (auto simp: update_append_fresh)
  qed simp
  from this [of "[]"] assms show ?thesis by simp
qed

lemma read_enc_request:
  assumes "distinct (map fst (crqHeaders q))"
  shows "read_request (Some (enc_request reqId q))
    = \<lparr>rqType = ''request'', rqReqId = reqId, rqMethod = crqMethod q, rqPath = crqPath q,
       rqHeaders = sort_key fst (first_headers (crqHeaders q)), rqBody = marshal_raw (crqBody q)\<rparr>"
  using keep_headers_sent [OF sort_key_fst_distinct [OF first_headers_distinct [OF assms]]]
  by (simp add: read_request_def enc_request_def zero_request_def keep_field_def field_is_def ascii_upper_def Let_def
      del: keep_headers.simps)

text \<open>
  C29: with a local URL that has a scheme the way through works, if the local call succeeds, the mutex is
  free and the answer comes after the channel of the client has been stored: the request reaches
  the connection its agent registered, the agent repeats it with method, path, headers and body
  against the local server, and the client gets status and body of the local answer; the mutex is
  free and the channel gone. But the server writes the request before it stores the channel: if
  the same answer is faster than that, it is dropped, and what is left for the client is the timeout.
\<close>

theorem remote_request_answered:
  assumes "rm_agents s (crqAgent q) = Some c" and "crqAgent q \<noteq> ''''" and "rm_conns s c = Open a"
    and "rm_lock s = None" and "rm_clients s k = None" and "distinct (map fst (crqHeaders q))" and fresh: "rm_pending s reqId = None"
    and base: "\<not> colon_rejected (bcLocalURL cfg @ crqPath q)" "hl_accepts L (crqMethod q) (bcLocalURL cfg @ crqPath q)"
    and local: "hl_do L (crqMethod q) (bcLocalURL cfg @ crqPath q)
      ((''Content-Type'', ''application/json'') # iter (sort_key fst (first_headers (crqHeaders q)))) (marshal_raw (crqBody q))
        = Some (status, body)"
    and "- (2 ^ 63) \<le> status" "status < 2 ^ 63"
  shows "\<exists>msg s'. handle_message L iter cfg (Some (enc_request reqId q)) = Inr [msg]
    \<and> runs s [Arrive k q, Lookup k, Write k reqId, Store k, Receive c (Some msg), Deliver c] s'
    \<and> rm_written s' = rm_written s @ [(c, enc_request reqId q)]
    \<and> rm_clients s' k = Some (Answered status (marshal_raw body)) \<and> rm_lock s' = None \<and> rm_pending s' reqId = None
    \<and> (\<exists>s''. runs s [Arrive k q, Lookup k, Write k reqId, Receive c (Some msg), Store k, Timeout k] s''
        \<and> rm_clients s'' k = Some (Answered 504 (json_error ''Timeout'')))"
proof -
  let ?msg = "enc_response \<lparr>rpType = ''response'', rpReqId = reqId, rpStatus = status, rpBody = marshal_raw body\<rparr>"
  have "handle_message L iter cfg (Some (enc_request reqId q)) = Inr [?msg]"
    using base local by (simp add: handle_message_def doLocalRequest_def read_enc_request [OF assms(6)] Let_def)
  moreover have msg: "text_of (mget (message_data (Some ?msg)) ''type'') = Some ''response''"
    "text_of (mget (message_data (Some ?msg)) ''reqId'') = Some reqId"
    "number_of (mget (message_data (Some ?msg)) ''status'') = Some (of_int status)"
    "body_of (message_data (Some ?msg)) = marshal_raw body"
    by (simp_all add: enc_response_def obj_map_def text_of_def number_of_def body_of_def)
  from msg have "\<exists>s'. runs s [Arrive k q, Lookup k, Write k reqId, Store k, Receive c (Some ?msg), Deliver c] s'
      \<and> rm_written s' = rm_written s @ [(c, enc_request reqId q)]
      \<and> rm_clients s' k = Some (Answered status (marshal_raw body)) \<and> rm_lock s' = None \<and> rm_pending s' reqId = None"
    using assms(1-5) to_int64_of_int [of status] assms(11,12)
    by (simp add: remote_fields agent_message_def Let_def)
  moreover have "\<exists>s''. runs s [Arrive k q, Lookup k, Write k reqId, Receive c (Some ?msg), Store k, Timeout k] s''
      \<and> rm_clients s'' k = Some (Answered 504 (json_error ''Timeout''))"
    using assms(1-5) fresh msg(1,2) by (simp add: remote_fields agent_message_def Let_def)
  ultimately show ?thesis by blast
qed

definition demo_http :: http_lib where
  "demo_http = \<lparr>hl_accepts = (\<lambda>_ _. True), hl_do = (\<lambda>_ _ _ _. Some (200, Some (JBool True)))\<rparr>"

lemma remote_request_answered_witness:
  "\<exists>s msg s'. runs remote_start [Connect 0, Receive 0 demo_register] s
    \<and> runs s [Arrive 3 demo_client, Lookup 3, Write 3 ''17'', Store 3, Receive 0 (Some msg), Deliver 0] s'
    \<and> rm_clients s' 3 = Some (Answered 200 (JBool True))"
proof -
  let ?cfg = "\<lparr>bcPublicWS = '''', bcLocalURL = ''http://h'', bcServerID = ''home'', bcRetryDelay = 0\<rparr>"
  obtain s where s: "runs remote_start [Connect 0, Receive 0 demo_register] s"
    "rm_agents s ''home'' = Some 0" "rm_conns s 0 = Open ''home''" "rm_lock s = None" "rm_clients s 3 = None" "rm_pending s ''17'' = None"
    by (simp add: demo_run)
  have q: "crqAgent demo_client = ''home''" "crqHeaders demo_client = [(''X-Server-ID'', [''home''])]" "crqPath demo_client = ''/me''"
    by (simp_all add: demo_client_def)
  have url: "\<not> colon_rejected ''http://h/me''"
    by (simp add: colon_rejected_def get_scheme_def is_letter_def is_digit_def Let_def)
  have "\<exists>msg s'. handle_message demo_http rev ?cfg (Some (enc_request ''17'' demo_client)) = Inr [msg]
    \<and> runs s [Arrive 3 demo_client, Lookup 3, Write 3 ''17'', Store 3, Receive 0 (Some msg), Deliver 0] s'
    \<and> rm_written s' = rm_written s @ [(0, enc_request ''17'' demo_client)]
    \<and> rm_clients s' 3 = Some (Answered 200 (marshal_raw (Some (JBool True)))) \<and> rm_lock s' = None \<and> rm_pending s' ''17'' = None
    \<and> (\<exists>s''. runs s [Arrive 3 demo_client, Lookup 3, Write 3 ''17'', Receive 0 (Some msg), Store 3, Timeout 3] s''
        \<and> rm_clients s'' 3 = Some (Answered 504 (json_error ''Timeout'')))"
    by (rule remote_request_answered) (use s url in \<open>simp_all add: q demo_http_def\<close>)
  with s(1) show ?thesis unfolding marshal_raw_def option.case by blast
qed

end
