(* ===== verification/Prototype.thy ===== *)
theory Prototype
  imports Db InternetBridge
begin

text \<open>
  \<open>internal/web/view/prototype.go\<close>: the HTML test pages. \<open>NewWebServer\<close> has their registration
  commented out, so they are no part of \<open>serve\<close>. A page is the template with the data it is given.
  The MQTT connection of the LED test, with its error text, is an input, and so is the reading
  of a decimal number (\<open>strconv.ParseFloat\<close>).
\<close>

section \<open>Forms\<close>

text \<open>
  \<open>frBody\<close> is the form that parsing the body gives. \<open>net/http\<close> parses nothing by itself:
  \<open>frPostForm\<close>, the field \<open>Request.PostForm\<close>, is nil until somebody asks for it. Gin's
  \<open>c.PostForm\<close> does, reading the field does not.
\<close>

type_synonym form = "(string, string list) gomap"

record form_request =
  frBody :: form
  frPostForm :: "form option"

definition arrives :: "form \<Rightarrow> form_request" where
  "arrives body = \<lparr>frBody = body, frPostForm = None\<rparr>"

definition parsed :: "form_request \<Rightarrow> form_request" where
  "parsed q = (case frPostForm q of None \<Rightarrow> q\<lparr>frPostForm := Some (frBody q)\<rparr> | Some _ \<Rightarrow> q)"

definition post_form :: "string \<Rightarrow> form_request \<Rightarrow> string" where
  "post_form key q =
     (case frPostForm (parsed q) of
        None \<Rightarrow> ''''
      | Some m \<Rightarrow> (case map_of m key of Some (v # _) \<Rightarrow> v | _ \<Rightarrow> ''''))"

section \<open>Test data\<close>

datatype float64 = Finite rat | NaN | PosInf | NegInf

datatype test_value = Number float64 | Truth bool | Word string

fun ParseBool :: "string \<Rightarrow> bool option" where
  "ParseBool s =
     (if s \<in> {''1'', ''t'', ''T'', ''true'', ''TRUE'', ''True''} then Some True
      else if s \<in> {''0'', ''f'', ''F'', ''false'', ''FALSE'', ''False''} then Some False
      else None)"

definition read_value :: "(string \<Rightarrow> float64 option) \<Rightarrow> string \<Rightarrow> test_value" where
  "read_value parse s =
     (case parse s of
        Some x \<Rightarrow> Number x
      | None \<Rightarrow> (case ParseBool s of Some b \<Rightarrow> Truth b | None \<Rightarrow> Word s))"

text \<open>The loop over the form: the first value of a key counts, a key without values is skipped.\<close>

definition test_data :: "(string \<Rightarrow> float64 option) \<Rightarrow> form \<Rightarrow> (string, test_value) gomap" where
  "test_data parse m =
     fold (\<lambda>(key, values) data. case values of [] \<Rightarrow> data | v # _ \<Rightarrow> AList.update key (read_value parse v) data) m []"

text \<open>\<open>json.Marshal\<close> refuses numbers that are not finite; the error is dropped.\<close>

fun enc_value :: "test_value \<Rightarrow> json option" where
  "enc_value (Number (Finite x)) = Some (JNum x)"
| "enc_value (Number _) = None"
| "enc_value (Truth b) = Some (JBool b)"
| "enc_value (Word s) = Some (JStr s)"

definition test_json :: "(string, test_value) gomap \<Rightarrow> raw" where
  "test_json data =
     map_option JObj (those (map (\<lambda>(k, v). map_option (Pair k) (enc_value v)) (sort_key fst data)))"

section \<open>Actions\<close>

text \<open>
  The error of decoding the actions is dropped and the slice used: what has a wrong type is left
  out, field by field.
\<close>

definition keep_action_field :: "string \<times> json \<Rightarrow> action \<Rightarrow> action" where
  "keep_action_field x a =
     (let k = fst x; j = snd x in
      if field_is k ''device_id'' then a\<lparr>aDeviceID := keep_string (aDeviceID a) j\<rparr>
      else if field_is k ''action'' then a\<lparr>aAction := keep_string (aAction a) j\<rparr>
      else if field_is k ''params'' then a\<lparr>aParams := Some j\<rparr>
      else a)"

fun keep_action :: "json \<Rightarrow> action" where
  "keep_action (JObj kvs) = fold keep_action_field kvs zero_action"
| "keep_action _ = zero_action"

fun keep_actions :: "raw \<Rightarrow> action list" where
  "keep_actions (Some (JArr js)) = map keep_action js"
| "keep_actions _ = []"

section \<open>Pages\<close>

datatype page =
    TestPage string bool "string list" string
  | ErrorPage dberr
  | RulesPage "rule list"
  | RulePage rule
  | RuleTestPage rule "(string, test_value) gomap" bool "action list" raw

datatype view_reply = Html nat page | PlainText nat string | Redirect nat string

datatype led_event =
    Connects string string
  | Publishes string nat bool string
  | DisconnectsAfter nat

definition get_test :: view_reply where
  "get_test = Html 200 (TestPage ''This is a dynamic message!'' True [''Item 1'', ''Item 2'', ''Item 3''] ''john doe'')"

text \<open>\<open>connect\<close> is the error of the MQTT connection, if any. The deferred disconnect comes last.\<close>

definition post_test :: "string option \<Rightarrow> form_request \<Rightarrow> view_reply \<times> led_event list" where
  "post_test connect q =
     (let action = post_form ''action'' q; start = Connects ''tcp://magonsky.scay.net:1883'' ''smarthome-backend'' in
      case connect of
        Some err \<Rightarrow> (PlainText 500 (''MQTT connection error: '' @ err), [start])
      | None \<Rightarrow>
          (Redirect 303 ''/test'',
           [start] @ (if action = ''ON'' then [Publishes ''test10/led'' 0 False ''ON'']
                      else if action = ''OFF'' then [Publishes ''test10/led'' 0 False ''OFF''] else [])
           @ [DisconnectsAfter 250]))"

definition get_rules :: "db \<Rightarrow> view_reply \<times> db" where
  "get_rules d =
     (case GetAllRules d of
        (Inl err, d') \<Rightarrow> (Html 500 (ErrorPage err), d')
      | (Inr rules, d') \<Rightarrow> (Html 200 (RulesPage rules), d'))"

definition get_rule_test :: "string \<Rightarrow> db \<Rightarrow> view_reply \<times> db" where
  "get_rule_test ruleID d =
     (case GetRuleByID ruleID d of
        (Inl err, d') \<Rightarrow> (Html 500 (ErrorPage err), d')
      | (Inr rule, d') \<Rightarrow> (Html 200 (RulePage rule), d'))"

text \<open>The nil form has no keys. The result is a placeholder.\<close>

definition post_rule_test :: "(string \<Rightarrow> float64 option) \<Rightarrow> string \<Rightarrow> form_request \<Rightarrow> db \<Rightarrow> view_reply \<times> db" where
  "post_rule_test parse ruleID q d =
     (case GetRuleByID ruleID d of
        (Inl err, d') \<Rightarrow> (Html 500 (ErrorPage err), d')
      | (Inr rule, d') \<Rightarrow>
          let testData = test_data parse (case frPostForm q of None \<Rightarrow> [] | Some m \<Rightarrow> m)
          in (Html 200 (RuleTestPage rule testData True (keep_actions (rActions rule)) (test_json testData)), d'))"

text \<open>The routes. No middleware and no handler before these touches the form.\<close>

datatype view_request =
    GetTest | PostTest form | GetRules | GetRuleTest string | PostRuleTest string form

fun view_serve ::
  "(string \<Rightarrow> float64 option) \<Rightarrow> string option \<Rightarrow> view_request \<Rightarrow> db \<Rightarrow> (view_reply \<times> led_event list) \<times> db" where
  "view_serve parse connect GetTest d = ((get_test, []), d)"
| "view_serve parse connect (PostTest body) d = (post_test connect (arrives body), d)"
| "view_serve parse connect GetRules d = (case get_rules d of (x, d') \<Rightarrow> ((x, []), d'))"
| "view_serve parse connect (GetRuleTest i) d = (case get_rule_test i d of (x, d') \<Rightarrow> ((x, []), d'))"
| "view_serve parse connect (PostRuleTest i body) d = (case post_rule_test parse i (arrives body) d of (x, d') \<Rightarrow> ((x, []), d'))"

text \<open>\<open>rule_test.html\<close> shows result and actions only under \<open>{{if .TestData}}\<close>, false for an empty map.\<close>

fun shows_result :: "page \<Rightarrow> bool" where
  "shows_result (RuleTestPage rule data result actions doc) = (data \<noteq> [])"
| "shows_result _ = False"

section \<open>Lemmas\<close>

text \<open>What the loop over the form would make of a form.\<close>

lemma test_data_append:
  "test_data parse (m @ [(k, vs)]) = (case vs of [] \<Rightarrow> test_data parse m | v # _ \<Rightarrow> AList.update k (read_value parse v) (test_data parse m))"
  by (simp add: test_data_def split: list.split)

lemma test_data_lookup:
  assumes "distinct (map fst m)"
  shows "map_of (test_data parse m) k = (case map_of m k of Some (v # _) \<Rightarrow> Some (read_value parse v) | _ \<Rightarrow> None)"
  using assms
proof (induction m rule: rev_induct)
  case Nil
  then show ?case by (simp add: test_data_def)
next
  case (snoc x m)
  obtain key vs where x: "x = (key, vs)" by (cases x)
  with snoc.prems have "map_of m key = None" by (auto simp: map_of_eq_None_iff)
  with snoc x show ?case by (cases vs) (auto simp: test_data_append map_add_def split: option.splits)
qed

text \<open>Actions that decode are shown as the executor carries them out.\<close>

lemma keep_action_field_dec:
  "dec_action_field a k j = Some b \<Longrightarrow> keep_action_field (k, j) a = b"
  by (cases j) (auto simp: dec_action_field_def keep_action_field_def Let_def split: if_splits)

lemma keep_action_members:
  "dec_members dec_action_field a kvs = Some b \<Longrightarrow> fold keep_action_field kvs a = b"
  by (induction kvs arbitrary: a) (auto simp: keep_action_field_dec split: option.splits prod.splits)

lemma keep_action_dec: "dec_struct dec_action_field zero_action j = Some a \<Longrightarrow> keep_action j = a"
  by (cases j) (simp_all add: keep_action_members)

lemma keep_actions_unmarshal: "unmarshal_actions r = Some as \<Longrightarrow> keep_actions r = as"
proof (induction r arbitrary: as rule: unmarshal_actions.induct)
  case (3 js)
  then show ?case
    by (induction js arbitrary: as) (auto simp: keep_action_dec split: option.splits)
qed simp_all

text \<open>Only parsing the body would make the test page work.\<close>

lemma parsed_form_shown:
  assumes "fst (GetRuleByID i d) = Inr rule" and "map_of body k = Some (v # vs)" and "distinct (map fst body)"
  shows "\<exists>page. fst (post_rule_test parse i (parsed (arrives body)) d) = Html 200 page \<and> shows_result page"
proof -
  obtain d' where "GetRuleByID i d = (Inr rule, d')" using assms(1) by (metis prod.collapse)
  moreover have "test_data parse body \<noteq> []"
    using test_data_lookup [OF assms(3), of parse k] assms(2) by auto
  ultimately show ?thesis by (simp add: post_rule_test_def parsed_def arrives_def Let_def)
qed

text \<open>
  C40: the rule test page is blind. Submitting test values never changes the answer: the handler
  reads \<open>Request.PostForm\<close>, which nobody has parsed, so whatever is sent the page holds no test
  data, shows no result at all, and the result it would show is the constant true. The actions it
  is given are, when the stored document decodes, those the executor would carry out.
\<close>

theorem rule_test_blind:
  assumes "GetRuleByID i d = (Inr rule, d')"
  shows "\<exists>actions page. view_serve parse connect (PostRuleTest i body) d = ((Html 200 page, []), d')
    \<and> page = RuleTestPage rule [] True actions (Some (JObj [])) \<and> \<not> shows_result page
    \<and> (\<forall>as. unmarshal_actions (rActions rule) = Some as \<longrightarrow> actions = as)"
proof -
  have "view_serve parse connect (PostRuleTest i body) d
      = ((Html 200 (RuleTestPage rule [] True (keep_actions (rActions rule)) (Some (JObj []))), []), d')"
    by (simp add: post_rule_test_def assms arrives_def test_data_def test_json_def)
  then show ?thesis using keep_actions_unmarshal by auto
qed

lemma rule_test_blind_witness:
  "\<forall>parse. \<exists>rule d' actions page.
     view_serve parse None (PostRuleTest ''7'' [(''temperature'', [''25''])]) (demo_db [demo_rule_row ''7'' JNull (JArr [JObj [(''action'', JStr ''x'')]])] [] [])
       = ((Html 200 page, []), d')
     \<and> page = RuleTestPage rule [] True actions (Some (JObj [])) \<and> \<not> shows_result page
     \<and> actions = [\<lparr>aDeviceID = '''', aAction = ''x'', aParams = None\<rparr>]"
proof
  fix parse :: "string \<Rightarrow> float64 option"
  let ?row = "demo_rule_row ''7'' JNull (JArr [JObj [(''action'', JStr ''x'')]])"
  let ?d = "demo_db [?row] [] []" and ?body = "[(''temperature'', [''25''])]"
  have int: "db_int ?d ''7'' = Some ''7''"
    using pg_int_show_nat [of 7] by (simp add: demo_db_def show_nat.simps digit_char_def)
  have "db_ok ?d" using int by (simp add: db_ok_def demo_db_def demo_rule_row_def)
  from GetRuleByID_up [OF demo_db_up this, of ?row]
  have get: "GetRuleByID ''7'' ?d = (Inr \<lparr>rID = ''7'', rName = rrName ?row, rConditions = Some JNull,
      rActions = Some (JArr [JObj [(''action'', JStr ''x'')]]), rEnabled = True, rOwnerID = ''''\<rparr>, tick ?d)"
    by (simp add: demo_rule_row_def scan_rule_def) (simp add: demo_db_def)
  have "unmarshal_actions (Some (JArr [JObj [(''action'', JStr ''x'')]])) = Some [\<lparr>aDeviceID = '''', aAction = ''x'', aParams = None\<rparr>]"
    by (simp add: zero_action_def dec_action_field_def field_is_def ascii_upper_def)
  with rule_test_blind [OF get, of parse None ?body]
  show "\<exists>rule d' actions page. view_serve parse None (PostRuleTest ''7'' ?body) ?d = ((Html 200 page, []), d')
     \<and> page = RuleTestPage rule [] True actions (Some (JObj [])) \<and> \<not> shows_result page
     \<and> actions = [\<lparr>aDeviceID = '''', aAction = ''x'', aParams = None\<rparr>]"
    by (simp del: view_serve.simps shows_result.simps unmarshal_actions.simps)
qed

end
