(* ===== verification/Reports.thy ===== *)
theory Reports
  imports Lifetime
begin

text \<open>
  What is known of the devices: a report is stored in Redis by the worker, and in the device table by
  a goroutine of its own (\<open>go dbConn.UpdateDeviceState\<close>), which may run at any time later. Carried
  out in the order they were started, the write-backs make the table agree with Redis; but
  nothing keeps this order, and then the table can be left with an older state.
\<close>

section \<open>Strings under the device keys\<close>

context redis_server begin

lemma set_commands_strings:
  "key_string (view (snd (rc_sadd R k m r))) = key_string (view r)"
  "key_string (view (snd (rc_srem R k m r))) = key_string (view r)"
proof -
  have put: "key_string (put_members k S ttl w) = key_string w" if "\<not> holds_string w k" for S ttl w
    using that by (auto simp: fun_eq_iff key_string_put holds_string_def)
  show "key_string (view (snd (rc_sadd R k m r))) = key_string (view r)"
    "key_string (view (snd (rc_srem R k m r))) = key_string (view r)"
    by (cases "holds_string (view r) k"; simp add: sadd_string sadd_view srem_string srem_view put)+
qed

end

text \<open>Of what Redis holds as strings no request changes anything.\<close>

sublocale redis_server \<subseteq> strings: engine_interface R C iter "\<lambda>e. key_string (view (e_redis e)) = w"
  for C :: "'c cron_api" and iter and w
proof
  fix e :: "('r, 'c) engine" and i
  assume same: "key_string (view (e_redis e)) = w"
  then show "key_string (view (e_redis (snd (RefreshRuleAssociations R C iter i e)))) = w"
    by (rule refresh_keeps [of "\<lambda>v. key_string v = w", rotated 2]) (simp_all add: set_commands_strings)
  from same show "key_string (view (e_redis (snd (RemoveRuleAssociations R C i e)))) = w"
    by (rule remove_keeps [of "\<lambda>v. key_string v = w", rotated]) (simp_all add: set_commands_strings)
qed simp_all

context redis_server begin

lemmas serve_strings = strings.serve_kept [OF refl]

lemma elapse_strings: "key_string (view (rc_elapse R n r)) k = Some x \<Longrightarrow> key_string (view r) k = Some x"
  by (simp add: key_string_def elapse_view age_def split: option.splits prod.splits rval.splits if_splits)

end

section \<open>The states in the device table\<close>

definition state_rows :: "db \<Rightarrow> (string \<times> raw) list" where
  "state_rows d = map (\<lambda>x. (dev_ID x, dev_State x)) (t_devices d)"

definition states_frame :: "db \<Rightarrow> db \<Rightarrow> bool" where
  "states_frame d d' \<longleftrightarrow> db_out d' = db_out d \<and> state_rows d' = state_rows d"

lemma state_rows_tick [simp]: "state_rows (tick d) = state_rows d"
  by (simp add: state_rows_def)

lemma states_frame_tick [simp]: "states_frame d (tick d') = states_frame d d'"
  by (simp add: states_frame_def)

lemma states_frame_trans: "states_frame d d' \<Longrightarrow> states_frame d' d'' \<Longrightarrow> states_frame d d''"
  by (simp add: states_frame_def)

lemma states_frame_schedules: "schedules_only d d' \<Longrightarrow> states_frame d d'"
  by (simp add: states_frame_def schedules_only_def state_rows_def)

interpretation states: statement_frame states_frame
proof
  fix f :: "device \<Rightarrow> device" and v u p m and d d' :: db
  show "states_frame d (snd (insert_user u p m d))"
    by (cases "outcome_of d") (simp_all add: insert_user_def exec_def states_frame_def state_rows_def Let_def)
  assume "\<And>x. dev_ID (f x) = dev_ID x \<and> dev_State (f x) = dev_State x"
  then show "states_frame d (snd (update_device v f d))"
    by (simp add: update_device_def states_frame_def state_rows_def map_rows_def)
qed (simp_all add: states_frame_def)

text \<open>The engine's operations write no table but that of the schedules.\<close>

lemma schedule_statements:
  "schedules_only d (snd (CreateSchedule r c en d))" "schedules_only d (snd (UpdateSchedule i c en d))"
  "schedules_only d (snd (DeleteSchedule i d))"
  by (auto simp: CreateSchedule_def UpdateSchedule_def DeleteSchedule_def exec_def exec_int_def Let_def schedules_only_def
      split: outcome.split option.split)

lemma create_schedules_only: "schedules_only d (snd (create_schedules C i en tcs (s, d)))"
proof (induction C i en tcs "(s, d)" arbitrary: s d rule: create_schedules.induct)
  case (2 C i en tc tcs s d)
  let ?next = "case GetScheduleByRuleAndCron i (ConvertToCronExpression tc) d of
           (Inl _, d1) \<Rightarrow>
             (case CreateSchedule i (ConvertToCronExpression tc) en d1 of
                (Inl _, d2) \<Rightarrow> (s, d2)
              | (Inr scheduleID, d2) \<Rightarrow> (snd (AddOrUpdateSchedule C scheduleID i (ConvertToCronExpression tc) en s), d2))
         | (Inr existing, d1) \<Rightarrow>
             (case UpdateSchedule (sID existing) (ConvertToCronExpression tc) en d1 of
                (Inl _, d2) \<Rightarrow> (s, d2)
              | (Inr _, d2) \<Rightarrow> (snd (AddOrUpdateSchedule C (sID existing) i (ConvertToCronExpression tc) en s), d2))"
  have get: "snd (GetScheduleByRuleAndCron i (ConvertToCronExpression tc) d) = tick d" by simp
  have "schedules_only d (snd ?next)"
    using get schedule_statements(1) [of "tick d"] schedule_statements(2) [of "tick d"]
    by (auto simp: prod_eq_iff split: prod.splits sum.splits intro: schedules_only_trans [OF schedules_only_tick])
  moreover have "schedules_only (snd ?next) (snd (create_schedules C i en tcs ?next))"
    using 2 [OF refl, of "fst ?next" "snd ?next"] by simp
  ultimately show ?case by (auto intro: schedules_only_trans simp: Let_def)
qed simp

lemma refresh_schedules_only: "schedules_only d (snd (refreshSchedulesForRule C i (s, d)))"
proof -
  have create: "schedules_only (tick d) (snd (createSchedulesFromTimeConditions C i c en (s, tick d)))" for c en
    by (simp add: createSchedulesFromTimeConditions_def create_schedules_only Let_def)
  have get: "snd (GetRuleByID i d) = tick d" "snd (GetSchedulesByRuleID i d') = tick d'" for d' by simp_all
  show ?thesis
    using get create
    by (auto simp: refreshSchedulesForRule_def prod_eq_iff split: prod.split sum.split
        intro: schedules_only_trans [OF schedules_only_tick schedules_only_tick]
          schedules_only_trans [OF schedules_only_trans [OF schedules_only_tick create] schedules_only_tick])
qed

lemma remove_schedules_only: "schedules_only d (snd (remove_schedules C schs (s, d)))"
  unfolding remove_schedules_def
  by (induction schs arbitrary: s d) (auto intro: schedules_only_trans [OF schedule_statements(3)])

lemma engine_schedules_only:
  fixes e :: "('r, 'c) engine"
  shows "schedules_only (e_db e) (e_db (snd (RefreshRuleAssociations R C iter i e)))"
    and "schedules_only (e_db e) (e_db (snd (RemoveRuleAssociations R C i e)))"
    and "schedules_only (e_db e) (e_db (notify_engine R C iter x e))"
proof -
  have get: "snd (GetRuleByID i d) = tick d" "snd (GetSchedulesByRuleID i d) = tick d" for i d by simp_all
  have "schedules_only d (snd (removeSchedulesForRule C i (s, d)))" for i s d
    using get(2) [of i d] schedules_only_trans [OF schedules_only_tick remove_schedules_only]
    by (auto simp: removeSchedulesForRule_def prod_eq_iff split: prod.split sum.split)
  then show "schedules_only (e_db e) (e_db (snd (RemoveRuleAssociations R C i e)))"
    by (simp add: RemoveRuleAssociations_def on_schedules_def case_prod_unfold split: sum.split)
  show refresh: "schedules_only (e_db e) (e_db (snd (RefreshRuleAssociations R C iter i e)))" for i
    using get(1) [of i "e_db e"] schedules_only_trans [OF schedules_only_tick refresh_schedules_only]
    by (auto simp: RefreshRuleAssociations_def on_schedules_def Let_def prod_eq_iff case_prod_unfold split: sum.split option.split)
  then show "schedules_only (e_db e) (e_db (notify_engine R C iter x e))"
    using refresh [of "rID x"] by (simp add: notify_engine_def case_prod_unfold)
qed

lemma rule_statements_states:
  "states_frame d (snd (insert_rule W uid req d))" "states_frame d (snd (update_rule W x d))"
  "states_frame d (snd (delete_rule i uid d))"
  unfolding insert_rule_def update_rule_def delete_rule_def
  by (intro states.frame_exec states.frame_exec_int;
      auto simp: states_frame_def state_rows_def Let_def split: option.split)+

text \<open>Of the requests only removing a device changes which states there are.\<close>

lemma handle_states:
  fixes e :: "('r, 'c) engine"
  assumes "\<And>v. req \<noteq> RemoveDevice v"
  shows "states_frame (e_db e) (e_db (snd (handle W R C iter req uid e)))"
proof -
  have notify: "states_frame c (e_db (notify_engine R C iter x (e\<lparr>e_db := d\<rparr>)))" if "states_frame c d" for c x d
    using engine_schedules_only(3) [of "e\<lparr>e_db := d\<rparr>"]
    by (intro states_frame_trans [OF that states_frame_schedules]) simp
  have get: "snd (select_newest n uid d) = tick d" "snd (select_owned i uid d) = tick d" for n i d
    by (simp_all add: select_newest_def select_owned_def case_prod_unfold)
  have post: "states_frame (e_db e) (e_db (snd (post_rule W R C iter uid body e)))" for body
    using rule_statements_states(1) [of "e_db e" W uid] get states.frame_refl
    by (auto simp: post_rule_def prod_eq_iff states.frame_tick intro: notify split: option.split prod.split sum.split)
  have patch: "states_frame (e_db e) (e_db (snd (patch_rule W R C iter uid i body e)))" for i body
    using rule_statements_states(2) [of "tick (e_db e)" W] get states.frame_refl
    by (auto simp: patch_rule_def prod_eq_iff states.frame_tick Let_def intro: notify split: option.split prod.split sum.split)
  have delete: "states_frame (e_db e) (e_db (snd (delete_rule_route R C uid i e)))" for i
    using states_frame_trans [OF states_frame_schedules [OF engine_schedules_only(2) [of e]] rule_statements_states(3)]
    by (simp add: delete_rule_route_def case_prod_unfold split: sum.split)
  show ?thesis
    by (cases req) (use assms post patch delete states.frame_reads states.frame_devices
      in \<open>simp_all add: on_db_def quiet_def case_prod_unfold states.frame_refl\<close>)
qed

lemma serve_states:
  fixes e :: "('r, 'c) engine"
  assumes "\<And>v. req \<noteq> RemoveDevice v"
  shows "states_frame (e_db e) (e_db (snd (serve W R C iter dr authorization req e)))"
proof -
  have "states_frame (e_db e) (e_db (snd (RequireAuth W now authorization (handle W R C iter req) e)))" for now
    using handle_states [where e = e, OF assms] by (simp add: RequireAuth_def states.frame_refl split: sum.split)
  then show ?thesis
    by (cases req) (simp_all add: serve_def on_db_def case_prod_unfold states.frame_accounts)
qed

section \<open>Redis, the table and the write-backs\<close>

text \<open>The states of a device that are still to be written back, in the order the goroutines were started.\<close>

fun awaiting :: "string \<Rightarrow> spawned list \<Rightarrow> json list" where
  "awaiting v [] = []"
| "awaiting v (UpdateStateLater u st # later) = (if u = v then st # awaiting v later else awaiting v later)"

lemma awaiting_append: "awaiting v (later @ later') = awaiting v later @ awaiting v later'"
  by (induction v later rule: awaiting.induct) simp_all

text \<open>The state the table will have once all is written back.\<close>

definition comes_to :: "db \<Rightarrow> spawned list \<Rightarrow> string \<Rightarrow> json \<Rightarrow> bool" where
  "comes_to d later v j \<longleftrightarrow>
     (if awaiting v later = [] then \<forall>y. (v, y) \<in> set (state_rows d) \<longrightarrow> y = Some j else j = last (awaiting v later))"

text \<open>Redis holds states of devices in the table only, and what the table comes to.\<close>

definition states_agree :: "rview \<Rightarrow> db \<Rightarrow> spawned list \<Rightarrow> bool" where
  "states_agree w d later \<longleftrightarrow>
     (\<forall>v x. key_string w (device_key v) = Some x \<longrightarrow>
        v \<in> fst ` set (state_rows d) \<and> (\<exists>j. x = VDoc j \<and> comes_to d later v j))"

lemma states_agree_frame:
  assumes "states_agree w d later" and "state_rows d' = state_rows d"
    and "\<And>v x. key_string w' (device_key v) = Some x \<Longrightarrow> key_string w (device_key v) = Some x"
  shows "states_agree w' d' later"
proof -
  have "comes_to d' later v j = comes_to d later v j" for v j by (simp add: comes_to_def assms(2))
  with assms show ?thesis unfolding states_agree_def by metis
qed

text \<open>A write-back at the head of the line.\<close>

lemma write_back_agrees:
  assumes "db_up d" and "states_agree w d (UpdateStateLater v st # later)"
  shows "states_agree w (snd (UpdateDeviceState v st d)) later" and "db_up (snd (UpdateDeviceState v st d))"
proof -
  have rows: "state_rows (snd (UpdateDeviceState v st d)) = map (\<lambda>(u, y). (u, if u = v then Some st else y)) (state_rows d)"
    using assms(1) by (simp add: UpdateDeviceState_def exec_up state_rows_def map_rows_def)
  have row: "if u = v then y = Some st else (u, y) \<in> set (state_rows d)"
    if "(u, y) \<in> set (state_rows (snd (UpdateDeviceState v st d)))" for u y
    using that by (auto simp: rows)
  have "map fst (state_rows (snd (UpdateDeviceState v st d))) = map fst (state_rows d)" by (simp add: rows case_prod_unfold)
  then have "fst ` set (state_rows (snd (UpdateDeviceState v st d))) = fst ` set (state_rows d)" by (metis set_map)
  moreover have "comes_to (snd (UpdateDeviceState v st d)) later u j" if "comes_to d (UpdateStateLater v st # later) u j" for u j
  proof (cases "awaiting u later = []")
    case True
    have "y = Some j" if "(u, y) \<in> set (state_rows (snd (UpdateDeviceState v st d)))" for y
      using row [OF that] \<open>comes_to d (UpdateStateLater v st # later) u j\<close> True by (simp add: comes_to_def split: if_splits)
    with True show ?thesis by (simp add: comes_to_def)
  next
    case False
    with that show ?thesis by (simp add: comes_to_def split: if_splits)
  qed
  ultimately show "states_agree w (snd (UpdateDeviceState v st d)) later"
    using assms(2) unfolding states_agree_def by metis
  show "db_up (snd (UpdateDeviceState v st d))"
    using assms(1) by (simp add: UpdateDeviceState_def exec_up) (simp add: db_up_def)
qed

context redis_server begin

lemma device_update_agrees:
  assumes upd: "ProcessDeviceUpdate E R v st r d = (ids, r', d', later')" and up: "db_up d"
    and agree: "states_agree (view r) d later"
  shows "states_agree (view r') d' (later @ (case later' of None \<Rightarrow> [] | Some x \<Rightarrow> [x]))" and "db_up d'"
proof -
  have *: "states_agree (view r') d' (later @ (case later' of None \<Rightarrow> [] | Some x \<Rightarrow> [x])) \<and> db_up d'"
  proof (cases "\<exists>dev \<in> set (t_devices d). dev_ID dev = v")
    case False
    then have rows: "filter (\<lambda>x. dev_ID x = v) (t_devices d) = []" "v \<notin> dev_ID ` set (t_devices d)"
      by (auto simp: filter_empty_conv)
    let ?d = "(tick (tick d))\<lparr>t_devices := t_devices d @ [\<lparr>dev_ID = v, dev_Name = v, dev_Type = ''unknown'',
      dev_State = Some (marshal_map st), dev_MQTTTopic = ''devices/'' @ v, dev_Accepted = False, dev_OwnerID = None\<rparr>]\<rparr>"
    have "fst (GetDeviceByID v d) = Inl NoRows" using up rows(1) by (simp add: GetDeviceByID_def query_row_up)
    then have get: "GetDeviceByID v d = (Inl NoRows, tick d)" by (simp add: prod_eq_iff)
    have "snd (InsertDevice v v ''unknown'' (''devices/'' @ v) (marshal_map st) (tick d)) = ?d"
      using up rows(2) by (simp add: InsertDevice_def exec_up)
    with upd get have eq: "r' = r" "d' = ?d" "later' = None"
      by (auto simp: ProcessDeviceUpdate_def Let_def prod_eq_iff split: prod.splits)
    have new: "state_rows ?d = state_rows d @ [(v, Some (marshal_map st))]" by (simp add: state_rows_def)
    have "v \<notin> fst ` set (state_rows d)" using rows(2) by (auto simp: state_rows_def)
    moreover have "comes_to ?d later u j" if "comes_to d later u j" "u \<noteq> v" for u j
      using that unfolding comes_to_def new by auto
    ultimately have "states_agree (view r) ?d later" using agree unfolding states_agree_def new set_append image_Un by blast
    with eq up show ?thesis by (simp add: db_up_def)
  next
    case True
    then have "filter (\<lambda>x. dev_ID x = v) (t_devices d) \<noteq> []" by (auto simp: filter_empty_conv)
    then obtain x xs where "filter (\<lambda>x. dev_ID x = v) (t_devices d) = x # xs" by (meson neq_Nil_conv)
    with up have dev: "fst (GetDeviceByID v d) = Inr x" by (simp add: GetDeviceByID_def query_row_up)
    then have get: "GetDeviceByID v d = (Inr x, tick d)" by (simp add: prod_eq_iff)
    show ?thesis
    proof (cases "dev_Accepted x")
      case False
      with upd get agree up show ?thesis
        by (simp add: ProcessDeviceUpdate_def) (auto intro: states_agree_frame)
    next
      case accepted: True
      obtain ids r1 where "ProcessDeviceUpdate E R v st r d = (ids, r1, tick d, Some (UpdateStateLater v (marshal_map st)))"
        and r1: "view r1 = (view r)(device_key v \<mapsto> (RStr (VDoc (marshal_map st)), Some 3600))"
        using update_accepted [OF dev accepted, of E st r] by metis
      with upd have eq: "r' = r1" "d' = tick d" "later' = Some (UpdateStateLater v (marshal_map st))" by simp_all
      have "key_string (view r1) (device_key u) = (if u = v then Some (VDoc (marshal_map st)) else key_string (view r) (device_key u))" for u
        by (simp add: r1 key_string_def)
      moreover have "v \<in> fst ` set (state_rows d)" using True by (force simp: state_rows_def)
      moreover have "comes_to (tick d) (later @ [UpdateStateLater v (marshal_map st)]) u j"
        if "if u = v then j = marshal_map st else comes_to d later u j" for u j
        using that by (auto simp: comes_to_def awaiting_append split: if_splits)
      ultimately have "states_agree (view r1) (tick d) (later @ [UpdateStateLater v (marshal_map st)])"
        using agree unfolding states_agree_def state_rows_tick by (metis option.inject)
      with eq up show ?thesis by simp
    qed
  qed
  then show "states_agree (view r') d' (later @ (case later' of None \<Rightarrow> [] | Some x \<Rightarrow> [x]))" and "db_up d'" by simp_all
qed

end

section \<open>Write-backs in order\<close>

text \<open>The goroutines take their turn in the order they were started, and no device is removed.\<close>

definition orderly :: "label \<Rightarrow> ('r, 'c) system \<Rightarrow> bool" where
  "orderly l s \<longleftrightarrow> (\<forall>i. l = WritesBack i \<longrightarrow> i = 0) \<and> (\<forall>dr authorization v. l \<noteq> Request dr authorization (RemoveDevice v))"

lemma db_up_states: "states_frame d d' \<Longrightarrow> db_up d' = db_up d"
  by (simp add: states_frame_def db_up_def)

lemma agree_frame:
  assumes "states_agree w d later \<and> db_up d" and "states_frame d d'"
    and "\<And>v x. key_string w' (device_key v) = Some x \<Longrightarrow> key_string w (device_key v) = Some x"
  shows "states_agree w' d' later \<and> db_up d'"
  using assms states_agree_frame [of w d later d' w'] db_up_states [OF assms(2)] by (simp add: states_frame_def)

lemma evaluation_task_states:
  "evaluateAndExecuteTask E R ord client p r d = (res, ps, r', d') \<Longrightarrow> states_frame d d'"
  by (auto simp: states_frame_def evaluateAndExecuteTask_def Let_def prod_eq_iff
      split: option.splits sum.splits prod.splits if_splits go.splits bool.splits)

lemma step_states_agree:
  fixes s s' :: "('r, 'c) system"
  assumes R: "redis_server R view" and orderly: "orderly l s" and step: "sys_step W R C entries iter l s s'"
    and ok: "states_agree (view (e_redis (sys_engine s))) (e_db (sys_engine s)) (sys_later s) \<and> db_up (e_db (sys_engine s))"
  shows "states_agree (view (e_redis (sys_engine s'))) (e_db (sys_engine s')) (sys_later s') \<and> db_up (e_db (sys_engine s'))"
  using step
proof cases
  case (device_task e i t E res r d q later given_up)
  show ?thesis
  proof (cases "unmarshal_dut (taskPayload t)")
    case None
    with device_task ok show ?thesis by (simp add: processDeviceUpdateTask_def)
  next
    case (Some payload)
    with device_task obtain ids where "ProcessDeviceUpdate E R (dutDeviceID payload) (dutState payload) (e_redis e) (e_db e) = (ids, r, d, later)"
      by (auto simp: processDeviceUpdateTask_def split: prod.splits)
    from redis_server.device_update_agrees [where later = "sys_later s", OF R this] device_task ok show ?thesis by simp
  qed
next
  case (evaluation_task e i t ord E client res ps r d given_up)
  note frame = evaluation_task_states [OF evaluation_task(9)]
  have "key_string (view r) (device_key v) = key_string (view (e_redis e)) (device_key v)" for v
    using redis_server.evaluation_task_keys [OF R evaluation_task(9)]
    by (simp add: time_keys_only_def key_string_def device_key_def)
  with agree_frame [of "view (e_redis e)" "e_db e" "sys_later s" d "view r"] frame ok evaluation_task(2,3) show ?thesis by simp
next
  case (writes_back e i v st)
  with orderly have "i = 0" by (simp add: orderly_def)
  with writes_back obtain rest where rest: "sys_later s = UpdateStateLater v st # rest" by (cases "sys_later s") auto
  with ok have "db_up (e_db (sys_engine s))"
    "states_agree (view (e_redis (sys_engine s))) (e_db (sys_engine s)) (UpdateStateLater v st # rest)" by simp_all
  from write_back_agrees [OF this] writes_back(2,3) \<open>i = 0\<close> rest show ?thesis by (simp add: remove_nth_def)
next
  case (request dr authorization req rs ps e)
  with orderly have "states_frame (e_db (sys_engine s)) (e_db e)"
    using serve_states [of req "sys_engine s" W R C iter dr authorization] by (auto simp: orderly_def)
  moreover have "key_string (view (e_redis e)) = key_string (view (e_redis (sys_engine s)))"
    using redis_server.serve_strings [OF R, where e = "sys_engine s" and W = W and C = C and iter = iter and dr = dr and authorization = authorization and req = req] request by simp
  ultimately show ?thesis
    using agree_frame [OF ok, of "e_db e" "view (e_redis e)"] request(2) by simp
next
  case (elapses e n)
  with agree_frame [OF ok states.frame_refl redis_server.elapse_strings [OF R]] show ?thesis by simp
qed (use ok in simp_all)

lemma runs_states_agree:
  fixes s s' :: "('r, 'c) system"
  assumes "redis_server R view" and "runs_by orderly W R C entries iter s s'"
    and "states_agree (view (e_redis (sys_engine s))) (e_db (sys_engine s)) (sys_later s)" and "db_up (e_db (sys_engine s))"
  shows "states_agree (view (e_redis (sys_engine s'))) (e_db (sys_engine s')) (sys_later s')"
proof -
  have "states_agree (view (e_redis (sys_engine s'))) (e_db (sys_engine s')) (sys_later s') \<and> db_up (e_db (sys_engine s'))"
    using assms(2,3,4)
  proof induction
    case (run_steps s s1 l s2)
    then show ?case by (intro step_states_agree [OF assms(1) run_steps.hyps(2,3)]) simp_all
  qed simp
  then show ?thesis ..
qed

text \<open>
  C20: if device tasks are processed one at a time and their write-backs run in the order they were
  started, table and Redis agree. Start from a state in which they agree but for what is still to
  be written, with a database that answers; whatever else happens in between (reports,
  evaluations, alarms, time, every request that removes no device), once nothing is left to write
  for a device whose state Redis holds, the device is in the table with exactly that state. (Two
  workers can set Redis in one order and start their write-backs in the other; a task is one step
  here.)
\<close>

theorem states_settle:
  fixes s s' :: "('r, 'c) system"
  assumes "redis_server R view" and "db_up (e_db (sys_engine s))"
    and "states_agree (view (e_redis (sys_engine s))) (e_db (sys_engine s)) (sys_later s)"
    and "runs_by orderly W R C entries iter s s'"
    and "view (e_redis (sys_engine s')) (device_key v) = Some (RStr x, ttl)" and "awaiting v (sys_later s') = []"
  shows "\<exists>dev \<in> set (t_devices (e_db (sys_engine s'))). dev_ID dev = v \<and> (\<exists>j. dev_State dev = Some j \<and> x = VDoc j)"
proof -
  have "key_string (view (e_redis (sys_engine s'))) (device_key v) = Some x" using assms(5) by (simp add: key_string_def)
  with runs_states_agree [OF assms(1,4,3,2)] assms(6)
  obtain j where "v \<in> fst ` set (state_rows (e_db (sys_engine s')))" "x = VDoc j"
    and "\<forall>y. (v, y) \<in> set (state_rows (e_db (sys_engine s'))) \<longrightarrow> y = Some j"
    unfolding states_agree_def comes_to_def by metis
  then show ?thesis by (force simp: state_rows_def)
qed

section \<open>Write-backs out of order\<close>

lemma enqueue_evaluations_grows: "\<exists>ts. q_tasks (enqueue_evaluations v ids q) = q_tasks q @ ts"
proof (induction ids arbitrary: q)
  case (Cons i ids)
  have "\<exists>ts. q_tasks (snd (EnqueueEvaluation i v q)) = q_tasks q @ ts"
    by (auto simp: EnqueueEvaluation_def enqueue_def Let_def)
  with Cons.IH [of "snd (EnqueueEvaluation i v q)"] show ?case by auto
qed simp

text \<open>A worker takes the report at the head of the queue.\<close>

lemma report_step:
  fixes s :: "('r, 'c) system"
  assumes R: "redis_server R view" and get: "fst (GetDeviceByID v (e_db (sys_engine s))) = Inr dev" "dev_Accepted dev"
    and tasks: "q_tasks (e_queue (sys_engine s)) = update_task v m # ts" and "jmap_ok m"
  obtains s' ts' where "sys_step W R C entries iter (DeviceTask E 0 False) s s'"
    and "q_tasks (e_queue (sys_engine s')) = ts @ ts'" and "e_db (sys_engine s') = tick (e_db (sys_engine s))"
    and "view (e_redis (sys_engine s')) = (view (e_redis (sys_engine s)))(device_key v \<mapsto> (RStr (VDoc (marshal_map m)), Some 3600))"
    and "sys_later s' = sys_later s @ [UpdateStateLater v (marshal_map m)]"
proof -
  let ?e = "sys_engine s"
  obtain ids r where upd: "ProcessDeviceUpdate E R v m (e_redis ?e) (e_db ?e)
      = (ids, r, tick (e_db ?e), Some (UpdateStateLater v (marshal_map m)))"
    and r: "view r = (view (e_redis ?e))(device_key v \<mapsto> (RStr (VDoc (marshal_map m)), Some 3600))"
    using redis_server.update_accepted [OF R get, of E m "e_redis ?e"] by metis
  let ?q = "enqueue_evaluations v ids (e_queue ?e)"
  let ?s' = "s\<lparr>sys_engine := ?e\<lparr>e_redis := r, e_db := tick (e_db ?e), e_queue := settle_task 0 TNil False ?q\<rparr>,
      sys_later := sys_later s @ (case Some (UpdateStateLater v (marshal_map m)) of None \<Rightarrow> [] | Some x \<Rightarrow> [x])\<rparr>"
  have "sys_step W R C entries iter (DeviceTask E 0 False) s ?s'"
  proof (rule sys_step.device_task)
    show "processDeviceUpdateTask E R (taskPayload (update_task v m)) (e_redis ?e) (e_db ?e) (e_queue ?e)
        = (TNil, r, tick (e_db ?e), ?q, Some (UpdateStateLater v (marshal_map m)))"
      by (simp add: processDeviceUpdateTask_def unmarshal_update_task [OF assms(5)] upd)
    show "taskType (update_task v m) = ''device_update''" by (simp add: update_task_def)
  qed (simp_all add: tasks)
  moreover obtain ts' where "q_tasks ?q = update_task v m # ts @ ts'"
    using enqueue_evaluations_grows [of v ids "e_queue ?e"] tasks by auto
  ultimately show thesis
    by (intro that [of ?s' ts']) (simp_all add: r settle_task_def remove_nth_def)
qed

lemma written_back:
  assumes "db_up d"
  shows "\<forall>x \<in> set (t_devices (snd (UpdateDeviceState v st d))). dev_ID x = v \<longrightarrow> dev_State x = Some st"
    and "dev_ID ` set (t_devices (snd (UpdateDeviceState v st d))) = dev_ID ` set (t_devices d)"
    and "db_up (snd (UpdateDeviceState v st d))"
proof -
  have rows: "t_devices (snd (UpdateDeviceState v st d))
      = map_rows (\<lambda>x. dev_ID x = v) (\<lambda>x. x\<lparr>dev_State := Some st\<rparr>) (t_devices d)"
    using assms by (simp add: UpdateDeviceState_def exec_up)
  show "\<forall>x \<in> set (t_devices (snd (UpdateDeviceState v st d))). dev_ID x = v \<longrightarrow> dev_State x = Some st"
    unfolding rows map_rows_def set_map ball_simps by simp
  have "map dev_ID (t_devices (snd (UpdateDeviceState v st d))) = map dev_ID (t_devices d)"
    unfolding rows by (simp add: map_rows_def)
  then show "dev_ID ` set (t_devices (snd (UpdateDeviceState v st d))) = dev_ID ` set (t_devices d)" by (metis set_map)
  show "db_up (snd (UpdateDeviceState v st d))"
    using assms by (simp add: UpdateDeviceState_def exec_up) (simp add: db_up_def)
qed

text \<open>
  C21: write-backs can leave the table behind for good. Two reports of an accepted device, taken from
  the queue in their order by workers that meet no failure, can end, with nothing left to do for
  either, in Redis holding the second state and the device table, from which the web API
  answers, holding the first: the two goroutines that write to the table run in any order.
\<close>

theorem write_backs_reorder:
  fixes s :: "('r, 'c) system"
  assumes R: "redis_server R view" and up: "db_up (e_db (sys_engine s))"
    and dev: "fst (GetDeviceByID v (e_db (sys_engine s))) = Inr dev" "dev_Accepted dev" and later: "sys_later s = []"
    and tasks: "q_tasks (e_queue (sys_engine s)) = [update_task v m1, update_task v m2]" and ok: "jmap_ok m1" "jmap_ok m2"
  shows "\<exists>s'. sys_runs W R C entries iter s s' \<and> sys_later s' = []
    \<and> view (e_redis (sys_engine s')) (device_key v) = Some (RStr (VDoc (marshal_map m2)), Some 3600)
    \<and> v \<in> dev_ID ` set (t_devices (e_db (sys_engine s')))
    \<and> (\<forall>x \<in> set (t_devices (e_db (sys_engine s'))). dev_ID x = v \<longrightarrow> dev_State x = Some (marshal_map m1))"
proof -
  let ?U = "\<lambda>m. UpdateStateLater v (marshal_map m)"
  obtain s1 ts1 where s1: "sys_step W R C entries iter (DeviceTask undefined 0 False) s s1"
    "q_tasks (e_queue (sys_engine s1)) = [update_task v m2] @ ts1" "e_db (sys_engine s1) = tick (e_db (sys_engine s))"
    "sys_later s1 = [?U m1]"
    using report_step [OF R dev tasks ok(1)] later by (metis append_Nil)
  have dev1: "fst (GetDeviceByID v (e_db (sys_engine s1))) = Inr dev"
    using dev(1) up by (simp add: s1(3) GetDeviceByID_def query_row_up)
  obtain s2 ts2 where s2: "sys_step W R C entries iter (DeviceTask undefined 0 False) s1 s2"
    "e_db (sys_engine s2) = tick (e_db (sys_engine s1))" "sys_later s2 = [?U m1, ?U m2]"
    "view (e_redis (sys_engine s2)) (device_key v) = Some (RStr (VDoc (marshal_map m2)), Some 3600)"
    by (rule report_step [where W = W and C = C and entries = entries and iter = iter and E = undefined,
          OF R dev1 dev(2) _ ok(2), of ts1]) (use s1(2,4) in simp_all)
  let ?d3 = "snd (UpdateDeviceState v (marshal_map m2) (e_db (sys_engine s2)))"
  let ?s3 = "s2\<lparr>sys_engine := (sys_engine s2)\<lparr>e_db := ?d3\<rparr>, sys_later := remove_nth 1 (sys_later s2)\<rparr>"
  have s3: "sys_step W R C entries iter (WritesBack 1) s2 ?s3"
    by (rule sys_step.writes_back) (simp_all add: s2(3))
  let ?d4 = "snd (UpdateDeviceState v (marshal_map m1) ?d3)"
  let ?s4 = "?s3\<lparr>sys_engine := (sys_engine ?s3)\<lparr>e_db := ?d4\<rparr>, sys_later := remove_nth 0 (sys_later ?s3)\<rparr>"
  have s4: "sys_step W R C entries iter (WritesBack 0) ?s3 ?s4"
    using sys_step.writes_back [OF refl, of 0 ?s3 v "marshal_map m1"] by (simp add: s2(3) remove_nth_def)
  note run = sys_runs.steps [OF sys_runs.steps [OF sys_runs.steps [OF sys_runs.steps [OF sys_runs.stays s1(1)] s2(1)] s3] s4]
  have up2: "db_up (e_db (sys_engine s2))" using up by (simp add: s1(3) s2(2))
  have "v \<in> dev_ID ` set (t_devices (e_db (sys_engine s2)))"
    using dev(1) by (auto simp: s1(3) s2(2) GetDeviceByID_def dest!: query_row_Inr)
  with written_back [OF up2] written_back [OF written_back(3) [OF up2]]
  have "v \<in> dev_ID ` set (t_devices ?d4)" "\<forall>x \<in> set (t_devices ?d4). dev_ID x = v \<longrightarrow> dev_State x = Some (marshal_map m1)"
    by simp_all
  with run s2(3,4) show ?thesis by (intro exI [of _ ?s4]) (simp add: remove_nth_def)
qed

section \<open>The lamp reports\<close>

definition lamp_report :: "rat \<Rightarrow> jmap" where
  "lamp_report n = Some [(''level'', JNum n)]"

lemma lamp_report_ok: "jmap_ok (lamp_report n)"
  by (simp add: lamp_report_def jmap_ok_def)

definition reporting :: "rat list \<Rightarrow> (mem, mem_entries) system" where
  "reporting ns = demo_system (web_engine\<lparr>e_redis := [],
     e_queue := demo_queue\<lparr>q_tasks := map (\<lambda>n. update_task ''lamp'' (lamp_report n)) ns\<rparr>\<rparr>)"

lemma reporting_fields [simp]:
  "e_db (sys_engine (reporting ns)) = web_db" "e_redis (sys_engine (reporting ns)) = []" "sys_later (reporting ns) = []"
  "q_tasks (e_queue (sys_engine (reporting ns))) = map (\<lambda>n. update_task ''lamp'' (lamp_report n)) ns"
  by (simp_all add: reporting_def)

lemma web_lamp: "fst (GetDeviceByID ''lamp'' web_db) = Inr (demo_lamp True)"
  by (simp add: GetDeviceByID_def query_row_up) (simp add: demo_lamp_def)

lemma states_settle_witness:
  "\<exists>s'. runs_by orderly demo_web mem_redis mem_cron map_of rev (reporting [3]) s' \<and> sys_later s' = []
    \<and> (\<exists>dev \<in> set (t_devices (e_db (sys_engine s'))). dev_ID dev = ''lamp''
        \<and> dev_State dev = Some (marshal_map (lamp_report 3)))"
proof -
  let ?m = "marshal_map (lamp_report 3)"
  obtain s1 ts' where s1: "sys_step demo_web mem_redis mem_cron map_of rev (DeviceTask (demo_env 18 30) 0 False) (reporting [3]) s1"
    "e_db (sys_engine s1) = tick web_db" "sys_later s1 = [UpdateStateLater ''lamp'' ?m]"
    "mem_view (e_redis (sys_engine s1)) = (mem_view [])(device_key ''lamp'' \<mapsto> (RStr (VDoc ?m), Some 3600))"
    by (rule report_step [OF mem.redis_server_axioms _ demo_lamp_accepted [THEN iffD2, OF TrueI] _ lamp_report_ok [of 3],
          where v = "''lamp''" and s = "reporting [3]" and W = demo_web and C = mem_cron and entries = map_of and iter = rev
            and E = "demo_env 18 30"]) (use web_lamp in simp_all)
  let ?s2 = "s1\<lparr>sys_engine := (sys_engine s1)\<lparr>e_db := snd (UpdateDeviceState ''lamp'' ?m (e_db (sys_engine s1)))\<rparr>,
      sys_later := remove_nth 0 (sys_later s1)\<rparr>"
  have s2: "sys_step demo_web mem_redis mem_cron map_of rev (WritesBack 0) s1 ?s2"
    by (rule sys_step.writes_back) (simp_all add: s1(3))
  have "orderly (DeviceTask (demo_env 18 30) 0 False) (reporting [3])" "orderly (WritesBack 0) s1"
    by (simp_all add: orderly_def)
  then have run: "runs_by orderly demo_web mem_redis mem_cron map_of rev (reporting [3]) ?s2"
    using runs_by.run_stays s1(1) s2 by (meson runs_by.run_steps)
  have "states_agree (mem_view (e_redis (sys_engine (reporting [3])))) (e_db (sys_engine (reporting [3]))) (sys_later (reporting [3]))"
    by (simp add: states_agree_def key_string_def mem_view_def)
  from states_settle [OF mem.redis_server_axioms _ this run, of "''lamp''" "VDoc ?m" "Some 3600"]
  have "\<exists>dev \<in> set (t_devices (e_db (sys_engine ?s2))). dev_ID dev = ''lamp'' \<and> dev_State dev = Some ?m"
    by (simp add: s1(3,4) remove_nth_def)
  with run show ?thesis by (intro exI [of _ ?s2]) (simp add: s1(3) remove_nth_def)
qed

lemma write_backs_reorder_witness:
  "\<exists>s'. sys_runs demo_web mem_redis mem_cron map_of rev (reporting [3, 4]) s' \<and> sys_later s' = []
    \<and> mem_view (e_redis (sys_engine s')) (device_key ''lamp'') = Some (RStr (VDoc (JObj [(''level'', JNum 4)])), Some 3600)
    \<and> (\<forall>x \<in> set (t_devices (e_db (sys_engine s'))). dev_ID x = ''lamp'' \<longrightarrow> dev_State x = Some (JObj [(''level'', JNum 3)]))"
proof -
  have docs: "marshal_map (lamp_report n) = JObj [(''level'', JNum n)]" for n by (simp add: lamp_report_def marshal_map_def)
  have "\<exists>s'. sys_runs demo_web mem_redis mem_cron map_of rev (reporting [3, 4]) s' \<and> sys_later s' = []
    \<and> mem_view (e_redis (sys_engine s')) (device_key ''lamp'') = Some (RStr (VDoc (marshal_map (lamp_report 4))), Some 3600)
    \<and> ''lamp'' \<in> dev_ID ` set (t_devices (e_db (sys_engine s')))
    \<and> (\<forall>x \<in> set (t_devices (e_db (sys_engine s'))). dev_ID x = ''lamp'' \<longrightarrow> dev_State x = Some (marshal_map (lamp_report 3)))"
    by (rule write_backs_reorder [OF mem.redis_server_axioms, where dev = "demo_lamp True"]) (use web_lamp lamp_report_ok in simp_all)
  then show ?thesis unfolding docs by blast
qed

end
