(* ===== verification/Locks.thy ===== *)
theory Locks
  imports Scheduler
begin

text \<open>
  \<open>AddOrUpdateSchedule\<close> takes the lock of \<open>jobMap\<close> twice: inside \<open>RemoveSchedule\<close>, and again to record the
  new entry; the call to the cron library in between holds none. Here are its three segments, and
  what becomes of the scheduler when two calls for one schedule, made by two requests for its rule,
  take turns between them.
\<close>

record update_call =
  uc_schedule :: string
  uc_rule :: string
  uc_expression :: string
  uc_enabled :: bool

text \<open>Where a call is; the entry id is a local variable.\<close>

datatype segment = Removes | AddsEntry | Records nat

fun run_segment :: "'c cron_api \<Rightarrow> update_call \<Rightarrow> segment \<Rightarrow> 'c scheduler \<Rightarrow> segment option \<times> 'c scheduler" where
  "run_segment C c Removes s =
     (if uc_enabled c then Some AddsEntry else None, RemoveSchedule C (uc_schedule c) s)"
| "run_segment C c AddsEntry s =
     (case AddJob C (uc_expression c) \<lparr>jobRuleID = uc_rule c, jobScheduleID = uc_schedule c\<rparr> s of
        (None, s1) \<Rightarrow> (None, s1)
      | (Some entryID, s1) \<Rightarrow> (Some (Records entryID), s1))"
| "run_segment C c (Records entryID) s =
     (None, s\<lparr>s_jobMap := AList.update (uc_schedule c) entryID (s_jobMap s)\<rparr>)"

text \<open>Two calls, each at a segment or finished, and the scheduler they share.\<close>

inductive turn ::
  "'c cron_api \<Rightarrow> update_call \<Rightarrow> update_call \<Rightarrow> segment option \<times> segment option \<times> 'c scheduler
     \<Rightarrow> segment option \<times> segment option \<times> 'c scheduler \<Rightarrow> bool"
  for C :: "'c cron_api" and c1 :: update_call and c2 :: update_call
where
  first: "run_segment C c1 g s = (g', s') \<Longrightarrow> turn C c1 c2 (Some g, h, s) (g', h, s')"
| second: "run_segment C c2 h s = (h', s') \<Longrightarrow> turn C c1 c2 (g, Some h, s) (g, h', s')"

text \<open>A call by itself is the operation of \<open>Scheduler\<close>.\<close>

lemma call_alone:
  "(turn C c c2)\<^sup>*\<^sup>* (Some Removes, h, s)
     (None, h, snd (AddOrUpdateSchedule C (uc_schedule c) (uc_rule c) (uc_expression c) (uc_enabled c) s))"
proof -
  let ?s1 = "RemoveSchedule C (uc_schedule c) s"
  let ?job = "\<lparr>jobRuleID = uc_rule c, jobScheduleID = uc_schedule c\<rparr>"
  have one: "turn C c c2 (Some Removes, h, s) (if uc_enabled c then Some AddsEntry else None, h, ?s1)"
    by (rule turn.first) simp
  obtain res s2 where add: "AddJob C (uc_expression c) ?job ?s1 = (res, s2)" by fastforce
  have two: "turn C c c2 (Some AddsEntry, h, ?s1) (map_option Records res, h, s2)"
    by (rule turn.first) (simp add: add split: option.split)
  have three: "turn C c c2 (Some (Records n), h, s2) (None, h, s2\<lparr>s_jobMap := AList.update (uc_schedule c) n (s_jobMap s2)\<rparr>)" for n
    by (rule turn.first) simp
  show ?thesis
  proof (cases "uc_enabled c")
    case False
    with one show ?thesis by (auto simp: AddOrUpdateSchedule_def Let_def)
  next
    case True
    with one two have to2: "(turn C c c2)\<^sup>*\<^sup>* (Some Removes, h, s) (map_option Records res, h, s2)" by simp
    with True add three show ?thesis
      by (cases res) (auto simp: AddOrUpdateSchedule_def Let_def intro: rtranclp.rtrancl_into_rtrancl)
  qed
qed

section \<open>A lost entry\<close>

text \<open>An entry that the job map does not know is out of reach of \<open>RemoveSchedule\<close>.\<close>

lemma unknown_entry_stays:
  assumes "cron_service C entries valid" and "n \<notin> ran (map_of (s_jobMap s))"
  shows "entries (s_cron (fold (RemoveSchedule C) sids s)) n = entries (s_cron s) n"
  using assms(2)
proof (induction sids arbitrary: s)
  case (Cons sid sids)
  let ?s1 = "RemoveSchedule C sid s"
  have "map_of (s_jobMap s) sid \<noteq> Some n" using Cons.prems by (auto simp: ran_def)
  then have "entries (s_cron ?s1) n = entries (s_cron s) n"
    by (simp add: RemoveSchedule_def cron_service.remove_entries [OF assms(1)] split: option.split)
  moreover have "n \<notin> ran (map_of (s_jobMap ?s1))"
    using Cons.prems by (auto simp: RemoveSchedule_def ran_def split: option.split)
  ultimately show ?case using Cons.IH [of ?s1] by simp
qed simp

text \<open>
  Two updates of one schedule at the same time can leave a cron entry that nothing can remove. Both
  calls remove what is there, then both add their entry, then both record it: the second record
  overwrites the first, and the first entry goes on firing, whatever schedules are removed later.
\<close>

theorem updates_race:
  assumes C: "cron_service C entries valid" and ok: "sched_ok entries s" and valid: "valid e1" "valid e2"
  shows "\<exists>n s'. (turn C \<lparr>uc_schedule = sid, uc_rule = rid, uc_expression = e1, uc_enabled = True\<rparr>
          \<lparr>uc_schedule = sid, uc_rule = rid, uc_expression = e2, uc_enabled = True\<rparr>)\<^sup>*\<^sup>*
        (Some Removes, Some Removes, s) (None, None, s')
    \<and> (\<forall>sids. entries (s_cron (fold (RemoveSchedule C) sids s')) n = Some (e1, \<lparr>jobRuleID = rid, jobScheduleID = sid\<rparr>))"
proof -
  let ?c1 = "\<lparr>uc_schedule = sid, uc_rule = rid, uc_expression = e1, uc_enabled = True\<rparr>"
  let ?c2 = "\<lparr>uc_schedule = sid, uc_rule = rid, uc_expression = e2, uc_enabled = True\<rparr>"
  let ?job = "\<lparr>jobRuleID = rid, jobScheduleID = sid\<rparr>"
  let ?s1 = "RemoveSchedule C sid s"
  let ?s2 = "RemoveSchedule C sid ?s1"
  have ok2: "sched_ok entries ?s2" using cron_service.RemoveSchedule_ok [OF C] ok by blast
  have gone: "map_of (s_jobMap ?s2) sid = None" by (rule cron_service.RemoveSchedule_absent [OF C])
  from cron_service.add_valid [OF C valid(1), of ?job "s_cron ?s2"] obtain n1 k1
    where add1: "cr_add C e1 ?job (s_cron ?s2) = (Some n1, k1)" "n1 \<notin> dom (entries (s_cron ?s2))"
      "entries k1 = (entries (s_cron ?s2))(n1 \<mapsto> (e1, ?job))" by blast
  from cron_service.add_valid [OF C valid(2), of ?job k1] obtain n2 k2
    where add2: "cr_add C e2 ?job k1 = (Some n2, k2)" "n2 \<notin> dom (entries k1)" "entries k2 = (entries k1)(n2 \<mapsto> (e2, ?job))" by blast
  let ?s3 = "?s2\<lparr>s_cron := k1\<rparr>" and ?s4 = "?s2\<lparr>s_cron := k2\<rparr>"
  let ?s5 = "?s4\<lparr>s_jobMap := AList.update sid n1 (s_jobMap ?s4)\<rparr>"
  let ?s6 = "?s5\<lparr>s_jobMap := AList.update sid n2 (s_jobMap ?s5)\<rparr>"
  let ?turns = "(turn C ?c1 ?c2)\<^sup>*\<^sup>*"
  have "turn C ?c1 ?c2 (Some Removes, Some Removes, s) (Some AddsEntry, Some Removes, ?s1)" by (rule turn.first) simp
  moreover have "turn C ?c1 ?c2 (Some AddsEntry, Some Removes, ?s1) (Some AddsEntry, Some AddsEntry, ?s2)" by (rule turn.second) simp
  moreover have "turn C ?c1 ?c2 (Some AddsEntry, Some AddsEntry, ?s2) (Some (Records n1), Some AddsEntry, ?s3)"
    by (rule turn.first) (simp add: AddJob_def add1(1))
  moreover have "turn C ?c1 ?c2 (Some (Records n1), Some AddsEntry, ?s3) (Some (Records n1), Some (Records n2), ?s4)"
    by (rule turn.second) (simp add: AddJob_def add2(1))
  moreover have "turn C ?c1 ?c2 (Some (Records n1), Some (Records n2), ?s4) (None, Some (Records n2), ?s5)"
    by (rule turn.first) simp
  moreover have "turn C ?c1 ?c2 (None, Some (Records n2), ?s5) (None, None, ?s6)" by (rule turn.second) simp
  ultimately have run: "?turns (Some Removes, Some Removes, s) (None, None, ?s6)"
    by (meson converse_rtranclp_into_rtranclp rtranclp.rtrancl_refl)
  have "n1 \<noteq> n2" using add1(3) add2(2) by auto
  then have entry: "entries (s_cron ?s6) n1 = Some (e1, ?job)" using add1(3) add2(3) by simp
  have "map_of (s_jobMap ?s2) a \<noteq> Some n1" for a
    using ok2 jobs_ok_live [of "map_of (s_jobMap ?s2)" "entries (s_cron ?s2)" a n1] add1(2) by (auto simp: sched_ok_def)
  with \<open>n1 \<noteq> n2\<close> have "n1 \<notin> ran (map_of (s_jobMap ?s6))" by (auto simp: ran_def update_conv')
  from unknown_entry_stays [OF C this] entry run show ?thesis by metis
qed

end
