(* ===== verification/Interleaving.thy ===== *)
theory Interleaving
  imports Reports Locks
begin

text \<open>
  The commands of \<open>RefreshRuleAssociations\<close> one by one. Requests run in goroutines of their own, and
  so do the workers: between any two commands another goroutine can have its turn. Refreshing two
  rules at once does no harm, whatever the interleaving; while one rule is refreshed it is in
  no rule set, and what a report then misses the evaluation that is queued at the end makes up for.
\<close>

section \<open>Commands\<close>

datatype set_command = SRem string string | SAdd string string

fun run_command :: "'r redis_api \<Rightarrow> set_command \<Rightarrow> 'r \<Rightarrow> 'r" where
  "run_command R (SRem k m) r = snd (rc_srem R k m r)"
| "run_command R (SAdd k m) r = snd (rc_sadd R k m r)"

text \<open>The keys have been read with KEYS before, the rule from the table.\<close>

definition refresh_commands :: "(string list \<Rightarrow> string list) \<Rightarrow> string list \<Rightarrow> rule \<Rightarrow> set_command list" where
  "refresh_commands iter keys rule =
     map (\<lambda>key. SRem key (rID rule)) keys
     @ (if \<not> rEnabled rule then []
        else (case unmarshal_condition (rConditions rule) of
                None \<Rightarrow> []
              | Some condition \<Rightarrow>
                  map (\<lambda>d. SAdd (rules_key d) (rID rule)) (extractDeviceIDsFromConditionTree iter condition)))"

text \<open>Run without interruption they are what the engine's operation does to Redis.\<close>

lemma refresh_runs_commands:
  fixes e :: "('r, 'c) engine"
  assumes "fst (GetRuleByID i (e_db e)) = Inr rule" and "rID rule = i" and "rc_keys R (e_redis e) rules_pattern = Inr keys"
  shows "e_redis (snd (RefreshRuleAssociations R C iter i e)) = fold (run_command R) (refresh_commands iter keys rule) (e_redis e)"
proof -
  have get: "GetRuleByID i (e_db e) = (Inr rule, tick (e_db e))" using assms(1) by (simp add: prod_eq_iff)
  have srem: "fold (run_command R) (map (\<lambda>key. SRem key i) keys) r = srem_keys R i keys r" for r
    by (induction keys arbitrary: r) (simp_all add: srem_keys_def)
  have sadd: "fold (run_command R) (map (\<lambda>d. SAdd (rules_key d) i) ds) r = sadd_devices R i ds r" for ds r
    by (induction ds arbitrary: r) (simp_all add: sadd_devices_def)
  show ?thesis
    using get assms(2,3) srem sadd
    by (auto simp: RefreshRuleAssociations_def refresh_commands_def on_schedules_def Let_def split: option.split prod.split)
qed

section \<open>What a list of commands does\<close>

fun command_key :: "set_command \<Rightarrow> string" where
  "command_key (SRem k m) = k"
| "command_key (SAdd k m) = k"

fun command_member :: "set_command \<Rightarrow> string" where
  "command_member (SRem k m) = m"
| "command_member (SAdd k m) = m"

text \<open>Whether \<open>m\<close> is in the set at \<open>k\<close> after the command, if it was before.\<close>

fun in_set :: "string \<Rightarrow> string \<Rightarrow> set_command \<Rightarrow> bool \<Rightarrow> bool" where
  "in_set k m (SRem k' m') b = (if k' = k \<and> m' = m then False else b)"
| "in_set k m (SAdd k' m') b = (if k' = k \<and> m' = m then True else b)"

context redis_server begin

lemma command_view:
  assumes "rules_typed (view r)" and "command_key c \<in> range rules_key"
  shows "rules_typed (view (run_command R c r))"
    and "m \<in> key_members (view (run_command R c r)) k \<longleftrightarrow> in_set k m c (m \<in> key_members (view r) k)"
proof -
  have typed: "\<not> holds_string (view r) (command_key c)" using assms by (auto simp: rules_typed_def)
  show "rules_typed (view (run_command R c r))"
    using assms(1) typed by (cases c) (auto simp: sadd_view srem_view rules_typed_def)
  show "m \<in> key_members (view (run_command R c r)) k \<longleftrightarrow> in_set k m c (m \<in> key_members (view r) k)"
    using typed by (cases c; cases "k = command_key c") (auto simp: sadd_view srem_view)
qed

lemma commands_view:
  assumes "rules_typed (view r)" and "\<forall>c \<in> set cs. command_key c \<in> range rules_key"
  shows "rules_typed (view (fold (run_command R) cs r))
    \<and> (m \<in> key_members (view (fold (run_command R) cs r)) k \<longleftrightarrow> fold (in_set k m) cs (m \<in> key_members (view r) k))"
  using assms by (induction cs arbitrary: r) (simp_all add: command_view)

end

lemma in_set_other: "command_member c \<noteq> m \<Longrightarrow> in_set k m c b = b"
  by (cases c) auto

lemma fold_in_set_filter: "fold (in_set k m) cs b = fold (in_set k m) (filter (\<lambda>c. command_member c = m) cs) b"
  by (induction cs arbitrary: b) (simp_all add: in_set_other)

lemma fold_in_set_srem: "fold (in_set k m) (map (\<lambda>key. SRem key m) keys) b = (b \<and> k \<notin> set keys)"
  by (induction keys arbitrary: b) auto

lemma fold_in_set_sadd: "fold (in_set k m) (map (\<lambda>d. SAdd (rules_key d) m) ds) b = (b \<or> k \<in> rules_key ` set ds)"
  by (induction ds arbitrary: b) auto

text \<open>A refresh by itself.\<close>

lemma refresh_commands_members: "c \<in> set (refresh_commands iter keys x) \<Longrightarrow> command_member c = rID x"
  by (auto simp: refresh_commands_def split: option.splits if_splits)

lemma refresh_commands_keys:
  "set keys \<subseteq> range rules_key \<Longrightarrow> c \<in> set (refresh_commands iter keys x) \<Longrightarrow> command_key c \<in> range rules_key"
  by (auto simp: refresh_commands_def split: option.splits if_splits)

lemma refresh_commands_effect:
  assumes "visit_order iter" and "b \<Longrightarrow> rules_key v \<in> set keys"
  shows "fold (in_set (rules_key v) (rID x)) (refresh_commands iter keys x) b \<longleftrightarrow> rID x \<in> wanted [x] v"
  using assms
  by (auto simp: refresh_commands_def fold_in_set_srem fold_in_set_sadd wanted_def raw_device_ids_def
      extractDeviceIDs_set [OF assms(1)] split: option.split)

section \<open>Two refreshes at once\<close>

lemma filter_shuffled:
  assumes "zs \<in> shuffles xs ys" and "\<forall>x \<in> set xs. P x" and "\<forall>y \<in> set ys. \<not> P y"
  shows "filter P zs = xs" and "filter (\<lambda>z. \<not> P z) zs = ys"
proof -
  have "filter P zs \<in> shuffles (filter P xs) (filter P ys)" using assms(1) by (simp add: filter_shuffles [symmetric])
  with assms(2,3) show "filter P zs = xs" by (simp add: filter_empty_conv [THEN iffD2])
  have "filter (\<lambda>z. \<not> P z) zs \<in> shuffles (filter (\<lambda>z. \<not> P z) xs) (filter (\<lambda>z. \<not> P z) ys)"
    using assms(1) by (simp add: filter_shuffles [symmetric])
  with assms(2,3) show "filter (\<lambda>z. \<not> P z) zs = ys" by (simp add: filter_empty_conv [THEN iffD2])
qed

text \<open>
  The keys a refresh of rule \<open>i\<close> has read: keys of rule sets, and among them all that hold \<open>i\<close>.
  Refreshing another rule neither adds nor removes \<open>i\<close>, so it does not matter when they were read.
\<close>

definition covers :: "rview \<Rightarrow> string \<Rightarrow> string list \<Rightarrow> bool" where
  "covers w i keys \<longleftrightarrow> set keys \<subseteq> range rules_key \<and> (\<forall>v. i \<in> key_members w (rules_key v) \<longrightarrow> rules_key v \<in> set keys)"

text \<open>
  C18: refreshing two rules at the same time is safe. However the single commands of the two
  refreshes interleave, the rule sets end as if one had run after the other: each of the two
  rules is in the sets of exactly the devices its conditions name, and every other rule is where
  it was.
\<close>

theorem refreshes_interleave:
  assumes R: "redis_server R view" and iter: "visit_order iter" and typed: "rules_typed (view r)" and other: "rID x \<noteq> rID y"
    and keys: "covers (view r) (rID x) keys1" "covers (view r) (rID y) keys2"
    and cs: "cs \<in> shuffles (refresh_commands iter keys1 x) (refresh_commands iter keys2 y)"
  shows "(\<lambda>v. key_members (view (fold (run_command R) cs r)) (rules_key v))
    = (\<lambda>v. key_members (view r) (rules_key v) - {rID x, rID y} \<union> wanted [x, y] v)"
proof (rule ext, rule set_eqI)
  fix v m
  let ?b = "m \<in> key_members (view r) (rules_key v)"
  have "\<forall>c \<in> set cs. command_key c \<in> range rules_key"
    using set_shuffles [OF cs] keys refresh_commands_keys by (auto simp: covers_def)
  from redis_server.commands_view [OF R typed this]
  have run: "m \<in> key_members (view (fold (run_command R) cs r)) (rules_key v)
      \<longleftrightarrow> fold (in_set (rules_key v) m) (filter (\<lambda>c. command_member c = m) cs) ?b"
    using fold_in_set_filter by simp
  have split: "wanted [x, y] v = wanted [x] v \<union> wanted [y] v" and own: "wanted [z] v \<subseteq> {rID z}" for z
    by (auto simp: wanted_def)
  have of_x: "filter (\<lambda>c. command_member c = rID x) cs = refresh_commands iter keys1 x"
    by (rule filter_shuffled(1) [OF cs]) (use other in \<open>auto dest!: refresh_commands_members\<close>)
  have of_y: "filter (\<lambda>c. command_member c = rID y) cs = refresh_commands iter keys2 y"
    by (rule filter_shuffled(1) [OF cs [unfolded shuffles_commutes [of "refresh_commands iter keys1 x"]]])
      (use other in \<open>auto dest!: refresh_commands_members\<close>)
  consider "m = rID x" | "m = rID y" | "m \<noteq> rID x" "m \<noteq> rID y" by blast
  then show "m \<in> key_members (view (fold (run_command R) cs r)) (rules_key v)
    \<longleftrightarrow> m \<in> key_members (view r) (rules_key v) - {rID x, rID y} \<union> wanted [x, y] v"
  proof cases
    case 1
    with run of_x keys(1) refresh_commands_effect [OF iter, of ?b v keys1 x] other own [of y] split show ?thesis
      by (auto simp: covers_def)
  next
    case 2
    with run of_y keys(2) refresh_commands_effect [OF iter, of ?b v keys2 y] other own [of x] split show ?thesis
      by (auto simp: covers_def)
  next
    case 3
    then have "filter (\<lambda>c. command_member c = m) cs = []"
      using set_shuffles [OF cs] refresh_commands_members by (auto simp: filter_empty_conv)
    with run 3 own [of x] own [of y] split show ?thesis by auto
  qed
qed

section \<open>A report in between\<close>

context redis_server begin

text \<open>Set commands touch no string, so no state and no cached leaf.\<close>

lemma command_strings: "key_string (view (run_command R c r)) k = key_string (view r) k"
proof (cases "holds_string (view r) (command_key c)")
  case True
  then show ?thesis by (cases c) (simp_all add: sadd_string srem_string)
next
  case False
  then show ?thesis by (cases c) (auto simp: sadd_view srem_view key_string_put holds_string_def)
qed

lemma commands_strings: "key_string (view (fold (run_command R) cs r)) k = key_string (view r) k"
  by (induction cs arbitrary: r) (simp_all add: command_strings)

lemma commands_conditions: "holds_raw E R (fold (run_command R) cs r) c = holds_raw E R r c"
proof -
  have "leaf_value E R (fold (run_command R) cs r) = leaf_value E R r"
    by (rule ext, rule leaf_value_cong) (rule commands_strings)+
  then show ?thesis unfolding holds_raw_def by (rule arg_cong)
qed

lemma unlisted_not_evaluated:
  assumes "i \<notin> key_members (view r) (rules_key v)"
  shows "i \<notin> set (fst (ProcessDeviceUpdate E R v st r d))"
proof (cases "fst (GetDeviceByID v d)")
  case (Inr dev)
  then have get: "GetDeviceByID v d = (Inr dev, tick d)" by (simp add: prod_eq_iff)
  show ?thesis
  proof (cases "dev_Accepted dev")
    case True
    from update_accepted [OF Inr True, of E st r] assms show ?thesis by (metis fst_conv)
  qed (simp add: ProcessDeviceUpdate_def get)
qed (simp add: ProcessDeviceUpdate_def Let_def case_prod_unfold split: sum.split)

end

text \<open>
  C19: a report that comes while a rule is refreshed does not count by itself, but it is made up for. The
  rule sets of the devices are emptied of the rule before it is added again; between these commands
  it is in none, although it is enabled and belongs to the device. The rule is then not among
  those that are evaluated for a report of the device. But a request that refreshes an enabled
  rule queues an evaluation of it after the last command, and the commands in between change
  no state: that evaluation finds the conditions as the report has left them (unless the queue
  refuses the task).
\<close>

theorem refresh_window:
  fixes e :: "('r, 'c) engine"
  assumes R: "redis_server R view" and iter: "visit_order iter" and typed: "rules_typed (view (e_redis e))"
    and rule: "fst (GetRuleByID i (e_db e)) = Inr rule" "rID rule = i" "rEnabled rule"
    and named: "unmarshal_condition (rConditions rule) = Some condition" "v \<in> device_ids condition"
    and x: "rID x = i" "rEnabled x"
  shows "\<exists>keys before after. rc_keys R (e_redis e) rules_pattern = Inr keys \<and> refresh_commands iter keys rule = before @ after
    \<and> e_redis (notify_engine R C iter x e) = fold (run_command R) (before @ after) (e_redis e)
    \<and> e_queue (notify_engine R C iter x e) = TriggerRuleEvaluation i (e_queue e)
    \<and> i \<in> key_members (view (e_redis (notify_engine R C iter x e))) (rules_key v)
    \<and> (\<forall>E st d ids r d' later. ProcessDeviceUpdate E R v st (fold (run_command R) before (e_redis e)) d = (ids, r, d', later) \<longrightarrow>
        i \<notin> set ids
        \<and> (\<forall>E' c. holds_raw E' R (fold (run_command R) after r) c = holds_raw E' R r c)
        \<and> (\<forall>q. q_ok q (q_calls q) \<longrightarrow> evaluation_task i '''' \<in> set (q_tasks (TriggerRuleEvaluation i q))))"
proof -
  obtain ks where ks: "rc_keys R (e_redis e) rules_pattern = Inr ks" "set ks = range rules_key \<inter> dom (view (e_redis e))"
    by (rule redis_server.rules_keys [OF R])
  let ?before = "map (\<lambda>key. SRem key i) ks"
  let ?after = "map (\<lambda>d. SAdd (rules_key d) i) (extractDeviceIDsFromConditionTree iter condition)"
  let ?r = "fold (run_command R) ?before (e_redis e)" and ?e' = "notify_engine R C iter x e"
  have "\<forall>c \<in> set ?before. command_key c \<in> range rules_key" using ks(2) by auto
  note mid = redis_server.commands_view [OF R typed this]
  have "rules_key v \<in> set ks" if "i \<in> key_members (view (e_redis e)) (rules_key v)"
    using that ks(2) by (auto simp: key_members_def split: option.splits)
  with mid have "i \<notin> key_members (view ?r) (rules_key v)" by (auto simp: fold_in_set_srem)
  then have out: "i \<notin> set ids" if "ProcessDeviceUpdate E R v st ?r d = (ids, r, d', later)" for E st d ids r d' later
    using redis_server.unlisted_not_evaluated [OF R, of i ?r v E st d] that by simp
  have split: "refresh_commands iter ks rule = ?before @ ?after" using rule(2,3) named(1) by (simp add: refresh_commands_def)
  have redis: "e_redis ?e' = fold (run_command R) (?before @ ?after) (e_redis e)"
    using refresh_runs_commands [OF rule(1,2) ks(1), of C iter] unfolding split engine_db_frame(3) x(1) .
  have "GetRuleByID i (e_db e) = (Inr rule, tick (e_db e))" using rule(1) by (simp add: prod_eq_iff)
  then have "fst (RefreshRuleAssociations R C iter i e)"
    using ks(1) rule(3) named(1) by (simp add: RefreshRuleAssociations_def Let_def)
  then have queue: "e_queue ?e' = TriggerRuleEvaluation i (e_queue e)"
    using x engine_db_frame(1) [of R C iter i e] by (simp add: notify_engine_def case_prod_unfold)
  have listed: "i \<in> key_members (view (e_redis ?e')) (rules_key v)"
    using redis_server.refresh_associations(1) [OF R iter typed rule(1,2), of C v] rule(2,3) named
    by (auto simp: engine_db_frame(3) x(1) associations_def wanted_def raw_device_ids_def)
  have "evaluation_task i '''' \<in> set (q_tasks (TriggerRuleEvaluation i q))" if "q_ok q (q_calls q)" for q
    using that by (simp add: TriggerRuleEvaluation_def EnqueueEvaluation_def enqueue_def Let_def)
  with out redis_server.commands_conditions [OF R]
  have "\<forall>E st d ids r d' later. ProcessDeviceUpdate E R v st ?r d = (ids, r, d', later) \<longrightarrow>
      i \<notin> set ids \<and> (\<forall>E' c. holds_raw E' R (fold (run_command R) ?after r) c = holds_raw E' R r c)
      \<and> (\<forall>q. q_ok q (q_calls q) \<longrightarrow> evaluation_task i '''' \<in> set (q_tasks (TriggerRuleEvaluation i q)))" by simp
  with ks(1) split redis queue listed show ?thesis
    by (intro exI [of _ ks] exI [of _ ?before] exI [of _ ?after] conjI)
qed

section \<open>Rules 7 and 12\<close>

abbreviation demo_rule7 :: rule where
  "demo_rule7 \<equiv> rule_of (demo_rule_row ''7'' (enc_condition demo_tree) (demo_actions 1))"

abbreviation demo_rule12 :: rule where
  "demo_rule12 \<equiv> rule_of (demo_rule_row ''12'' (enc_condition demo_tree) (demo_actions 2))"

lemma demo_rule_ids: "rID demo_rule7 = ''7''" "rID demo_rule12 = ''12''" "rEnabled demo_rule7"
  by (simp_all add: demo_rule_row_def)

lemma demo_covers: "i \<in> {''7'', ''12''} \<Longrightarrow> covers (mem_view demo_server) i [rules_key ''lamp'']"
  by (auto simp: covers_def demo_server_def mem_view_def mem_val_def key_members_def rules_key_def split: if_splits)

lemma refreshes_interleave_witness:
  "\<exists>cs. cs \<in> shuffles (refresh_commands rev [rules_key ''lamp''] demo_rule7) (refresh_commands rev [rules_key ''lamp''] demo_rule12)
    \<and> key_members (mem_view (fold (run_command mem_redis) cs demo_server)) (rules_key ''lamp'') = {''7'', ''12''}"
proof -
  let ?cs = "splice (refresh_commands rev [rules_key ''lamp''] demo_rule7) (refresh_commands rev [rules_key ''lamp''] demo_rule12)"
  have cs: "?cs \<in> shuffles (refresh_commands rev [rules_key ''lamp''] demo_rule7) (refresh_commands rev [rules_key ''lamp''] demo_rule12)"
    by (rule splice_in_shuffles)
  have "wanted [demo_rule7, demo_rule12] ''lamp'' = {''7'', ''12''}"
    using demo_wanted by (simp add: demo_rules_def demo_db_def)
  moreover have "rID demo_rule7 \<noteq> rID demo_rule12" and "covers (mem_view demo_server) (rID demo_rule7) [rules_key ''lamp'']"
    and "covers (mem_view demo_server) (rID demo_rule12) [rules_key ''lamp'']"
    unfolding demo_rule_ids by (simp, rule demo_covers, simp, rule demo_covers, simp)
  note fun_cong [OF refreshes_interleave [OF mem.redis_server_axioms visit_order_rev demo_rules_typed this cs], of "''lamp''"]
  ultimately have "key_members (mem_view (fold (run_command mem_redis) ?cs demo_server)) (rules_key ''lamp'') = {''7'', ''12''}"
    unfolding demo_rule_ids demo_members by simp
  with cs show ?thesis by blast
qed

lemma refresh_window_witness:
  "\<exists>keys before after. refresh_commands rev keys demo_rule7 = before @ after
    \<and> ''7'' \<in> key_members (mem_view (e_redis demo_engine)) (rules_key ''lamp'')
    \<and> ''7'' \<notin> set (fst (ProcessDeviceUpdate (demo_env 18 30) mem_redis ''lamp'' (lamp_report 1)
        (fold (run_command mem_redis) before (e_redis demo_engine)) web_db))
    \<and> e_queue (notify_engine mem_redis mem_cron rev demo_rule7 demo_engine) = TriggerRuleEvaluation ''7'' (e_queue demo_engine)"
proof -
  have db: "e_db demo_engine = demo_rules" "e_redis demo_engine = demo_server" by (simp_all add: demo_engine_def)
  let ?row = "demo_rule_row ''7'' (enc_condition demo_tree) (demo_actions 1)"
  have row: "?row \<in> set (t_rules demo_rules)" and i: "rrID ?row = ''7''"
    by (simp_all add: demo_rules_def demo_db_def) (simp add: demo_rule_row_def)
  have get: "fst (GetRuleByID ''7'' (e_db demo_engine)) = Inr demo_rule7"
    using GetRuleByID_up [OF demo_rules_ok(2,1) row] by (simp add: db i) (simp add: scan_rule_Inr demo_rule_row_def)
  have named: "unmarshal_condition (rConditions demo_rule7) = Some demo_tree" "''lamp'' \<in> device_ids demo_tree"
    by (simp add: demo_rule_row_def) (simp add: device_ids_def demo_defs)
  let ?missed = "\<lambda>before. ProcessDeviceUpdate (demo_env 18 30) mem_redis ''lamp'' (lamp_report 1)
        (fold (run_command mem_redis) before (e_redis demo_engine)) web_db"
  have "rules_typed (mem_view (e_redis demo_engine))" unfolding db by (rule demo_rules_typed)
  from refresh_window [OF mem.redis_server_axioms visit_order_rev this get demo_rule_ids(1,3) named demo_rule_ids(1,3), of mem_cron]
  obtain keys before after where "refresh_commands rev keys demo_rule7 = before @ after"
    and "e_queue (notify_engine mem_redis mem_cron rev demo_rule7 demo_engine) = TriggerRuleEvaluation ''7'' (e_queue demo_engine)"
    and "\<forall>E st d ids r d' later. ProcessDeviceUpdate E mem_redis ''lamp'' st (fold (run_command mem_redis) before (e_redis demo_engine)) d
        = (ids, r, d', later) \<longrightarrow> ''7'' \<notin> set ids"
    by blast
  moreover from this(3) have "''7'' \<notin> set (fst (?missed before))" by (metis prod.collapse)
  moreover have "''7'' \<in> key_members (mem_view (e_redis demo_engine)) (rules_key ''lamp'')" by (simp add: db demo_members)
  ultimately show ?thesis by blast
qed

end
