(* ===== verification/Statements.thy ===== *)
theory Statements
  imports Server
begin

text \<open>
  Every statement of the program that writes to a table, as a value: the queries of
  \<open>internal/db/queries.go\<close>, those of the handlers of \<open>internal/web/api\<close>, and those of
  \<open>auth/auth.go\<close>. Handlers, tasks and write-backs run at the same time, and the database sees
  their statements in some order; a list of statements is such an order.
\<close>

datatype statement =
    CreatesSchedule string string bool
  | UpdatesSchedule string string bool
  | DeletesSchedule string
  | DeletesSchedulesOf string
  | UpdatesState string json
  | InsertsDevice string string string string json
  | AcceptsDevice string string
  | DeletesDevice string
  | LogsAction string string json
  | AcceptsOwned string string
  | SetsOwner string string
  | RenamesDevice string string
  | RemovesDevice string
  | InsertsRule string AddRuleRequest
  | UpdatesRule rule
  | DeletesRule string string
  | InsertsUser string string string
  | SetsPassword int string
  | SetsEmail int string
  | Reads

fun run_statement :: "web_env \<Rightarrow> statement \<Rightarrow> db \<Rightarrow> db" where
  "run_statement W (CreatesSchedule ruleID cron enabled) d = snd (CreateSchedule ruleID cron enabled d)"
| "run_statement W (UpdatesSchedule i cron enabled) d = snd (UpdateSchedule i cron enabled d)"
| "run_statement W (DeletesSchedule i) d = snd (DeleteSchedule i d)"
| "run_statement W (DeletesSchedulesOf ruleID) d = snd (DeleteSchedulesByRuleID ruleID d)"
| "run_statement W (UpdatesState i state) d = snd (UpdateDeviceState i state d)"
| "run_statement W (InsertsDevice i name ty topic state) d = snd (InsertDevice i name ty topic state d)"
| "run_statement W (AcceptsDevice i ownerID) d = snd (AcceptDevice i ownerID d)"
| "run_statement W (DeletesDevice i) d = snd (DeleteDevice i d)"
| "run_statement W (LogsAction ruleID deviceID action) d = snd (LogAction ruleID deviceID action d)"
| "run_statement W (AcceptsOwned userID i) d =
     snd (update_owner userID i (\<lambda>owner x. x\<lparr>dev_Accepted := True, dev_OwnerID := Some owner\<rparr>) d)"
| "run_statement W (SetsOwner userID i) d = snd (update_owner userID i (\<lambda>owner x. x\<lparr>dev_OwnerID := Some owner\<rparr>) d)"
| "run_statement W (RenamesDevice i name) d = snd (exec (update_device i (\<lambda>x. x\<lparr>dev_Name := name\<rparr>)) d)"
| "run_statement W (RemovesDevice i) d = snd (delete_device i d)"
| "run_statement W (InsertsRule userID req) d = snd (insert_rule W userID req d)"
| "run_statement W (UpdatesRule x) d = snd (update_rule W x d)"
| "run_statement W (DeletesRule ruleID userID) d = snd (delete_rule ruleID userID d)"
| "run_statement W (InsertsUser name password email) d = snd (insert_user name password email d)"
| "run_statement W (SetsPassword userID password) d = snd (update_user userID (\<lambda>u. u\<lparr>urPassword := password\<rparr>) d)"
| "run_statement W (SetsEmail userID email) d = snd (update_user userID (\<lambda>u. u\<lparr>urEmail := email\<rparr>) d)"
| "run_statement W Reads d = tick d"

section \<open>One statement\<close>

lemma keeps_update_user:
  assumes "\<And>u. urID (f u) = urID u"
  shows "keeps d (snd (update_user i f d))"
  unfolding update_user_def
proof (rule keeps_exec)
  fix d :: db
  let ?users = "map_rows (\<lambda>u. urID u = show_int i) f (t_users d)"
  have ids: "map urID ?users = map urID (t_users d)" by (simp add: map_rows_map assms)
  then have set_ids: "urID ` set ?users = urID ` set (t_users d)" by (metis list.set_map)
  have "users_ok d \<Longrightarrow> users_ok (d\<lparr>t_users := ?users\<rparr>)"
    using set_ids ids by (simp add: users_ok_def) (metis (no_types, lifting) image_iff)
  then show "keeps d (snd (Inr (), d\<lparr>t_users := ?users\<rparr>))"
    using set_ids by (simp add: keeps_def tables_ok_def owners_ok_def db_ok_def)
qed

lemma keeps_history: "keeps d (d\<lparr>t_history := h\<rparr>)"
  by (simp add: keeps_def tables_ok_def db_ok_def users_ok_def owners_ok_def)

lemma keeps_log: "keeps d (snd (LogAction ruleID deviceID action d))"
  unfolding LogAction_def
  by (intro keeps_exec keeps_exec_int) (simp add: insert_history_def keeps_history)

lemma keeps_db_device_writes: "keeps d (snd (AcceptDevice i ownerID d))" "keeps d (snd (DeleteDevice i d))"
proof -
  show "keeps d (snd (DeleteDevice i d))"
    unfolding DeleteDevice_def
    by (intro keeps_exec) (auto intro!: keeps_devices dest: tables_ok_devices simp: distinct_map_filter)
  have accept: "keeps d (d\<lparr>t_devices := map_rows (\<lambda>x. dev_ID x = i) f (t_devices d)\<rparr>)"
    if "\<And>x. dev_ID (f x) = dev_ID x"
      and "\<And>x. x \<in> set (matching i d) \<Longrightarrow> dev_OwnerID (f x) \<in> insert (dev_OwnerID x) (Some ` urID ` set (t_users d))" for f d
    using keeps_update_device [of f i d] that by (simp add: update_device_def)
  show "keeps d (snd (AcceptDevice i ownerID d))"
    unfolding AcceptDevice_def
    by (auto intro!: keeps_exec keeps_exec_int accept simp: matching_def)
qed

lemma schedule_writes_tables:
  assumes "tables_ok d"
  shows "tables_ok (snd (CreateSchedule r c e d))" "tables_ok (snd (UpdateSchedule i c e d))"
    "tables_ok (snd (DeleteSchedule i d))" "tables_ok (snd (DeleteSchedulesByRuleID r d))"
proof -
  have "schedules_only d (snd (CreateSchedule r c e d))"
    by (cases rule: CreateSchedule_cases [of r c e d]) simp_all
  moreover have "schedules_only d (snd (UpdateSchedule i c e d))" "schedules_only d (snd (DeleteSchedule i d))"
    "schedules_only d (snd (DeleteSchedulesByRuleID r d))"
    by (auto simp: UpdateSchedule_def DeleteSchedule_def DeleteSchedulesByRuleID_def exec_def exec_int_def schedules_only_def
        split: outcome.split option.split)
  moreover have "db_ok d" using assms by (simp add: tables_ok_def)
  note writes_keep_db_ok [OF this]
  ultimately show "tables_ok (snd (CreateSchedule r c e d))" "tables_ok (snd (UpdateSchedule i c e d))"
    "tables_ok (snd (DeleteSchedule i d))" "tables_ok (snd (DeleteSchedulesByRuleID r d))"
    using tables_ok_schedules [OF assms] by blast+
qed

lemma statement_keeps_tables:
  assumes "tables_ok d"
  shows "tables_ok (run_statement W st d)"
proof -
  have kept: "keeps d d' \<Longrightarrow> tables_ok d'" for d' using assms by (simp add: keeps_def)
  have rename: "keeps d (snd (exec (update_device i (\<lambda>x. x\<lparr>dev_Name := n\<rparr>)) d))" for i n
    by (intro keeps_exec keeps_update_device) simp_all
  show ?thesis
    by (cases st)
      (simp_all add: assms schedule_writes_tables kept keeps_device_writes keeps_db_device_writes keeps_log keeps_update_owner
        rename keeps_delete_device keeps_insert_rule keeps_update_rule keeps_delete_rule keeps_insert_user keeps_update_user)
qed

section \<open>Any order of statements\<close>

text \<open>
  C34: the tables stay well formed under the statements of the program, in whatever order those of
  concurrent handlers, tasks and write-backs reach the database, and whatever becomes of each
  of them: primary keys stay distinct, a schedule's rule and the owner of a device or a rule
  exist, stored ids are read back as themselves.
\<close>

theorem statements_keep_tables:
  assumes "tables_ok d"
  shows "tables_ok (fold (run_statement W) sts d)"
  using assms by (induction sts arbitrary: d) (simp_all add: statement_keeps_tables)

lemma statements_keep_tables_witness:
  "tables_ok (fold (run_statement demo_web)
     [DeletesRule ''7'' ''1'', CreatesSchedule ''7'' ''0 8 * * *'' True, DeletesRule ''7'' ''1'', RemovesDevice ''lamp''] web_db)"
  by (rule statements_keep_tables [OF web_tables_ok])

end
