(* ===== verification/Spec2Isabelle.thy ===== *)
theory Spec2Isabelle
  imports Shutdown Remote Prototype Interleaving Statements
begin

text \<open>
  A model of the smart home backend, a Go program of two executables: the home server
  (\<open>cmd/engine\<close>) and the public server that makes it reachable from outside
  (\<open>cmd/remote_server\<close>).

  \<^bold>\<open>The program.\<close> Devices report their state over MQTT. The engine puts each report into a task
  queue; a worker stores the state in Redis, evaluates the rules associated with the device
  before and after, and queues an evaluation for every rule whose conditions changed their truth.
  Another worker evaluates that rule, settles conflicts with the other rules that hold, and
  publishes commands. Rules with time conditions have schedules in Postgres, which a cron service
  turns into evaluations. The web API changes rules and tells the engine, which keeps three
  things in step: the rule table, the rule sets in Redis (device to rules), and the jobs of the
  scheduler. The bridge agent repeats requests from the public server against the local web
  server.

  \<^bold>\<open>The theories\<close>, in the order they build on each other; the definitions carry the names of the
  Go functions and types they model. \<open>Db\<close>, for instance, is the file \<open>internal/db/queries.go\<close>.

  \<^item> \<open>Prelude\<close>: Go maps, decimal texts, lemmas about them. \<open>Json\<close>: what the program uses of
    \<open>encoding/json\<close>, case-insensitive field names and repeated keys included.
    \<open>Base64\<close>: the URL encoding. \<open>Models\<close>: \<open>internal/models\<close> with the decoding of its structs.
  \<^item> \<open>Db\<close>: the tables of \<open>schema.sql\<close> and every query of \<open>internal/db\<close>, each statement with an
    outcome of its own. \<open>Redis\<close>: the commands used, as an interface with laws.
  \<^item> \<open>Utils\<close>, \<open>Evaluator\<close>, \<open>TimeExtractor\<close>, \<open>Updater\<close>, \<open>Executor\<close>: \<open>internal/utils\<close> and
    \<open>internal/automation\<close>. \<open>Conflicts\<close>, \<open>Taskqueue\<close>: \<open>internal/taskqueue/tasks.go\<close>.
  \<^item> \<open>Scheduler\<close>: \<open>internal/scheduler\<close> over the cron service. \<open>Engine\<close>: \<open>internal/engine\<close>.
    \<open>ScheduleSync\<close>: the abstract view of the two, the live schedules of the table.
    \<open>System\<close>: what reports, starts and alarms achieve together.
  \<^item> \<open>Auth\<close>: \<open>auth/auth.go\<close>. \<open>WebDevices\<close>, \<open>WebRules\<close>: the handlers of \<open>internal/web\<close>;
    \<open>serve\<close> is one request from the router to the response. \<open>Web\<close>, \<open>Ownership\<close>: what requests
    keep, and whose rows they may write.
  \<^item> \<open>Config\<close>: \<open>internal/config\<close>. \<open>InternetBridge\<close>: \<open>internal/internet_bridge\<close>.
    \<open>Remote\<close>: \<open>cmd/remote_server\<close>. \<open>Prototype\<close>: the test pages of \<open>internal/web/view\<close>.
  \<^item> \<open>Server\<close>: the running program, one state on which callbacks, workers, cron jobs, write-backs
    and requests work in any order (\<open>sys_step\<close>). \<open>Lifetime\<close>, \<open>Reports\<close>: what holds through a life of it,
    for the rules and for the states of the devices. What runs at the same time in smaller steps:
    \<open>Interleaving\<close>, the single Redis commands of a refresh; \<open>Locks\<close>, the segments of
    \<open>AddOrUpdateSchedule\<close> between its locks; \<open>Statements\<close>, the statements on the tables.
    \<open>Program\<close>: the process, with the statements of \<open>main\<close> and of \<open>StartWorkers\<close>
    (\<open>proc_step\<close>) from the first to the last. \<open>Shutdown\<close>: its end.

  \<^bold>\<open>What is shown.\<close>

  \<^item> Data: condition and action documents survive storage, every statement keeps the tables well
    formed, whatever the order of the statements of concurrent handlers; settings and secrets survive a
    restart.
  \<^item> Evaluation: the evaluator computes the Boolean value of the tree of its leaves, whatever it
    skips; conflict resolution does not depend on the order of the rules and gives each attribute
    the value of the rule whose id comes first as a text (10 before 9); an evaluation publishes exactly the commands of that.
  \<^item> Schedules: the engine's and the scheduler's operations refine operations on a map of live
    schedules; after a refresh every time condition of an enabled rule is scheduled at its
    minute; the scheduler runs live schedules only, and exactly these unless the database fails, as
    long as calls do not overlap. Two updates of one schedule that do can leave an entry behind
    that nothing removes.
  \<^item> The composed system, for handlers, tasks and jobs that run one at a time: every command
    published has a reason, a rule or a request of the owner of the device; the queue comes to
    rest, retries included; from the first statement of \<open>main\<close> on the tables, the queue and the
    scheduler keep their invariant whatever fails; if nothing fails, no rule has NULL for \<open>enabled\<close>
    and rules are deleted by their owners under their plain ids, the rule sets and schedules are
    those of the rule table, so that no report is lost on a rule. The device table agrees with
    Redis once all states are written back, if they are written back in their order; nothing in
    the code keeps this order, and it can end otherwise.
  \<^item> Smaller steps: the commands of refreshes of two rules may interleave in any way; a report
    between two commands of a refresh is not counted by itself, but the evaluation that the
    request queues afterwards sees it.
  \<^item> Security: no token, no effect; nobody writes rows of others; the tokens issued are the ones
    accepted; a session lives as long as it is used. Where the code falls short of this there is
    a theorem of the failure as well (deleting somebody else's rule switches it off, any device
    can be taken over, two registrations under one name).
  \<^item> Remote access: a response is given only to the request with its id, and what the agent
    answers is what the local server answered; but a local URL without a scheme makes the
    agent panic, and one late response stops the public server for good.
  \<^item> The process: the workers never run half set up, while an early report finds no queue client;
    with remote access enabled the shutdown is never reached. Without it, SIGINT and SIGTERM end
    a program that waits for them by an orderly shutdown, and nothing but another signal ends it
    otherwise.

  \<^bold>\<open>Outside the repository.\<close> Libraries and servers are arguments of the definitions, with the
  behaviour the code relies on as the assumptions of a locale: \<open>redis_server\<close> (interpreted by a
  server in memory), \<open>cron_service\<close> (by a list of entries), \<open>auth_library\<close> for bcrypt and
  golang-jwt (by a reference instance, no cryptography), and \<open>dotenv\<close> for godotenv. How a
  database statement, a publish, an \<open>Enqueue\<close> or an HTTP call goes, the clock, random bytes, the
  order in which Go visits a map, and \<open>strconv.ParseFloat\<close> are arguments without assumptions,
  unless a theorem states one.

  \<^bold>\<open>Inside it.\<close> The web server uses the engine through \<open>EngineInterface\<close>: the locale
  \<open>engine_interface\<close> states what its three operations keep and derives that every request keeps it;
  it is interpreted on the engine's operations for the queue and, for any Redis server, for the
  strings stored there. \<open>statement_frame\<close> does the same for what the SQL statements of the device
  and account handlers leave alone (the rules; the device states).

  \<^bold>\<open>Termination.\<close> No definition needs fuel: the recursions are structural or decrease the length
  of the text, what may go on for ever (the bridge, the workers, the server) is a step
  relation, and that a queue without new reports comes to rest is a theorem. Loops over rows,
  rules and devices run over lists, so the theorems hold for any number of them.

  \<^bold>\<open>Not modelled.\<close> What is inside the libraries behind the constructors of the MQTT, Redis and
  Postgres clients, beyond their arguments and their success or failure. Logging. The delivery of
  gin, asynq, paho and the web sockets beyond the nondeterminism of the steps. A statement whose
  commit succeeds while its answer is lost. The steps of \<open>sys_step\<close> are whole runs of a handler, a
  task or a job, one at a time; interleavings of their single Redis commands, SQL statements and
  locked segments are modelled where a theorem speaks of them (the statements that write,
  two registrations, the write-back of a report, a refresh, two updates of a schedule, the
  goroutines of the remote server and of the start), not in general. The theorems about
  \<open>sys_step\<close> and \<open>proc_step\<close> hold for such runs only; where a finer interleaving is known to
  break one, it is named beside it.
\<close>

end
